(* ===== verification/Py_Prelude.thy ===== *)
theory Py_Prelude
  imports Main "HOL-Library.Word"
begin

text \<open>
  What the components share: the parts of Python and of its standard library that the
  modelled scripts use. Integers are unbounded (\<^typ>\<open>int\<close>), bytes are 8-bit words,
  strings are lists of characters (a \<^typ>\<open>char\<close> is one of 256 code points, which is
  Latin-1, the encoding \<^verbatim>\<open>gdbstub.py\<close> decodes its socket with). An exception is the
  left value of a sum. The collection \<open>bytes_simps\<close> (laws of byte lists and slices) and the
  rules of \<open>res_ok\<close> carry the component proofs.
\<close>

unbundle bit_operations_syntax

named_theorems bytes_simps "laws of byte lists, slices and little-endian encodings"

type_synonym byte = "8 word"

subsection \<open>Exceptions as values\<close>

text \<open>
  The exceptions the scripts can raise; \<open>SystemExit\<close> carries the message of \<open>sys.exit\<close>.
  \<open>NeedDraws\<close> is no Python exception: it says that a run asked its random source for more
  numbers than the finite list of draws the model was given.
\<close>

datatype py_error =
    IndexError
  | ValueError
  | KeyError
  | TypeError
  | OverflowError
  | StructError
  | UnboundLocalError
  | SystemExit string
  | OSError string
  | KconfigError string
  | RecursionError
  | NeedDraws

type_synonym 'a res = "py_error + 'a"

definition rbind :: "'a res \<Rightarrow> ('a \<Rightarrow> 'b res) \<Rightarrow> 'b res" where
  "rbind m f = (case m of Inl e \<Rightarrow> Inl e | Inr x \<Rightarrow> f x)"

lemma rbind_simps [simp]:
  "rbind (Inl e) f = Inl e"
  "rbind (Inr x) f = f x"
  by (simp_all add: rbind_def)

lemma rbind_Inr_iff: "rbind m f = Inr y \<longleftrightarrow> (\<exists>x. m = Inr x \<and> f x = Inr y)"
  by (cases m) simp_all

lemma rbind_cong [fundef_cong]:
  "m = m' \<Longrightarrow> (\<And>x. m' = Inr x \<Longrightarrow> f x = f' x) \<Longrightarrow> rbind m f = rbind m' f'"
  by (cases m') simp_all

text \<open>
  A run that may raise only the exceptions in \<open>E\<close>, and whose result satisfies \<open>Q\<close> when it
  returns; the rule for \<open>rbind\<close> composes two of them.
\<close>

definition res_ok :: "py_error set \<Rightarrow> 'a res \<Rightarrow> ('a \<Rightarrow> bool) \<Rightarrow> bool" where
  "res_ok E r Q \<longleftrightarrow> (case r of Inl e \<Rightarrow> e \<in> E | Inr x \<Rightarrow> Q x)"

lemma res_ok_simps [simp]:
  "res_ok E (Inl e) Q \<longleftrightarrow> e \<in> E"
  "res_ok E (Inr x) Q \<longleftrightarrow> Q x"
  by (simp_all add: res_ok_def)

lemma res_ok_rbind:
  "res_ok E r P \<Longrightarrow> (\<And>x. P x \<Longrightarrow> res_ok E (f x) Q) \<Longrightarrow> res_ok E (rbind r f) Q"
  by (cases r) simp_all

lemma res_ok_mono: "res_ok E r P \<Longrightarrow> (\<And>x. P x \<Longrightarrow> Q x) \<Longrightarrow> res_ok E r Q"
  by (cases r) simp_all

lemma if_ok: "(b \<Longrightarrow> res_ok E r Q) \<Longrightarrow> (\<not> b \<Longrightarrow> res_ok E r' Q) \<Longrightarrow> res_ok E (if b then r else r') Q"
  by simp

lemma res_okD: "res_ok E r Q \<Longrightarrow> r = Inr x \<Longrightarrow> Q x"
  by simp

text \<open>
  A loop whose body may raise: \<open>rcollect\<close> gathers the values the body produces (\<open>None\<close> is
  \<open>continue\<close>), \<open>rfold\<close> threads a state through it.
\<close>

fun rcollect :: "('a \<Rightarrow> 'b option res) \<Rightarrow> 'a list \<Rightarrow> 'b list res" where
  "rcollect f [] = Inr []"
| "rcollect f (x # xs) =
     rbind (f x) (\<lambda>y. rbind (rcollect f xs) (\<lambda>ys. Inr (case y of None \<Rightarrow> ys | Some z \<Rightarrow> z # ys)))"

fun rfold :: "('s \<Rightarrow> 'a \<Rightarrow> 's res) \<Rightarrow> 's \<Rightarrow> 'a list \<Rightarrow> 's res" where
  "rfold f s [] = Inr s"
| "rfold f s (x # xs) = rbind (f s x) (\<lambda>s'. rfold f s' xs)"

lemma rcollect_total:
  "\<forall>x \<in> set xs. f x = Inr (g x) \<Longrightarrow> rcollect f xs = Inr (List.map_filter g xs)"
  by (induction xs) (auto simp: map_filter_simps split: option.splits)

lemma res_ok_rfold:
  assumes "\<And>s x. I s \<Longrightarrow> x \<in> set xs \<Longrightarrow> res_ok E (f s x) I" and "I s"
  shows "res_ok E (rfold f s xs) I"
  using assms by (induction xs arbitrary: s) (auto intro!: res_ok_rbind)

lemma rfold_total:
  assumes "\<And>s x. I s \<Longrightarrow> x \<in> set xs \<Longrightarrow> f s x = Inr (g s x) \<and> I (g s x)" and "I s"
  shows "rfold f s xs = Inr (foldl g s xs) \<and> I (foldl g s xs)"
  using assms by (induction xs arbitrary: s) auto

lemma rfold_inv:
  assumes "\<And>s x. I s \<Longrightarrow> x \<in> set xs \<Longrightarrow> \<exists>s'. f s x = Inr s' \<and> I s'" and "I s"
  shows "\<exists>s'. rfold f s xs = Inr s' \<and> I s'"
  using assms
proof (induction xs arbitrary: s)
  case (Cons x xs)
  then obtain s' where "f s x = Inr s'" "I s'" by (metis list.set_intros(1))
  with Cons show ?case by simp
qed simp

lemma rfold_append: "rfold f s (xs @ ys) = rbind (rfold f s xs) (\<lambda>s'. rfold f s' ys)"
  by (induction xs arbitrary: s) (auto simp: rbind_def split: sum.splits)

text \<open>\<open>xs[i]\<close> with a non-negative index.\<close>

definition py_get :: "'a list \<Rightarrow> nat \<Rightarrow> 'a res" where
  "py_get xs i = (if i < length xs then Inr (xs ! i) else Inl IndexError)"

definition py_set :: "'a list \<Rightarrow> nat \<Rightarrow> 'a \<Rightarrow> 'a list res" where
  "py_set xs i v = (if i < length xs then Inr (xs[i := v]) else Inl IndexError)"

lemma py_get_ok [simp]: "i < length xs \<Longrightarrow> py_get xs i = Inr (xs ! i)"
  by (simp add: py_get_def)

lemma py_set_ok [simp]: "i < length xs \<Longrightarrow> py_set xs i v = Inr (xs[i := v])"
  by (simp add: py_set_def)

subsection \<open>Slices\<close>

text \<open>
  \<open>xs[o:o+n]\<close> and \<open>xs[o:o+n] = ys\<close> for \<open>0 \<le> o\<close>, \<open>0 \<le> n\<close>. Python clamps both ends to the
  length, as \<^const>\<open>take\<close> and \<^const>\<open>drop\<close> do; an assignment may change the length.
\<close>

definition py_slice :: "nat \<Rightarrow> nat \<Rightarrow> 'a list \<Rightarrow> 'a list" where
  "py_slice off n xs = take n (drop off xs)"

definition slice_set :: "nat \<Rightarrow> nat \<Rightarrow> 'a list \<Rightarrow> 'a list \<Rightarrow> 'a list" where
  "slice_set off n ys xs = take off xs @ ys @ drop (off + n) xs"

lemma length_slice [bytes_simps]: "off + n \<le> length xs \<Longrightarrow> length (py_slice off n xs) = n"
  by (simp add: py_slice_def)

lemma length_slice_set [bytes_simps]:
  "off + n \<le> length xs \<Longrightarrow> length ys = n \<Longrightarrow> length (slice_set off n ys xs) = length xs"
  by (simp add: slice_set_def)

lemma nth_slice [bytes_simps]: "off + n \<le> length xs \<Longrightarrow> k < n \<Longrightarrow> py_slice off n xs ! k = xs ! (off + k)"
  by (simp add: py_slice_def)

lemma nth_slice_set [bytes_simps]:
  assumes "off + n \<le> length xs" "length ys = n" "k < length xs"
  shows "slice_set off n ys xs ! k = (if off \<le> k \<and> k < off + n then ys ! (k - off) else xs ! k)"
  using assms by (auto simp: slice_set_def nth_append min_def)

lemma slice_slice_set_same [bytes_simps]:
  assumes "off + n \<le> length xs" "length ys = n"
  shows "py_slice off n (slice_set off n ys xs) = ys"
  using assms by (simp add: py_slice_def slice_set_def min_def)

lemma slice_slice_set_disjoint [bytes_simps]:
  assumes "off + n \<le> length xs" "length ys = n" "off' + n' \<le> length xs"
    and "off' + n' \<le> off \<or> off + n \<le> off'"
  shows "py_slice off' n' (slice_set off n ys xs) = py_slice off' n' xs"
proof (rule nth_equalityI)
  show "length (py_slice off' n' (slice_set off n ys xs)) = length (py_slice off' n' xs)"
    using assms by (simp add: bytes_simps)
next
  fix k assume "k < length (py_slice off' n' (slice_set off n ys xs))"
  then have "k < n'" using assms by (simp add: bytes_simps)
  then show "py_slice off' n' (slice_set off n ys xs) ! k = py_slice off' n' xs ! k"
    using assms by (auto simp: bytes_simps)
qed

subsection \<open>Masks and little-endian bytes\<close>

text \<open>\<open>v & ((1 << n) - 1)\<close>, written as the scripts write it.\<close>

definition py_mask :: "nat \<Rightarrow> int \<Rightarrow> int" where
  "py_mask n v = v AND (push_bit n 1 - 1)"

lemma py_mask_take_bit: "py_mask n v = take_bit n v"
  by (simp add: py_mask_def push_bit_eq_mult take_bit_eq_mask mask_eq_exp_minus_1)

lemma py_mask_mod: "py_mask n v = v mod 2 ^ n"
  by (simp add: py_mask_take_bit take_bit_eq_mod)

lemma py_mask_bounds: "0 \<le> py_mask n v" "py_mask n v < 2 ^ n"
  by (simp_all add: py_mask_mod)

lemma py_mask_id: "0 \<le> v \<Longrightarrow> v < 2 ^ n \<Longrightarrow> py_mask n v = v"
  by (simp add: py_mask_mod)

text \<open>\<open>int.from_bytes(bs, "little")\<close>.\<close>

fun from_bytes_le :: "byte list \<Rightarrow> int" where
  "from_bytes_le [] = 0"
| "from_bytes_le (b # bs) = uint b + 256 * from_bytes_le bs"

text \<open>\<open>v.to_bytes(n, "little")\<close> for \<open>0 \<le> v < 256 ^ n\<close>; \<open>py_to_bytes\<close> adds the raise.\<close>

fun to_bytes_le :: "nat \<Rightarrow> int \<Rightarrow> byte list" where
  "to_bytes_le 0 v = []"
| "to_bytes_le (Suc n) v = word_of_int v # to_bytes_le n (v div 256)"

definition py_to_bytes :: "nat \<Rightarrow> int \<Rightarrow> byte list res" where
  "py_to_bytes n v = (if 0 \<le> v \<and> v < 256 ^ n then Inr (to_bytes_le n v) else Inl OverflowError)"

lemma length_to_bytes_le [simp]: "length (to_bytes_le n v) = n"
  by (induction n arbitrary: v) simp_all

lemma from_bytes_le_nonneg [simp]: "0 \<le> from_bytes_le bs"
  by (induction bs) simp_all

lemma uint_byte_bounds: "0 \<le> uint (b :: byte)" "uint (b :: byte) < 256"
  using uint_bounded [of b] by simp_all

lemma from_bytes_le_bound: "from_bytes_le bs < 256 ^ length bs"
proof (induction bs)
  case Nil
  show ?case by simp
next
  case (Cons b bs)
  then have "from_bytes_le bs \<le> 256 ^ length bs - 1" by linarith
  moreover have "uint b < 256" by (rule uint_byte_bounds)
  ultimately show ?case by simp
qed

lemma from_to_bytes_le [bytes_simps]: "from_bytes_le (to_bytes_le n v) = v mod 256 ^ n"
proof (induction n arbitrary: v)
  case 0
  show ?case by simp
next
  case (Suc n)
  have "v mod (256 * 256 ^ n) = 256 * (v div 256 mod 256 ^ n) + v mod 256"
    by (simp add: mod_mult2_eq' zmod_zmult2_eq)
  with Suc show ?case by (simp add: uint_word_of_int)
qed

lemma to_from_bytes_le [bytes_simps]: "to_bytes_le (length bs) (from_bytes_le bs) = bs"
proof (induction bs)
  case Nil
  show ?case by simp
next
  case (Cons b bs)
  have "(uint b + 256 * from_bytes_le bs) div 256 = from_bytes_le bs"
    using uint_byte_bounds [of b] by simp
  moreover have "(word_of_int (uint b + 256 * from_bytes_le bs) :: byte) = b"
  proof -
    have "(256 :: byte) = 0" by simp
    then show ?thesis by (simp only: of_int_add of_int_mult of_int_numeral mult_zero_left) simp
  qed
  ultimately show ?case using Cons by simp
qed

lemma to_bytes_le_mod: "to_bytes_le n (v mod 256 ^ n) = to_bytes_le n v"
  using to_from_bytes_le [of "to_bytes_le n v"] by (simp add: from_to_bytes_le)

lemma from_bytes_le_append:
  "from_bytes_le (xs @ ys) = from_bytes_le xs + 256 ^ length xs * from_bytes_le ys"
  by (induction xs) (simp_all add: algebra_simps)

lemma from_bytes_le_inj:
  "length xs = length ys \<Longrightarrow> from_bytes_le xs = from_bytes_le ys \<Longrightarrow> xs = ys"
  by (metis to_from_bytes_le)

lemma exp_8_256: "(2 :: int) ^ (8 * n) = 256 ^ n"
  by (simp add: power_mult)

end
