(* ===== verification/Py_Text.thy ===== *)
theory Py_Text
  imports Py_Prelude "HOL-Library.Sublist"
begin

text \<open>
  Python's text: number formatting (\<open>%d\<close>, \<open>%x\<close>, \<open>%08x\<close>), number parsing
  (\<open>int(s, base)\<close>, \<open>bytes.fromhex\<close>) and the string methods the scripts call. The laws
  are the round trips between formatting and parsing and between \<open>join\<close> and \<open>split\<close>.
\<close>

named_theorems text_simps "laws of Python's string operations"

subsection \<open>Digits\<close>

definition digit_char :: "nat \<Rightarrow> char" where
  "digit_char d = (if d < 10 then char_of (48 + d) else char_of (87 + d))"

text \<open>The value of a digit character in any base up to 36; \<open>None\<close> for other characters.\<close>

definition digit_val :: "char \<Rightarrow> nat option" where
  "digit_val c =
     (let n = (of_char c :: nat) in
      if 48 \<le> n \<and> n \<le> 57 then Some (n - 48)
      else if 97 \<le> n \<and> n \<le> 122 then Some (n - 87)
      else if 65 \<le> n \<and> n \<le> 90 then Some (n - 55)
      else None)"

fun digits :: "nat \<Rightarrow> nat \<Rightarrow> nat list" where
  "digits b n = (if b < 2 \<or> n < b then [n] else digits b (n div b) @ [n mod b])"

declare digits.simps [simp del]

fun undigits :: "nat \<Rightarrow> nat list \<Rightarrow> nat \<Rightarrow> nat" where
  "undigits b [] acc = acc"
| "undigits b (d # ds) acc = undigits b ds (b * acc + d)"

definition str_base :: "nat \<Rightarrow> nat \<Rightarrow> string" where
  "str_base b n = map digit_char (digits b n)"

text \<open>\<open>"%d" % z\<close>, \<open>str(z)\<close>.\<close>

definition py_str :: "int \<Rightarrow> string" where
  "py_str z = (if z < 0 then ''-'' @ str_base 10 (nat (- z)) else str_base 10 (nat z))"

text \<open>\<open>"%0wx" % n\<close> for a non-negative \<open>n\<close>.\<close>

definition fmt_0x :: "nat \<Rightarrow> nat \<Rightarrow> string" where
  "fmt_0x w n = (let s = str_base 16 n in replicate (w - length s) (CHR ''0'') @ s)"

lemma digits_bound: "2 \<le> b \<Longrightarrow> d \<in> set (digits b n) \<Longrightarrow> d < b"
proof (induction b n arbitrary: d rule: digits.induct)
  case (1 b n)
  then show ?case
    by (subst (asm) (2) digits.simps) (auto split: if_splits)
qed

lemma digits_nonempty [simp]: "digits b n \<noteq> []"
  by (subst digits.simps) simp

lemma undigits_append: "undigits b (xs @ ys) acc = undigits b ys (undigits b xs acc)"
  by (induction xs arbitrary: acc) simp_all

lemma undigits_digits: "2 \<le> b \<Longrightarrow> undigits b (digits b n) 0 = n"
proof (induction b n rule: digits.induct)
  case (1 b n)
  show ?case
  proof (cases "n < b")
    case True
    with "1.prems" show ?thesis by (simp add: digits.simps [of b n])
  next
    case False
    with 1 show ?thesis by (simp add: digits.simps [of b n] undigits_append)
  qed
qed

lemma undigits_zeros: "undigits b (replicate k 0 @ xs) 0 = undigits b xs 0"
  by (induction k) simp_all

lemma length_digits_le: "2 \<le> b \<Longrightarrow> n < b ^ k \<Longrightarrow> 0 < k \<Longrightarrow> length (digits b n) \<le> k"
proof (induction b n arbitrary: k rule: digits.induct)
  case (1 b n)
  show ?case
  proof (cases "n < b")
    case True
    with "1.prems" show ?thesis by (simp add: digits.simps [of b n])
  next
    case False
    then obtain k' where k': "k = Suc k'" "0 < k'"
      using "1.prems" by (cases k; cases "k - 1") auto
    with "1.prems" have "n div b < b ^ k'"
      by (simp add: less_mult_imp_div_less mult.commute)
    with 1 False k' have "length (digits b (n div b)) \<le> k'" by simp
    with False k' "1.prems" show ?thesis by (simp add: digits.simps [of b n])
  qed
qed

lemma digit_val_char [simp]: "d < 36 \<Longrightarrow> digit_val (digit_char d) = Some d"
  by (simp add: digit_val_def digit_char_def Let_def of_char_of)

lemma digit_char_zero [simp]: "digit_char 0 = CHR ''0''"
  by (simp add: digit_char_def char_of_def) (simp add: bit_simps; code_simp)

lemma fmt_0x_digits:
  "fmt_0x w n = map digit_char (replicate (w - length (digits 16 n)) 0 @ digits 16 n)"
  by (simp add: fmt_0x_def str_base_def Let_def)

lemma length_fmt_0x [text_simps]: "n < 16 ^ w \<Longrightarrow> 0 < w \<Longrightarrow> length (fmt_0x w n) = w"
  using length_digits_le [of 16 n w] by (simp add: fmt_0x_digits)

subsection \<open>Parsing numbers\<close>

text \<open>\<open>str.isspace\<close> on one Latin-1 character, and the narrower test of \<open>bytes.fromhex\<close>.\<close>

definition py_isspace :: "char \<Rightarrow> bool" where
  "py_isspace c =
     (let n = (of_char c :: nat) in 9 \<le> n \<and> n \<le> 13 \<or> 28 \<le> n \<and> n \<le> 32 \<or> n = 133 \<or> n = 160)"

definition ascii_isspace :: "char \<Rightarrow> bool" where
  "ascii_isspace c = (let n = (of_char c :: nat) in 9 \<le> n \<and> n \<le> 13 \<or> n = 32)"

definition py_lstrip :: "string \<Rightarrow> string" where
  "py_lstrip s = dropWhile py_isspace s"

definition py_rstrip :: "string \<Rightarrow> string" where
  "py_rstrip s = rev (dropWhile py_isspace (rev s))"

definition py_strip :: "string \<Rightarrow> string" where
  "py_strip s = py_rstrip (py_lstrip s)"

definition digit_in :: "nat \<Rightarrow> char \<Rightarrow> nat option" where
  "digit_in b c = (case digit_val c of None \<Rightarrow> None | Some d \<Rightarrow> if d < b then Some d else None)"

text \<open>Digits with single underscores between them, as \<open>int\<close> accepts them.\<close>

fun int_digits :: "nat \<Rightarrow> string \<Rightarrow> nat list option" where
  "int_digits b [] = None"
| "int_digits b [c] = map_option (\<lambda>d. [d]) (digit_in b c)"
| "int_digits b (c # c' # cs) =
     (case digit_in b c of
        None \<Rightarrow> None
      | Some d \<Rightarrow> map_option ((#) d) (int_digits b (if c' = CHR ''_'' then cs else c' # cs)))"

text \<open>\<open>int(s, b)\<close> for \<open>b\<close> 10 or 16; \<open>None\<close> is the \<open>ValueError\<close>.\<close>

definition int_body :: "nat \<Rightarrow> string \<Rightarrow> string" where
  "int_body b t =
     (if b = 16 \<and> (take 2 t = ''0x'' \<or> take 2 t = ''0X'')
      then (if take 1 (drop 2 t) = ''_'' then drop 3 t else drop 2 t)
      else t)"

definition py_int :: "nat \<Rightarrow> string \<Rightarrow> int option" where
  "py_int b s =
     (let t = py_strip s;
          t' = (if take 1 t = ''-'' \<or> take 1 t = ''+'' then drop 1 t else t);
          sg = (if take 1 t = ''-'' then - 1 else 1)
      in map_option (\<lambda>ds. sg * int (undigits b ds 0)) (int_digits b (int_body b t')))"

text \<open>\<open>bytes.fromhex(s)\<close>; \<open>None\<close> is the \<open>ValueError\<close>.\<close>

fun fromhex :: "string \<Rightarrow> byte list option" where
  "fromhex [] = Some []"
| "fromhex (c # cs) =
     (if ascii_isspace c then fromhex cs
      else case cs of
             [] \<Rightarrow> None
           | c' # cs' \<Rightarrow>
               (case (digit_in 16 c, digit_in 16 c') of
                  (Some h, Some l) \<Rightarrow> map_option ((#) (of_nat (16 * h + l))) (fromhex cs')
                | _ \<Rightarrow> None))"

text \<open>\<open>bs.hex()\<close>.\<close>

definition bytes_hex :: "byte list \<Rightarrow> string" where
  "bytes_hex bs = concat (map (\<lambda>b. fmt_0x 2 (unat b)) bs)"

subsection \<open>String methods\<close>

fun split_on :: "char \<Rightarrow> string \<Rightarrow> string list" where
  "split_on sep [] = [[]]"
| "split_on sep (c # cs) =
     (if c = sep then [] # split_on sep cs
      else case split_on sep cs of [] \<Rightarrow> [[c]] | p # ps \<Rightarrow> (c # p) # ps)"

fun py_join :: "string \<Rightarrow> string list \<Rightarrow> string" where
  "py_join sep [] = []"
| "py_join sep [x] = x"
| "py_join sep (x # y # ys) = x @ sep @ py_join sep (y # ys)"

definition startswith :: "string \<Rightarrow> string \<Rightarrow> bool" where
  "startswith s p = (take (length p) s = p)"

text \<open>\<open>s.index(c, from)\<close>; \<open>None\<close> is the \<open>ValueError\<close>.\<close>

fun index_of :: "char \<Rightarrow> string \<Rightarrow> nat option" where
  "index_of c [] = None"
| "index_of c (x # xs) = (if x = c then Some 0 else map_option Suc (index_of c xs))"

definition index_from :: "char \<Rightarrow> string \<Rightarrow> nat \<Rightarrow> nat option" where
  "index_from c s i = map_option (\<lambda>k. i + k) (index_of c (drop i s))"

subsection \<open>Round trips\<close>

definition hex_chars :: string where
  "hex_chars = ''0123456789abcdef''"

lemma digit_char_hex: "d < 16 \<Longrightarrow> digit_char d \<in> set hex_chars"
proof -
  assume "d < 16"
  moreover have "list_all (\<lambda>d. digit_char d \<in> set hex_chars) [0..<16]" by code_simp
  ultimately show ?thesis by (auto simp: list_all_iff)
qed

lemma str_base_hex: "2 \<le> b \<Longrightarrow> b \<le> 16 \<Longrightarrow> set (str_base b n) \<subseteq> set hex_chars"
  using digits_bound by (fastforce simp: str_base_def intro: digit_char_hex)

lemma fmt_0x_hex: "set (fmt_0x w n) \<subseteq> set hex_chars"
  using str_base_hex [of 16 n] by (auto simp: fmt_0x_def Let_def hex_chars_def)

lemma hex_chars_plain:
  assumes "c \<in> set hex_chars"
  shows "\<not> py_isspace c" "\<not> ascii_isspace c" "c \<noteq> CHR ''_''" "c \<noteq> CHR ''-''" "c \<noteq> CHR ''+''"
    "c \<noteq> CHR ''x''" "c \<noteq> CHR ''X''" "c \<noteq> CHR '',''" "c \<noteq> CHR '':''" "c \<noteq> CHR ''=''" "c \<noteq> CHR ''#''"
    "c \<noteq> CHR ''$''"
  using assms by (auto simp: hex_chars_def py_isspace_def ascii_isspace_def)

lemma dropWhile_none: "\<forall>c \<in> set s. \<not> P c \<Longrightarrow> dropWhile P s = s"
  by (cases s) simp_all

lemma py_strip_plain: "\<forall>c \<in> set s. \<not> py_isspace c \<Longrightarrow> py_strip s = s"
  by (simp add: py_strip_def py_lstrip_def py_rstrip_def dropWhile_none)

lemma int_digits_plain:
  "ds \<noteq> [] \<Longrightarrow> \<forall>d \<in> set ds. d < b \<Longrightarrow> b \<le> 16 \<Longrightarrow> int_digits b (map digit_char ds) = Some ds"
proof (induction ds rule: induct_list012)
  case (3 d d' ds)
  then have "d' < 16" "d < 36" by auto
  with 3 hex_chars_plain(3) [OF digit_char_hex [of d']] show ?case
    by (auto simp: digit_in_def)
qed (auto simp: digit_in_def)

lemma int_body_plain: "set s \<subseteq> set hex_chars \<Longrightarrow> int_body b s = s"
  by (cases s; cases "tl s") (auto simp: int_body_def dest: hex_chars_plain(6,7))

text \<open>\<open>py_int\<close> of a string of plain digits reads them.\<close>

lemma py_int_plain:
  assumes "ds \<noteq> []" "\<forall>d \<in> set ds. d < b" "b \<le> 16"
  shows "py_int b (map digit_char ds) = Some (int (undigits b ds 0))"
proof -
  let ?s = "map digit_char ds"
  have sub: "set ?s \<subseteq> set hex_chars"
    using assms by (auto intro!: digit_char_hex)
  then have strip: "py_strip ?s = ?s"
    by (intro py_strip_plain) (auto dest: hex_chars_plain(1))
  obtain c cs where s: "?s = c # cs" using assms(1) by (cases ds) auto
  with sub have "c \<in> set hex_chars" by auto
  then have "c \<noteq> CHR ''-''" "c \<noteq> CHR ''+''" by (auto dest: hex_chars_plain)
  with s have "py_int b ?s = map_option (\<lambda>ds. int (undigits b ds 0)) (int_digits b (int_body b ?s))"
    using strip by (simp add: py_int_def Let_def)
  with sub assms show ?thesis
    by (simp add: int_body_plain int_digits_plain)
qed

lemma py_int_str_base [text_simps]:
  "2 \<le> b \<Longrightarrow> b \<le> 16 \<Longrightarrow> py_int b (str_base b n) = Some (int n)"
  unfolding str_base_def
  using digits_bound by (subst py_int_plain) (auto simp: undigits_digits)

lemma py_int_fmt_0x [text_simps]: "py_int 16 (fmt_0x w n) = Some (int n)"
  unfolding fmt_0x_digits
  using digits_bound [of 16] by (subst py_int_plain) (auto simp: undigits_digits undigits_zeros)

lemma fmt_0x_2: "n < 256 \<Longrightarrow> fmt_0x 2 n = [digit_char (n div 16), digit_char (n mod 16)]"
  by (auto simp: fmt_0x_digits digits.simps [of 16 n] digits.simps [of 16 "n div 16"])

lemma fromhex_byte: "fromhex (fmt_0x 2 (unat b) @ s) = map_option ((#) b) (fromhex s)"
proof -
  have b: "unat b < 256" using unsigned_less [of b, where 'a = nat] by simp
  have "digit_char (unat b div 16) \<in> set hex_chars" "digit_char (unat b mod 16) \<in> set hex_chars"
    using b by (auto intro!: digit_char_hex)
  then have "\<not> ascii_isspace (digit_char (unat b div 16))" "\<not> ascii_isspace (digit_char (unat b mod 16))"
    by (auto dest: hex_chars_plain(2))
  moreover have "16 * (unat b div 16) + unat b mod 16 = unat b" by simp
  moreover have "unat b div 16 < 16" using b by auto
  ultimately show ?thesis
    by (simp add: fmt_0x_2 b digit_in_def del: of_nat_add of_nat_mult) 
qed

lemma fromhex_hex [text_simps]: "fromhex (bytes_hex bs) = Some bs"
  by (induction bs) (simp_all add: bytes_hex_def fromhex_byte)

lemma length_bytes_hex [text_simps]: "length (bytes_hex bs) = 2 * length bs"
proof (induction bs)
  case (Cons b bs)
  have "unat b < 16 ^ 2" using unsigned_less [of b, where 'a = nat] by simp
  with Cons show ?case by (simp add: bytes_hex_def length_fmt_0x)
qed (simp add: bytes_hex_def)

lemma split_on_not_Nil [simp]: "split_on sep s \<noteq> []"
  by (induction s) (auto split: list.splits)

lemma split_on_plain: "sep \<notin> set s \<Longrightarrow> split_on sep s = [s]"
  by (induction s) auto

lemma split_on_append: "sep \<notin> set s \<Longrightarrow> split_on sep (s @ sep # t) = s # split_on sep t"
  by (induction s) auto

lemma split_on_join: "split_on sep (py_join [sep] (x # xs)) = x # xs"
  if "sep \<notin> set x" "\<forall>s \<in> set xs. sep \<notin> set s"
  using that
proof (induction xs arbitrary: x)
  case Nil
  then show ?case by (simp add: split_on_plain)
next
  case (Cons y ys)
  then show ?case by (simp add: split_on_append)
qed

lemma index_of_append: "c \<notin> set s \<Longrightarrow> index_of c (s @ c # t) = Some (length s)"
  by (induction s) auto

lemma index_of_None: "index_of c s = None \<longleftrightarrow> c \<notin> set s"
  by (induction s) auto

lemma index_of_Some: "index_of c s = Some i \<Longrightarrow> i < length s \<and> s ! i = c \<and> c \<notin> set (take i s)"
  by (induction s arbitrary: i) (auto split: if_splits)

end
