(* ===== verification/Stores.thy ===== *)
theory Stores
  imports Py_Prelude
begin

text \<open>
  The contract of an indexed store, shared by the vector register file (elements and mask
  bits), its memory, and the debugger's register and memory windows: reading back what was
  written, and leaving every other index alone. The laws of a whole loop of writes are
  proved once here, for any provider.
\<close>

locale indexed_store =
  fixes sget :: "'s \<Rightarrow> 'i \<Rightarrow> 'v"
    and sput :: "'s \<Rightarrow> 'i \<Rightarrow> 'w \<Rightarrow> 's"
    and norm :: "'w \<Rightarrow> 'v"
    and ok :: "'s \<Rightarrow> 'i \<Rightarrow> bool"
  assumes get_put_same: "ok s i \<Longrightarrow> sget (sput s i w) i = norm w"
    and get_put_other: "ok s i \<Longrightarrow> ok s j \<Longrightarrow> i \<noteq> j \<Longrightarrow> sget (sput s i w) j = sget s j"
    and ok_put: "ok s i \<Longrightarrow> ok (sput s i w) j = ok s j"
begin

text \<open>The loop \<open>for i, w in new.items(): put(i, w)\<close>.\<close>

definition put_all :: "'s \<Rightarrow> ('i \<times> 'w) list \<Rightarrow> 's" where
  "put_all s kvs = foldl (\<lambda>s (i, w). sput s i w) s kvs"

lemma put_all_simps [simp]:
  "put_all s [] = s"
  "put_all s ((i, w) # kvs) = put_all (sput s i w) kvs"
  by (simp_all add: put_all_def)

lemma ok_put_all: "\<forall>i \<in> fst ` set kvs. ok s i \<Longrightarrow> ok (put_all s kvs) j = ok s j"
  by (induction kvs arbitrary: s) (auto simp: ok_put)

text \<open>A loop of writes to distinct indices leaves at each index what the loop wrote there.\<close>

lemma get_put_all:
  assumes "distinct (map fst kvs)" "\<forall>i \<in> fst ` set kvs. ok s i" "ok s j"
  shows "sget (put_all s kvs) j = (case map_of kvs j of Some w \<Rightarrow> norm w | None \<Rightarrow> sget s j)"
  using assms
proof (induction kvs arbitrary: s)
  case Nil
  then show ?case by simp
next
  case (Cons kv kvs)
  obtain i w where kv: "kv = (i, w)" by (cases kv)
  with Cons.prems have ok: "ok s i" "\<forall>k \<in> fst ` set kvs. ok (sput s i w) k" "ok (sput s i w) j"
    by (auto simp: ok_put)
  have IH: "sget (put_all (sput s i w) kvs) j =
      (case map_of kvs j of Some w' \<Rightarrow> norm w' | None \<Rightarrow> sget (sput s i w) j)"
    using Cons.prems kv ok by (intro Cons.IH) auto
  show ?case
  proof (cases "j = i")
    case True
    with Cons.prems kv have "map_of kvs j = None" by (auto simp: map_of_eq_None_iff)
    with IH True kv ok(1) show ?thesis by (simp add: get_put_same)
  next
    case False
    with IH kv ok Cons.prems show ?thesis by (simp add: get_put_other split: option.splits)
  qed
qed

lemma get_put_all_other:
  assumes "\<forall>i \<in> fst ` set kvs. ok s i" "ok s j" "j \<notin> fst ` set kvs"
  shows "sget (put_all s kvs) j = sget s j"
  using assms
proof (induction kvs arbitrary: s)
  case (Cons kv kvs)
  then show ?case by (cases kv) (auto simp: ok_put get_put_other)
qed simp

end

end
