(* ===== verification/Vec_Model.thy ===== *)
theory Vec_Model
  imports Complex_Main Py_Text Stores
begin

text \<open>
  The class \<open>Model\<close> of \<^verbatim>\<open>tools/vtest/vgen.py\<close>: the architectural state of the vector unit
  (the register file as one byte array, memory, \<open>vl\<close>, \<open>SEW\<close>, \<open>LMUL\<close>) and the accessors of
  its elements, mask bits and memory. The Python field \<open>out\<close> is never used after the
  constructor and \<open>vlenb\<close> is \<open>vlen // 8\<close> throughout. An index out of the byte array raises
  (\<open>bget\<close>, \<open>bset\<close>); slices clamp.
\<close>

unbundle bit_operations_syntax

named_theorems vec_simps "evaluation of the vector model's accessors"

definition DATA :: nat where "DATA = 0x2000"
definition INDEX :: nat where "INDEX = 0x3000"
definition OUT_V :: nat where "OUT_V = 0x4000"
definition OUT_S :: nat where "OUT_S = 0x5000"
definition END :: nat where "END = 0x6000"

lemmas layout_defs = DATA_def INDEX_def OUT_V_def OUT_S_def END_def

definition sx :: "int \<Rightarrow> nat \<Rightarrow> int" where
  "sx v bits =
     (let v = py_mask bits v in if drop_bit (bits - 1) v \<noteq> 0 then v - push_bit bits 1 else v)"

record vmodel =
  m_vlen :: nat
  m_v :: "byte list"
  m_mem :: "byte list"
  m_vl :: nat
  m_sew :: nat
  m_lmul :: rat

definition m_vlenb :: "vmodel \<Rightarrow> nat" where
  "m_vlenb m = m_vlen m div 8"

definition model_init :: "nat \<Rightarrow> byte list \<Rightarrow> vmodel" where
  "model_init vlen mem =
     \<lparr>m_vlen = vlen, m_v = replicate (32 * (vlen div 8)) 0, m_mem = mem,
      m_vl = 0, m_sew = 8, m_lmul = 1\<rparr>"

subsection \<open>Element access\<close>

definition eget :: "vmodel \<Rightarrow> nat \<Rightarrow> nat \<Rightarrow> nat \<Rightarrow> int" where
  "eget m reg i eew =
     (let off = reg * m_vlenb m + i * eew div 8
      in from_bytes_le (py_slice off (eew div 8) (m_v m)))"

definition eset :: "vmodel \<Rightarrow> nat \<Rightarrow> nat \<Rightarrow> nat \<Rightarrow> int \<Rightarrow> vmodel" where
  "eset m reg i eew val =
     (let off = reg * m_vlenb m + i * eew div 8
      in m\<lparr>m_v := slice_set off (eew div 8) (to_bytes_le (eew div 8) (py_mask eew val)) (m_v m)\<rparr>)"

definition bget :: "vmodel \<Rightarrow> nat \<Rightarrow> nat \<Rightarrow> int res" where
  "bget m reg i =
     (let off = reg * m_vlenb m + i div 8
      in rbind (py_get (m_v m) off) (\<lambda>x. Inr (drop_bit (i mod 8) (uint x) AND 1)))"

text \<open>Storing an integer into a \<open>bytearray\<close> raises unless it is a byte.\<close>

definition py_byte :: "int \<Rightarrow> byte res" where
  "py_byte r = (if 0 \<le> r \<and> r < 256 then Inr (word_of_int r) else Inl ValueError)"

definition bset :: "vmodel \<Rightarrow> nat \<Rightarrow> nat \<Rightarrow> int \<Rightarrow> vmodel res" where
  "bset m reg i b =
     (let off = reg * m_vlenb m + i div 8
      in rbind (py_get (m_v m) off) (\<lambda>x.
         rbind (py_byte ((uint x AND NOT (push_bit (i mod 8) 1)) OR push_bit (i mod 8) b)) (\<lambda>y.
         rbind (py_set (m_v m) off y) (\<lambda>v'. Inr (m\<lparr>m_v := v'\<rparr>)))))"

definition mget :: "vmodel \<Rightarrow> nat \<Rightarrow> nat \<Rightarrow> int" where
  "mget m a n = from_bytes_le (py_slice a n (m_mem m))"

definition mset :: "vmodel \<Rightarrow> nat \<Rightarrow> nat \<Rightarrow> int \<Rightarrow> vmodel" where
  "mset m a n val = m\<lparr>m_mem := slice_set a n (to_bytes_le n (py_mask (8 * n) val)) (m_mem m)\<rparr>"

definition vlmax :: "vmodel \<Rightarrow> nat \<Rightarrow> rat \<Rightarrow> nat" where
  "vlmax m sew lmul = nat \<lfloor>of_nat (m_vlen m div sew) * lmul\<rfloor>"

definition active :: "vmodel \<Rightarrow> nat \<Rightarrow> bool \<Rightarrow> bool res" where
  "active m i vm = (if vm then Inr True else rbind (bget m 0 i) (\<lambda>b. Inr (b \<noteq> 0)))"

definition emul_ok :: "nat \<Rightarrow> nat \<Rightarrow> rat \<Rightarrow> bool \<times> rat" where
  "emul_ok eew sew lmul =
     (let e = of_nat eew / of_nat sew * lmul in (1 / 8 \<le> e \<and> e \<le> 8, e))"

subsection \<open>Well-formed states\<close>

definition sews :: "nat list" where "sews = [8, 16, 32]"
definition lmuls :: "rat list" where "lmuls = [1/8, 1/4, 1/2, 1, 2, 4, 8]"
definition vlens :: "nat list" where "vlens = [64, 128, 256]"

text \<open>
  The invariant of every state the generator reaches: the sizes of the two byte arrays, the
  vector type one that \<open>vset\<close> can choose, and \<open>vl\<close> no longer than its \<open>VLMAX\<close>.
\<close>

definition wf_vtype :: "nat \<Rightarrow> rat \<Rightarrow> bool" where
  "wf_vtype sew lmul \<longleftrightarrow>
     sew \<in> set sews \<and> lmul \<in> set lmuls \<and> \<not> (lmul < 1 \<and> of_nat sew / lmul > 32)"

definition wf_model :: "vmodel \<Rightarrow> bool" where
  "wf_model m \<longleftrightarrow>
     m_vlen m \<in> set vlens \<and> length (m_v m) = 32 * m_vlenb m \<and> length (m_mem m) = END \<and>
     wf_vtype (m_sew m) (m_lmul m) \<and> m_vl m \<le> vlmax m (m_sew m) (m_lmul m)"

subsection \<open>Laws of the accessors\<close>

text \<open>\<open>sx\<close> reads the low \<open>bits\<close> bits as two's complement.\<close>

lemma sx_signed_take_bit: "0 < bits \<Longrightarrow> sx v bits = signed_take_bit (bits - 1) v"
proof -
  assume "0 < bits"
  then obtain n where n: "bits = Suc n" by (cases bits) auto
  have "drop_bit n (take_bit (Suc n) v) = of_bool (bit v n)"
    by (rule bit_eqI) (auto simp: bit_simps)
  then show ?thesis
    by (simp add: n sx_def Let_def py_mask_take_bit signed_take_bit_eq_take_bit_minus push_bit_eq_mult)
qed

definition elem_off :: "vmodel \<Rightarrow> nat \<Rightarrow> nat \<Rightarrow> nat \<Rightarrow> nat" where
  "elem_off m reg i eew = reg * m_vlenb m + i * (eew div 8)"

definition elem_ok :: "vmodel \<Rightarrow> nat \<Rightarrow> nat \<Rightarrow> nat \<Rightarrow> bool" where
  "elem_ok m reg i eew \<longleftrightarrow>
     8 dvd eew \<and> 0 < eew \<and> elem_off m reg i eew + eew div 8 \<le> length (m_v m)"

lemma elem_off_eq: "8 dvd eew \<Longrightarrow> reg * m_vlenb m + i * eew div 8 = elem_off m reg i eew"
  by (simp add: elem_off_def div_mult_swap)

lemma eget_off [vec_simps]:
  "8 dvd eew \<Longrightarrow> eget m reg i eew = from_bytes_le (py_slice (elem_off m reg i eew) (eew div 8) (m_v m))"
  by (simp add: eget_def elem_off_eq)

lemma eset_off [vec_simps]:
  "8 dvd eew \<Longrightarrow> eset m reg i eew val =
     m\<lparr>m_v := slice_set (elem_off m reg i eew) (eew div 8) (to_bytes_le (eew div 8) (py_mask eew val)) (m_v m)\<rparr>"
  by (simp add: eset_def elem_off_eq)

lemma eset_frame [simp]:
  "m_vlen (eset m reg i eew w) = m_vlen m" "m_mem (eset m reg i eew w) = m_mem m"
  "m_vl (eset m reg i eew w) = m_vl m" "m_sew (eset m reg i eew w) = m_sew m"
  "m_lmul (eset m reg i eew w) = m_lmul m" "m_vlenb (eset m reg i eew w) = m_vlenb m"
  by (simp_all add: eset_def Let_def m_vlenb_def)

lemma length_eset [simp]: "elem_ok m reg i eew \<Longrightarrow> length (m_v (eset m reg i eew w)) = length (m_v m)"
  by (simp add: elem_ok_def vec_simps bytes_simps)

lemma elem_off_cong: "m_vlen m' = m_vlen m \<Longrightarrow> elem_off m' = elem_off m"
  by (simp add: fun_eq_iff elem_off_def m_vlenb_def)

lemma elem_ok_eset: "elem_ok m reg i eew \<Longrightarrow> elem_ok (eset m reg i eew w) reg' j eew' = elem_ok m reg' j eew'"
  by (simp add: elem_ok_def elem_off_cong [of "eset m reg i eew w" m])

lemma eget_eset_same: "elem_ok m reg i eew \<Longrightarrow> eget (eset m reg i eew w) reg i eew = py_mask eew w"
proof -
  assume ok: "elem_ok m reg i eew"
  then have e: "8 * (eew div 8) = eew" by (simp add: elem_ok_def)
  then have "(256 :: int) ^ (eew div 8) = 2 ^ eew" by (metis exp_8_256)
  then show ?thesis using ok
    by (simp add: elem_ok_def eget_off elem_off_cong [of "eset m reg i eew w" m])
       (simp add: eset_off bytes_simps py_mask_mod)
qed

text \<open>Bytes outside the written element are untouched, whatever width they are read at.\<close>

lemma eget_eset_disjoint:
  assumes "elem_ok m reg i eew" "elem_ok m reg' j eew'"
    and "elem_off m reg' j eew' + eew' div 8 \<le> elem_off m reg i eew \<or>
         elem_off m reg i eew + eew div 8 \<le> elem_off m reg' j eew'"
  shows "eget (eset m reg i eew w) reg' j eew' = eget m reg' j eew'"
  using assms
  by (simp add: elem_ok_def eget_off elem_off_cong [of "eset m reg i eew w" m])
     (simp add: eset_off slice_slice_set_disjoint)

lemma elem_off_less: "i < j \<Longrightarrow> elem_off m reg i eew + eew div 8 \<le> elem_off m reg j eew"
proof -
  assume "i < j"
  then have "Suc i * (eew div 8) \<le> j * (eew div 8)" by (intro mult_right_mono) auto
  then show ?thesis by (simp add: elem_off_def)
qed

lemma eget_eset_other:
  assumes "elem_ok m reg i eew" "elem_ok m reg j eew" "i \<noteq> j"
  shows "eget (eset m reg i eew w) reg j eew = eget m reg j eew"
  using assms elem_off_less [of i j m reg eew] elem_off_less [of j i m reg eew]
  by (intro eget_eset_disjoint) (auto simp: neq_iff)

interpretation elems: indexed_store
  "\<lambda>m i. eget m reg i eew" "\<lambda>m i w. eset m reg i eew w" "py_mask eew" "\<lambda>m i. elem_ok m reg i eew"
  for reg eew
  by unfold_locales (simp_all add: eget_eset_same eget_eset_other elem_ok_eset)

text \<open>Mask bits: a pure reading and a pure update, equal to \<open>bget\<close> and \<open>bset\<close> in range.\<close>

definition bit_off :: "vmodel \<Rightarrow> nat \<Rightarrow> nat \<Rightarrow> nat" where
  "bit_off m reg i = reg * m_vlenb m + i div 8"

definition bit_ok :: "vmodel \<Rightarrow> nat \<Rightarrow> nat \<Rightarrow> bool" where
  "bit_ok m reg i \<longleftrightarrow> bit_off m reg i < length (m_v m)"

definition mbit :: "vmodel \<Rightarrow> nat \<Rightarrow> nat \<Rightarrow> bool" where
  "mbit m reg i = bit (m_v m ! bit_off m reg i) (i mod 8)"

definition bput :: "vmodel \<Rightarrow> nat \<Rightarrow> nat \<Rightarrow> bool \<Rightarrow> vmodel" where
  "bput m reg i b =
     m\<lparr>m_v := (m_v m)[bit_off m reg i :=
         (if b then Bit_Operations.set_bit else unset_bit) (i mod 8) (m_v m ! bit_off m reg i)]\<rparr>"

lemma bget_mbit [vec_simps]: "bit_ok m reg i \<Longrightarrow> bget m reg i = Inr (of_bool (mbit m reg i))"
proof -
  assume "bit_ok m reg i"
  moreover have "drop_bit k (uint x) AND 1 = of_bool (bit x k)" for k and x :: byte
    by (simp add: and_one_eq mod_2_eq_odd flip: bit_iff_odd_drop_bit) (auto simp: bit_uint_iff dest: bit_imp_le_length)
  ultimately show ?thesis
    by (simp add: bget_def bit_ok_def bit_off_def mbit_def Let_def)
qed

lemma set_bit_byte:
  fixes x :: byte
  assumes "k < 8"
  shows "py_byte ((uint x AND NOT (push_bit k 1)) OR push_bit k (of_bool b)) =
    Inr ((if b then Bit_Operations.set_bit else unset_bit) k x)"
proof -
  let ?r = "(uint x AND NOT (push_bit k 1)) OR push_bit k (of_bool b)"
  have r: "?r = uint ((if b then Bit_Operations.set_bit else unset_bit) k x)"
    using assms by (intro bit_eqI) (auto simp: bit_simps bit_uint_iff)
  show ?thesis
    unfolding py_byte_def r using uint_byte_bounds by simp
qed

lemma bset_bput [vec_simps]: "bit_ok m reg i \<Longrightarrow> bset m reg i (of_bool b) = Inr (bput m reg i b)"
  using set_bit_byte [of "i mod 8" _ b]
  by (simp add: bset_def bit_ok_def bit_off_def bput_def Let_def)

lemma bput_frame [simp]:
  "m_vlen (bput m reg i b) = m_vlen m" "m_mem (bput m reg i b) = m_mem m"
  "m_vl (bput m reg i b) = m_vl m" "m_sew (bput m reg i b) = m_sew m"
  "m_lmul (bput m reg i b) = m_lmul m" "m_vlenb (bput m reg i b) = m_vlenb m"
  "length (m_v (bput m reg i b)) = length (m_v m)"
  by (simp_all add: bput_def m_vlenb_def)

lemma bit_off_cong: "m_vlen m' = m_vlen m \<Longrightarrow> bit_off m' = bit_off m"
  by (simp add: fun_eq_iff bit_off_def m_vlenb_def)

lemma bit_ok_bput [simp]: "bit_ok (bput m reg i b) reg' j = bit_ok m reg' j"
  by (simp add: bit_ok_def bit_off_cong [of "bput m reg i b" m])

lemma bit_set_or_unset:
  "bit ((if b then Bit_Operations.set_bit else unset_bit) k (x :: byte)) n =
     (if n = k then b \<and> k < 8 else bit x n)"
  by (cases b) (auto simp: bit_simps dest: bit_imp_le_length)

lemma mbit_bput:
  assumes "bit_ok m reg i" "bit_ok m reg j"
  shows "mbit (bput m reg i b) reg j = (if j = i then b else mbit m reg j)"
proof -
  have off: "bit_off (bput m reg i b) reg j = bit_off m reg j"
    by (simp add: bit_off_cong [of "bput m reg i b" m])
  have eq: "bit_off m reg i = bit_off m reg j \<longleftrightarrow> i div 8 = j div 8"
    by (simp add: bit_off_def)
  have "j = i \<longleftrightarrow> i div 8 = j div 8 \<and> j mod 8 = i mod 8" by (metis div_mult_mod_eq)
  then show ?thesis using assms
    unfolding mbit_def off
    by (simp add: bput_def bit_ok_def nth_list_update eq bit_set_or_unset del: if_split)
       (auto simp: bit_off_def)
qed

interpretation bits: indexed_store
  "\<lambda>m i. mbit m reg i" "\<lambda>m i b. bput m reg i b" "\<lambda>b. b" "\<lambda>m i. bit_ok m reg i" for reg
  by unfold_locales (simp_all add: mbit_bput)

text \<open>Memory: cells of \<open>n\<close> bytes at a stride of at least \<open>n\<close> from a base address.\<close>

definition cell_ok :: "nat \<Rightarrow> nat \<Rightarrow> nat \<Rightarrow> vmodel \<Rightarrow> nat \<Rightarrow> bool" where
  "cell_ok base stride n m i \<longleftrightarrow> n \<le> stride \<and> base + i * stride + n \<le> length (m_mem m)"

lemma mset_frame [simp]:
  "m_vlen (mset m a n w) = m_vlen m" "m_v (mset m a n w) = m_v m"
  "m_vl (mset m a n w) = m_vl m" "m_sew (mset m a n w) = m_sew m"
  "m_lmul (mset m a n w) = m_lmul m" "m_vlenb (mset m a n w) = m_vlenb m"
  by (simp_all add: mset_def m_vlenb_def)

lemma length_mset [simp]: "a + n \<le> length (m_mem m) \<Longrightarrow> length (m_mem (mset m a n w)) = length (m_mem m)"
  by (simp add: mset_def bytes_simps)

lemma mget_mset_same: "a + n \<le> length (m_mem m) \<Longrightarrow> mget (mset m a n w) a n = py_mask (8 * n) w"
  by (simp add: mget_def mset_def bytes_simps exp_8_256 py_mask_mod)

lemma mget_mset_disjoint:
  assumes "a + n \<le> length (m_mem m)" "a' + n' \<le> length (m_mem m)" "a' + n' \<le> a \<or> a + n \<le> a'"
  shows "mget (mset m a n w) a' n' = mget m a' n'"
  using assms by (simp add: mget_def mset_def slice_slice_set_disjoint)

lemma nth_mset_outside:
  assumes "a + n \<le> length (m_mem m)" "k < length (m_mem m)" "k < a \<or> a + n \<le> k"
  shows "m_mem (mset m a n w) ! k = m_mem m ! k"
  using assms by (auto simp: mset_def nth_slice_set)

lemma cell_less: "(i :: nat) < j \<Longrightarrow> n \<le> stride \<Longrightarrow> base + i * stride + n \<le> base + j * stride"
proof -
  assume "i < j" "n \<le> stride"
  then have "Suc i * stride \<le> j * stride" by (intro mult_right_mono) auto
  with \<open>n \<le> stride\<close> show ?thesis by simp
qed

interpretation cells: indexed_store
  "\<lambda>m i. mget m (base + i * stride) n" "\<lambda>m i w. mset m (base + i * stride) n w" "py_mask (8 * n)"
  "cell_ok base stride n" for base stride n
proof unfold_locales
  fix m i j w
  assume "cell_ok base stride n m i" "cell_ok base stride n m j" "i \<noteq> j"
  then show "mget (mset m (base + i * stride) n w) (base + j * stride) n = mget m (base + j * stride) n"
    using cell_less [of i j n stride base] cell_less [of j i n stride base]
    by (intro mget_mset_disjoint) (auto simp: cell_ok_def neq_iff)
qed (simp_all add: cell_ok_def mget_mset_same)

subsection \<open>Sizes\<close>

text \<open>The number of registers in a group, \<open>max(1, int(emul))\<close>.\<close>

definition group_size :: "rat \<Rightarrow> nat" where
  "group_size emul = max 1 (nat \<lfloor>emul\<rfloor>)"

lemma wf_vtype_cases:
  assumes "wf_vtype sew lmul"
  shows "sew = 8 \<and> lmul = 1/4 \<or> sew = 8 \<and> lmul = 1/2 \<or> sew = 8 \<and> lmul = 1 \<or>
    sew = 8 \<and> lmul = 2 \<or> sew = 8 \<and> lmul = 4 \<or> sew = 8 \<and> lmul = 8 \<or>
    sew = 16 \<and> lmul = 1/2 \<or> sew = 16 \<and> lmul = 1 \<or> sew = 16 \<and> lmul = 2 \<or>
    sew = 16 \<and> lmul = 4 \<or> sew = 16 \<and> lmul = 8 \<or> sew = 32 \<and> lmul = 1 \<or>
    sew = 32 \<and> lmul = 2 \<or> sew = 32 \<and> lmul = 4 \<or> sew = 32 \<and> lmul = 8"
proof -
  have "lmul = 1/8 \<or> lmul = 1/4 \<or> lmul = 1/2 \<or> lmul = 1 \<or> lmul = 2 \<or> lmul = 4 \<or> lmul = 8"
    using assms by (simp add: wf_vtype_def lmuls_def del: eq_divide_eq_numeral1)
  moreover have "sew = 8 \<or> sew = 16 \<or> sew = 32" using assms by (simp add: wf_vtype_def sews_def)
  moreover have "lmul < 1 \<Longrightarrow> of_nat sew / lmul \<le> 32" using assms by (auto simp: wf_vtype_def)
  ultimately show ?thesis by (elim disjE) simp_all
qed

lemma vlen_cases: "m_vlen m \<in> set vlens \<Longrightarrow> m_vlen m = 64 \<or> m_vlen m = 128 \<or> m_vlen m = 256"
  by (auto simp: vlens_def)

lemma vlmax_le_vlen: "m_vlen m \<in> set vlens \<Longrightarrow> wf_vtype sew lmul \<Longrightarrow> vlmax m sew lmul \<le> m_vlen m"
  by (drule vlen_cases, drule wf_vtype_cases) (elim disjE conjE; hypsubst; simp add: vlmax_def)

lemma vlmax_pos: "m_vlen m \<in> set vlens \<Longrightarrow> wf_vtype sew lmul \<Longrightarrow> 0 < vlmax m sew lmul"
  by (drule vlen_cases, drule wf_vtype_cases) (elim disjE conjE; hypsubst; simp add: vlmax_def)

text \<open>
  A group of the size \<open>emul_ok\<close> computes holds \<open>VLMAX\<close> elements of width \<open>eew\<close>; at
  \<open>eew = sew\<close> the group size is that of \<open>LMUL\<close>.
\<close>

lemma vlmax_fits_eew:
  assumes "m_vlen m \<in> set vlens" "wf_vtype sew lmul" "eew \<in> set sews"
    and "fst (emul_ok eew sew lmul)"
  shows "vlmax m sew lmul * (eew div 8) \<le> group_size (snd (emul_ok eew sew lmul)) * m_vlenb m"
proof -
  have "eew = 8 \<or> eew = 16 \<or> eew = 32" using assms(3) by (auto simp: sews_def)
  then show ?thesis
    using vlen_cases [OF assms(1)] wf_vtype_cases [OF assms(2)] assms(4)
    by (elim disjE conjE; hypsubst; simp add: vlmax_def emul_ok_def Let_def group_size_def m_vlenb_def)
qed

lemma emul_self: "wf_vtype sew lmul \<Longrightarrow> emul_ok sew sew lmul = (True, lmul)"
  by (drule wf_vtype_cases) (elim disjE conjE; hypsubst; simp add: emul_ok_def)

lemma vlmax_fits: 
  assumes "m_vlen m \<in> set vlens" "wf_vtype sew lmul"
  shows "vlmax m sew lmul * (sew div 8) \<le> group_size lmul * m_vlenb m"
proof -
  have "sew \<in> set sews" using assms(2) by (simp add: wf_vtype_def)
  with assms vlmax_fits_eew [of m sew lmul sew] show ?thesis by (simp add: emul_self)
qed

lemma elem_ok_group:
  assumes "wf_model m" "reg + n \<le> 32" "k * (eew div 8) \<le> n * m_vlenb m" "i < k" "eew \<in> set sews"
  shows "elem_ok m reg i eew"
proof -
  have "Suc i * (eew div 8) \<le> k * (eew div 8)" using assms(4) by (intro mult_right_mono) auto
  moreover have "(reg + n) * m_vlenb m \<le> 32 * m_vlenb m" using assms(2) by (intro mult_right_mono) auto
  moreover have "8 dvd eew" "0 < eew" using assms(5) by (auto simp: sews_def)
  ultimately show ?thesis
    using assms(1,3) by (simp add: elem_ok_def elem_off_def wf_model_def algebra_simps)
qed

lemma elem_ok_lmul:
  assumes "wf_model m" "reg + group_size (m_lmul m) \<le> 32" "i < vlmax m (m_sew m) (m_lmul m)"
  shows "elem_ok m reg i (m_sew m)"
  using assms vlmax_fits [of m "m_sew m" "m_lmul m"]
  by (intro elem_ok_group [where n = "group_size (m_lmul m)"]) (auto simp: wf_model_def wf_vtype_def)

lemma bit_ok_reg: "wf_model m \<Longrightarrow> reg < 32 \<Longrightarrow> i < m_vlen m \<Longrightarrow> bit_ok m reg i"
proof -
  assume m: "wf_model m" "reg < 32" "i < m_vlen m"
  then have "i div 8 < m_vlenb m"
    by (auto simp: wf_model_def m_vlenb_def dest!: vlen_cases)
  moreover have "reg * m_vlenb m \<le> 31 * m_vlenb m"
    using m(2) by (intro mult_right_mono) auto
  ultimately have "reg * m_vlenb m + i div 8 < 32 * m_vlenb m" by linarith
  then show ?thesis using m(1) by (simp add: bit_ok_def bit_off_def wf_model_def)
qed

lemma bit_ok_vl: "wf_model m \<Longrightarrow> reg < 32 \<Longrightarrow> i < m_vl m \<Longrightarrow> bit_ok m reg i"
  using vlmax_le_vlen [of m "m_sew m" "m_lmul m"]
  by (intro bit_ok_reg) (auto simp: wf_model_def)

text \<open>\<open>active\<close> never raises below \<open>vl\<close>.\<close>

definition is_active :: "vmodel \<Rightarrow> bool \<Rightarrow> nat \<Rightarrow> bool" where
  "is_active m vm i \<longleftrightarrow> vm \<or> mbit m 0 i"

lemma active_ok [vec_simps]: "wf_model m \<Longrightarrow> i < m_vl m \<Longrightarrow> active m i vm = Inr (is_active m vm i)"
  by (simp add: active_def is_active_def bget_mbit bit_ok_vl)

lemma vlmax_cong: "m_vlen m' = m_vlen m \<Longrightarrow> vlmax m' = vlmax m"
  by (simp add: fun_eq_iff vlmax_def)

lemma wf_model_update:
  assumes "wf_model m" "m_vlen m' = m_vlen m" "length (m_v m') = length (m_v m)"
    "length (m_mem m') = length (m_mem m)" "m_sew m' = m_sew m" "m_lmul m' = m_lmul m" "m_vl m' = m_vl m"
  shows "wf_model m'"
  using assms by (simp add: wf_model_def m_vlenb_def vlmax_cong [of m' m])

lemma wf_model_eset [simp]: "wf_model m \<Longrightarrow> elem_ok m reg i eew \<Longrightarrow> wf_model (eset m reg i eew w)"
  by (rule wf_model_update [of m]) simp_all

lemma wf_model_bput [simp]: "wf_model m \<Longrightarrow> wf_model (bput m reg i b)"
  by (rule wf_model_update [of m]) simp_all

lemma wf_model_mset [simp]: "wf_model m \<Longrightarrow> a + n \<le> END \<Longrightarrow> wf_model (mset m a n w)"
  by (rule wf_model_update [of m]) (simp_all add: wf_model_def)

lemma wf_model_put_all:
  "wf_model m \<Longrightarrow> \<forall>i \<in> fst ` set kvs. elem_ok m reg i eew \<Longrightarrow> wf_model (elems.put_all reg eew m kvs)"
  by (induction kvs arbitrary: m) (auto simp: elem_ok_eset)

lemma put_all_frame:
  "m_vlen (elems.put_all reg eew m kvs) = m_vlen m" "m_mem (elems.put_all reg eew m kvs) = m_mem m"
  "m_vl (elems.put_all reg eew m kvs) = m_vl m" "m_sew (elems.put_all reg eew m kvs) = m_sew m"
  "m_lmul (elems.put_all reg eew m kvs) = m_lmul m"
  by (induction kvs arbitrary: m; auto)+

end
