(* ===== verification/Vec_Ops.thy ===== *)
theory Vec_Ops
  imports Vec_Model
begin

text \<open>
  The semantics of the vector instructions as \<^verbatim>\<open>tools/vtest/vgen.py\<close> computes it: the
  "model" half of each method of \<open>Gen\<close>. An instruction first computes the new value of every
  active element below \<open>vl\<close> from the old state (the dictionaries \<open>new\<close>, \<open>bits\<close>, \<open>res\<close>) and
  then writes them. The theorems compare the integer arithmetic with fixed-width word
  operations, and show which elements an instruction changes.
\<close>

unbundle bit_operations_syntax

subsection \<open>Integer and multiply arithmetic\<close>

datatype aop =
    Vadd | Vsub | Vrsub | Vand | Vor | Vxor | Vsll | Vsrl | Vsra
  | Vminu | Vmin | Vmaxu | Vmax | Vmul | Vmulh | Vmulhu | Vmulhsu
  | Vmacc | Vnmsac | Vmadd | Vnmsub | Vmerge | Vmv

datatype form = VV | VX | VI

definition is_shift :: "aop \<Rightarrow> bool" where
  "is_shift op \<longleftrightarrow> op \<in> {Vsll, Vsrl, Vsra}"

definition arith_res :: "aop \<Rightarrow> nat \<Rightarrow> int \<Rightarrow> int \<Rightarrow> int \<Rightarrow> bool \<Rightarrow> int" where
  "arith_res op sew a2 a1 ad b0 =
     (let s2 = sx a2 sew; s1 = sx a1 sew; sh = nat (a1 AND (int sew - 1)) in
      case op of
        Vadd \<Rightarrow> a2 + a1 | Vsub \<Rightarrow> a2 - a1 | Vrsub \<Rightarrow> a1 - a2
      | Vand \<Rightarrow> a2 AND a1 | Vor \<Rightarrow> a2 OR a1 | Vxor \<Rightarrow> a2 XOR a1
      | Vsll \<Rightarrow> push_bit sh a2 | Vsrl \<Rightarrow> drop_bit sh a2 | Vsra \<Rightarrow> drop_bit sh s2
      | Vminu \<Rightarrow> min a2 a1 | Vmaxu \<Rightarrow> max a2 a1
      | Vmin \<Rightarrow> min s2 s1 | Vmax \<Rightarrow> max s2 s1
      | Vmul \<Rightarrow> s2 * s1 | Vmulh \<Rightarrow> drop_bit sew (s2 * s1)
      | Vmulhu \<Rightarrow> drop_bit sew (a2 * a1) | Vmulhsu \<Rightarrow> drop_bit sew (s2 * a1)
      | Vmacc \<Rightarrow> a1 * a2 + ad | Vnmsac \<Rightarrow> ad - a1 * a2
      | Vmadd \<Rightarrow> a1 * ad + a2 | Vnmsub \<Rightarrow> a2 - a1 * ad
      | Vmerge \<Rightarrow> (if b0 then a1 else a2) | Vmv \<Rightarrow> a1)"

text \<open>The second operand of element \<open>i\<close>: a vector element, a scalar or an immediate.\<close>

definition operand1 :: "vmodel \<Rightarrow> form \<Rightarrow> nat \<Rightarrow> int \<Rightarrow> int \<Rightarrow> nat \<Rightarrow> int" where
  "operand1 m form vs1 x imm i =
     (case form of VV \<Rightarrow> eget m vs1 i (m_sew m) | VX \<Rightarrow> py_mask (m_sew m) x | VI \<Rightarrow> py_mask (m_sew m) imm)"

definition arith_elem ::
  "vmodel \<Rightarrow> aop \<Rightarrow> bool \<Rightarrow> form \<Rightarrow> nat \<Rightarrow> nat \<Rightarrow> nat \<Rightarrow> int \<Rightarrow> int \<Rightarrow> nat \<Rightarrow> (nat \<times> int) option res" where
  "arith_elem m op vm form vd vs2 vs1 x imm i =
     rbind (if op = Vmerge then Inr True else active m i vm) (\<lambda>act.
       if \<not> act then Inr None
       else rbind (if op = Vmerge then bget m 0 i else Inr 0) (\<lambda>b0.
         let sew = m_sew m; a2 = eget m vs2 i sew; a1 = operand1 m form vs1 x imm i;
             ad = eget m vd i sew
         in Inr (Some (i, arith_res op sew a2 a1 ad (b0 \<noteq> 0)))))"

definition write_elems :: "vmodel \<Rightarrow> nat \<Rightarrow> nat \<Rightarrow> (nat \<times> int) list \<Rightarrow> vmodel" where
  "write_elems m vd eew new = foldl (\<lambda>m (i, w). eset m vd i eew w) m new"

definition arith_model ::
  "vmodel \<Rightarrow> aop \<Rightarrow> bool \<Rightarrow> form \<Rightarrow> nat \<Rightarrow> nat \<Rightarrow> nat \<Rightarrow> int \<Rightarrow> int \<Rightarrow> vmodel res" where
  "arith_model m op vm form vd vs2 vs1 x imm =
     rbind (rcollect (arith_elem m op vm form vd vs2 vs1 x imm) [0..<m_vl m]) (\<lambda>new.
       Inr (write_elems m vd (m_sew m) new))"

subsection \<open>Comparisons into a mask\<close>

datatype cop = Vmseq | Vmsne | Vmsltu | Vmslt | Vmsleu | Vmsle | Vmsgtu | Vmsgt

definition compare_res :: "cop \<Rightarrow> nat \<Rightarrow> int \<Rightarrow> int \<Rightarrow> bool" where
  "compare_res op sew a2 a1 =
     (let s2 = sx a2 sew; s1 = sx a1 sew in
      case op of
        Vmseq \<Rightarrow> a2 = a1 | Vmsne \<Rightarrow> a2 \<noteq> a1 | Vmsltu \<Rightarrow> a2 < a1 | Vmslt \<Rightarrow> s2 < s1
      | Vmsleu \<Rightarrow> a2 \<le> a1 | Vmsle \<Rightarrow> s2 \<le> s1 | Vmsgtu \<Rightarrow> a2 > a1 | Vmsgt \<Rightarrow> s2 > s1)"

definition compare_elem ::
  "vmodel \<Rightarrow> cop \<Rightarrow> bool \<Rightarrow> form \<Rightarrow> nat \<Rightarrow> nat \<Rightarrow> int \<Rightarrow> int \<Rightarrow> nat \<Rightarrow> (nat \<times> int) option res" where
  "compare_elem m op vm form vs2 vs1 x simm i =
     rbind (active m i vm) (\<lambda>act.
       if \<not> act then Inr None
       else Inr (Some (i, of_bool (compare_res op (m_sew m) (eget m vs2 i (m_sew m))
                                     (operand1 m form vs1 x simm i)))))"

definition write_bits :: "vmodel \<Rightarrow> nat \<Rightarrow> (nat \<times> int) list \<Rightarrow> vmodel res" where
  "write_bits m vd bs = rfold (\<lambda>m (i, b). bset m vd i b) m bs"

definition compare_model ::
  "vmodel \<Rightarrow> cop \<Rightarrow> bool \<Rightarrow> form \<Rightarrow> nat \<Rightarrow> nat \<Rightarrow> nat \<Rightarrow> int \<Rightarrow> int \<Rightarrow> vmodel res" where
  "compare_model m op vm form vd vs2 vs1 x simm =
     rbind (rcollect (compare_elem m op vm form vs2 vs1 x simm) [0..<m_vl m]) (write_bits m vd)"

subsection \<open>Reductions\<close>

datatype rop = Vredsum | Vredand | Vredor | Vredxor | Vredminu | Vredmin | Vredmaxu | Vredmax

definition reduce_res :: "rop \<Rightarrow> nat \<Rightarrow> int \<Rightarrow> int \<Rightarrow> int" where
  "reduce_res op sew acc e =
     py_mask sew (case op of
        Vredsum \<Rightarrow> acc + e | Vredand \<Rightarrow> acc AND e | Vredor \<Rightarrow> acc OR e | Vredxor \<Rightarrow> acc XOR e
      | Vredminu \<Rightarrow> min acc e | Vredmaxu \<Rightarrow> max acc e
      | Vredmin \<Rightarrow> (if sx acc sew \<le> sx e sew then acc else e)
      | Vredmax \<Rightarrow> (if sx acc sew \<ge> sx e sew then acc else e))"

definition reduce_step :: "vmodel \<Rightarrow> rop \<Rightarrow> bool \<Rightarrow> nat \<Rightarrow> int \<Rightarrow> nat \<Rightarrow> int res" where
  "reduce_step m op vm vs2 acc i =
     rbind (active m i vm) (\<lambda>act.
       Inr (if act then reduce_res op (m_sew m) acc (eget m vs2 i (m_sew m)) else acc))"

definition reduce_model :: "vmodel \<Rightarrow> rop \<Rightarrow> bool \<Rightarrow> nat \<Rightarrow> nat \<Rightarrow> nat \<Rightarrow> vmodel res" where
  "reduce_model m op vm vd vs2 vs1 =
     (if m_vl m = 0 then Inr m
      else rbind (rfold (reduce_step m op vm vs2) (eget m vs1 0 (m_sew m)) [0..<m_vl m]) (\<lambda>acc.
             Inr (eset m vd 0 (m_sew m) acc)))"

subsection \<open>Mask logic\<close>

datatype lop = Vmand | Vmnand | Vmandn | Vmxor | Vmor | Vmnor | Vmorn | Vmxnor

definition masklogic_res :: "lop \<Rightarrow> int \<Rightarrow> int \<Rightarrow> int" where
  "masklogic_res op a b =
     (case op of
        Vmand \<Rightarrow> a AND b | Vmnand \<Rightarrow> 1 - (a AND b) | Vmandn \<Rightarrow> a AND (1 - b) | Vmxor \<Rightarrow> a XOR b
      | Vmor \<Rightarrow> a OR b | Vmnor \<Rightarrow> 1 - (a OR b) | Vmorn \<Rightarrow> a OR (1 - b) | Vmxnor \<Rightarrow> 1 - (a XOR b))"

definition masklogic_model :: "vmodel \<Rightarrow> lop \<Rightarrow> nat \<Rightarrow> nat \<Rightarrow> nat \<Rightarrow> vmodel res" where
  "masklogic_model m op vd vs2 vs1 =
     rbind (rcollect (\<lambda>i. rbind (bget m vs2 i) (\<lambda>a. rbind (bget m vs1 i) (\<lambda>b.
              Inr (Some (i, masklogic_res op a b))))) [0..<m_vl m]) (write_bits m vd)"

subsection \<open>Scalar results, scalar moves, \<open>vid\<close>\<close>

text \<open>The list \<open>act\<close> of \<open>vcpop.m\<close> and \<open>vfirst.m\<close>, and their results.\<close>

definition act_list :: "vmodel \<Rightarrow> bool \<Rightarrow> nat \<Rightarrow> nat list res" where
  "act_list m vm vs2 =
     rcollect (\<lambda>i. rbind (active m i vm) (\<lambda>act.
        if \<not> act then Inr None
        else rbind (bget m vs2 i) (\<lambda>b. Inr (if b \<noteq> 0 then Some i else None)))) [0..<m_vl m]"

definition cpop_res :: "nat list \<Rightarrow> int" where
  "cpop_res act = int (length act)"

definition first_res :: "nat list \<Rightarrow> int" where
  "first_res act = (case act of [] \<Rightarrow> 0xFFFFFFFF | i # _ \<Rightarrow> int i)"

definition mvxs_res :: "vmodel \<Rightarrow> nat \<Rightarrow> int" where
  "mvxs_res m vs2 = sx (eget m vs2 0 (m_sew m)) (m_sew m) AND 0xFFFFFFFF"

definition mvsx_model :: "vmodel \<Rightarrow> nat \<Rightarrow> int \<Rightarrow> vmodel" where
  "mvsx_model m vd x = (if m_vl m > 0 then eset m vd 0 (m_sew m) x else m)"

definition vid_model :: "vmodel \<Rightarrow> bool \<Rightarrow> nat \<Rightarrow> vmodel res" where
  "vid_model m vm vd =
     rfold (\<lambda>m i. rbind (active m i vm) (\<lambda>act.
        Inr (if act then eset m vd i (m_sew m) (int i) else m))) m [0..<m_vl m]"

subsection \<open>Slides and register moves\<close>

datatype slide_kind = SlideUp | SlideDown | Slide1Up | Slide1Down

text \<open>The dictionary \<open>old\<close> has the keys \<open>0 .. vlmax - 1\<close>.\<close>

definition slide_old :: "vmodel \<Rightarrow> nat \<Rightarrow> nat \<Rightarrow> int res" where
  "slide_old m vs2 k =
     (if k < vlmax m (m_sew m) (m_lmul m) then Inr (eget m vs2 k (m_sew m)) else Inl KeyError)"

definition slide_elem ::
  "vmodel \<Rightarrow> slide_kind \<Rightarrow> bool \<Rightarrow> nat \<Rightarrow> nat \<Rightarrow> int \<Rightarrow> nat \<Rightarrow> (nat \<times> int) option res" where
  "slide_elem m k vm vs2 off x i =
     rbind (active m i vm) (\<lambda>act.
       if \<not> act then Inr None
       else rbind
         (case k of
            SlideUp \<Rightarrow> slide_old m vs2 (i - off)
          | SlideDown \<Rightarrow> (if i + off < vlmax m (m_sew m) (m_lmul m) then slide_old m vs2 (i + off) else Inr 0)
          | Slide1Up \<Rightarrow> (if i = 0 then Inr x else slide_old m vs2 (i - 1))
          | Slide1Down \<Rightarrow> (if i = m_vl m - 1 then Inr x else slide_old m vs2 (i + 1)))
         (\<lambda>w. Inr (Some (i, w))))"

definition slide_model ::
  "vmodel \<Rightarrow> slide_kind \<Rightarrow> bool \<Rightarrow> nat \<Rightarrow> nat \<Rightarrow> nat \<Rightarrow> int \<Rightarrow> vmodel res" where
  "slide_model m k vm vd vs2 off x =
     rbind (rcollect (slide_elem m k vm vs2 off x) [(if k = SlideUp then off else 0)..<m_vl m]) (\<lambda>new.
       Inr (write_elems m vd (m_sew m) new))"

definition movnr_model :: "vmodel \<Rightarrow> nat \<Rightarrow> nat \<Rightarrow> nat \<Rightarrow> vmodel" where
  "movnr_model m n vd vs2 =
     (let b = m_vlenb m; src = py_slice (vs2 * b) (n * b) (m_v m)
      in m\<lparr>m_v := slice_set (vd * b) (n * b) src (m_v m)\<rparr>)"

subsection \<open>Memory instructions\<close>

text \<open>Unit-stride and strided accesses (also fault-only-first loads).\<close>

definition strided_step ::
  "bool \<Rightarrow> bool \<Rightarrow> nat \<Rightarrow> nat \<Rightarrow> nat \<Rightarrow> nat \<Rightarrow> vmodel \<Rightarrow> nat \<Rightarrow> vmodel res" where
  "strided_step store vm eew vd base stride m i =
     rbind (active m i vm) (\<lambda>act.
       let a = base + i * stride in
       Inr (if \<not> act then m
            else if store then mset m a (eew div 8) (eget m vd i eew)
            else eset m vd i eew (mget m a (eew div 8))))"

definition strided_model ::
  "vmodel \<Rightarrow> bool \<Rightarrow> bool \<Rightarrow> nat \<Rightarrow> nat \<Rightarrow> nat \<Rightarrow> nat \<Rightarrow> vmodel res" where
  "strided_model m store vm eew vd base stride =
     rfold (strided_step store vm eew vd base stride) m [0..<m_vl m]"

text \<open>Indexed accesses: the index registers are filled from the table first.\<close>

definition load_index :: "vmodel \<Rightarrow> nat \<Rightarrow> nat \<Rightarrow> nat \<Rightarrow> vmodel" where
  "load_index m vix nregs tab =
     (let nb = nregs * m_vlenb m
      in m\<lparr>m_v := slice_set (vix * m_vlenb m) nb (py_slice tab nb (m_mem m)) (m_v m)\<rparr>)"

definition indexed_step ::
  "bool \<Rightarrow> bool \<Rightarrow> nat \<Rightarrow> nat \<Rightarrow> nat \<Rightarrow> nat \<Rightarrow> vmodel \<Rightarrow> nat \<Rightarrow> vmodel res" where
  "indexed_step store vm ieew vd vix base m i =
     rbind (active m i vm) (\<lambda>act.
       let a = base + nat (eget m vix i ieew) in
       Inr (if \<not> act then m
            else if store then mset m a (m_sew m div 8) (eget m vd i (m_sew m))
            else eset m vd i (m_sew m) (mget m a (m_sew m div 8))))"

definition indexed_model ::
  "vmodel \<Rightarrow> bool \<Rightarrow> bool \<Rightarrow> nat \<Rightarrow> nat \<Rightarrow> nat \<Rightarrow> nat \<Rightarrow> vmodel res" where
  "indexed_model m store vm ieew vd vix base =
     rfold (indexed_step store vm ieew vd vix base) m [0..<m_vl m]"

text \<open>Mask loads and stores move \<open>ceil(vl / 8)\<close> bytes.\<close>

definition maskmem_step :: "bool \<Rightarrow> nat \<Rightarrow> nat \<Rightarrow> vmodel \<Rightarrow> nat \<Rightarrow> vmodel res" where
  "maskmem_step store vd base m i =
     (if store
      then rbind (py_get (m_v m) (vd * m_vlenb m + i)) (\<lambda>x. Inr (mset m (base + i) 1 (uint x)))
      else rbind (py_get (m_mem m) (base + i)) (\<lambda>x.
             rbind (py_set (m_v m) (vd * m_vlenb m + i) x) (\<lambda>v'. Inr (m\<lparr>m_v := v'\<rparr>))))"

definition maskmem_model :: "vmodel \<Rightarrow> bool \<Rightarrow> nat \<Rightarrow> nat \<Rightarrow> vmodel res" where
  "maskmem_model m store vd base =
     rfold (maskmem_step store vd base) m [0..<(m_vl m + 7) div 8]"

definition whole_model :: "vmodel \<Rightarrow> bool \<Rightarrow> nat \<Rightarrow> nat \<Rightarrow> nat \<Rightarrow> vmodel" where
  "whole_model m store n vd base =
     (let b = m_vlenb m in
      if store then m\<lparr>m_mem := slice_set base (n * b) (py_slice (vd * b) (n * b) (m_v m)) (m_mem m)\<rparr>
      else m\<lparr>m_v := slice_set (vd * b) (n * b) (py_slice base (n * b) (m_mem m)) (m_v m)\<rparr>)"

subsection \<open>Integer arithmetic is word arithmetic\<close>

text \<open>
  What each operation means on \<open>SEW\<close>-bit words: \<open>vs2\<close>, \<open>vs1\<close> (or scalar, or immediate) and
  the old \<open>vd\<close> element. Shifts use the low bits of the amount, the high multiplies the upper
  half of the double-width product.
\<close>

definition aop_word :: "aop \<Rightarrow> 'w::len word \<Rightarrow> 'w word \<Rightarrow> 'w word \<Rightarrow> bool \<Rightarrow> 'w word" where
  "aop_word op a2 a1 ad b0 =
     (let sh = unat a1 mod LENGTH('w) in
      case op of
        Vadd \<Rightarrow> a2 + a1 | Vsub \<Rightarrow> a2 - a1 | Vrsub \<Rightarrow> a1 - a2
      | Vand \<Rightarrow> a2 AND a1 | Vor \<Rightarrow> a2 OR a1 | Vxor \<Rightarrow> a2 XOR a1
      | Vsll \<Rightarrow> push_bit sh a2 | Vsrl \<Rightarrow> drop_bit sh a2 | Vsra \<Rightarrow> signed_drop_bit sh a2
      | Vminu \<Rightarrow> min a2 a1 | Vmaxu \<Rightarrow> max a2 a1
      | Vmin \<Rightarrow> (if a2 \<le>s a1 then a2 else a1) | Vmax \<Rightarrow> (if a2 \<le>s a1 then a1 else a2)
      | Vmul \<Rightarrow> a2 * a1
      | Vmulh \<Rightarrow> word_of_int (sint a2 * sint a1 div 2 ^ LENGTH('w))
      | Vmulhu \<Rightarrow> word_of_int (uint a2 * uint a1 div 2 ^ LENGTH('w))
      | Vmulhsu \<Rightarrow> word_of_int (sint a2 * uint a1 div 2 ^ LENGTH('w))
      | Vmacc \<Rightarrow> a1 * a2 + ad | Vnmsac \<Rightarrow> ad - a1 * a2
      | Vmadd \<Rightarrow> a1 * ad + a2 | Vnmsub \<Rightarrow> a2 - a1 * ad
      | Vmerge \<Rightarrow> (if b0 then a1 else a2) | Vmv \<Rightarrow> a1)"

lemma sx_uint: "sx (uint a) LENGTH('w) = sint (a :: 'w::len word)"
  by (simp add: sx_signed_take_bit sint_uint)

lemma shift_amount:
  assumes "LENGTH('w) = 2 ^ k"
  shows "nat (uint (a1 :: 'w::len word) AND (int LENGTH('w) - 1)) = unat a1 mod LENGTH('w)"
proof -
  have "int LENGTH('w) - 1 = mask k" using assms by (simp add: mask_eq_exp_minus_1)
  then have "uint a1 AND (int LENGTH('w) - 1) = uint a1 mod int LENGTH('w)"
    using assms by (simp add: take_bit_eq_mod flip: take_bit_eq_mask)
  then show ?thesis by (simp add: nat_mod_distrib)
qed

lemma word_of_int_minmax:
  fixes a b :: "'w::len word"
  shows "word_of_int (min (uint a) (uint b)) = min a b" "word_of_int (max (uint a) (uint b)) = max a b"
    "word_of_int (min (sint a) (sint b)) = (if a \<le>s b then a else b)"
    "word_of_int (max (sint a) (sint b)) = (if a \<le>s b then b else a)"
  by (simp_all add: min_def max_def word_le_def word_sle_eq)

lemma word_of_int_bits:
  fixes a b :: "'w::len word"
  shows "word_of_int (uint a AND uint b) = a AND b" "word_of_int (uint a OR uint b) = a OR b"
    "word_of_int (uint a XOR uint b) = a XOR b" "word_of_int (push_bit n (uint a)) = push_bit n a"
    "word_of_int (drop_bit n (uint a)) = drop_bit n a"
    "word_of_int (drop_bit n (sint a)) = signed_drop_bit n a"
proof -
  show "word_of_int (drop_bit n (sint a)) = signed_drop_bit n a"
    by transfer (simp add: take_bit_drop_bit signed_take_bit_take_bit)
qed (transfer; simp add: take_bit_push_bit)+

lemma arith_res_word:
  assumes "LENGTH('w::len) = 2 ^ k"
  shows "(word_of_int (arith_res op LENGTH('w) (uint a2) (uint a1) (uint ad) b0) :: 'w word) =
    aop_word op a2 a1 ad b0"
  by (cases op)
     (simp_all add: arith_res_def aop_word_def Let_def sx_uint shift_amount [OF assms]
       word_of_int_minmax word_of_int_bits drop_bit_eq_div [of "LENGTH('w)" "_ :: int"])

subsection \<open>Which elements an instruction changes\<close>

lemma write_elems_put_all: "write_elems m vd eew new = elems.put_all vd eew m new"
  by (simp add: write_elems_def elems.put_all_def)

lemma nth_eset_outside:
  assumes "elem_ok m reg i eew" "k < length (m_v m)"
    and "k < elem_off m reg i eew \<or> elem_off m reg i eew + eew div 8 \<le> k"
  shows "m_v (eset m reg i eew w) ! k = m_v m ! k"
  using assms by (auto simp: elem_ok_def eset_off nth_slice_set)

text \<open>Writes to elements below \<open>n\<close> stay inside the first \<open>n\<close> elements of the group.\<close>

lemma write_elems_outside:
  assumes "\<forall>i \<in> fst ` set new. i < n \<and> elem_ok m vd i eew" "k < length (m_v m)"
    and "k < vd * m_vlenb m \<or> vd * m_vlenb m + n * (eew div 8) \<le> k"
  shows "m_v (write_elems m vd eew new) ! k = m_v m ! k"
  using assms
proof (induction new arbitrary: m)
  case Nil
  then show ?case by (simp add: write_elems_def)
next
  case (Cons iw new)
  obtain i w where iw: "iw = (i, w)" by (cases iw)
  let ?m = "eset m vd i eew w"
  have i: "i < n" "elem_ok m vd i eew" using Cons.prems iw by auto
  then have "elem_off m vd i eew + eew div 8 \<le> vd * m_vlenb m + n * (eew div 8)"
    using elem_off_less [of i n m vd eew] by (simp add: elem_off_def)
  moreover have "vd * m_vlenb m \<le> elem_off m vd i eew" by (simp add: elem_off_def)
  ultimately have "m_v ?m ! k = m_v m ! k"
    using i Cons.prems by (intro nth_eset_outside) auto
  moreover have "m_v (write_elems ?m vd eew new) ! k = m_v ?m ! k"
    using Cons.prems i iw by (intro Cons.IH) (auto simp: elem_ok_eset)
  ultimately show ?case by (simp add: iw write_elems_def)
qed

text \<open>
  The loop shape all element-wise instructions share: a value \<open>g i\<close> for each index of a
  range that satisfies \<open>P\<close>. The result holds these values, and every other element of the
  group and every byte outside it is as before.
\<close>

lemma map_filter_upt:
  "List.map_filter (\<lambda>i. if P i then Some (i, g i) else None) [lo..<hi] =
     map (\<lambda>i. (i, g i)) (filter P [lo..<hi])"
  by (simp add: map_filter_def o_def cong: filter_cong)

lemma map_filter_if: "List.map_filter (\<lambda>i. if P i then Some i else None) xs = filter P xs"
  by (induction xs) (simp_all add: map_filter_simps)

lemma map_of_upt:
  "map_of (map (\<lambda>i. (i, g i)) (filter P [lo..<hi])) j = (if lo \<le> j \<and> j < hi \<and> P j then Some (g j) else None)"
proof (cases "lo \<le> j \<and> j < hi \<and> P j")
  case True
  then have "(j, g j) \<in> set (map (\<lambda>i. (i, g i)) (filter P [lo..<hi]))" by auto
  then show ?thesis using True by (subst map_of_is_SomeI) (auto simp: o_def)
next
  case False
  then show ?thesis by (auto simp: map_of_eq_None_iff)
qed

lemma write_elems_range:
  fixes lo :: nat and P :: "nat \<Rightarrow> bool" and g :: "nat \<Rightarrow> int"
  assumes m: "wf_model m" and ok: "\<forall>i < hi. elem_ok m vd i eew" and j: "elem_ok m vd j eew"
  defines "m' \<equiv> write_elems m vd eew (map (\<lambda>i. (i, g i)) (filter P [lo..<hi]))"
  shows "wf_model m'"
    and "eget m' vd j eew =
      (if lo \<le> j \<and> j < hi \<and> P j then py_mask eew (g j) else eget m vd j eew)"
proof -
  let ?kvs = "map (\<lambda>i. (i, g i)) (filter P [lo..<hi])"
  have oks: "\<forall>i \<in> fst ` set ?kvs. elem_ok m vd i eew" using ok by auto
  show "wf_model m'"
    unfolding m'_def write_elems_put_all by (rule wf_model_put_all [OF m oks])
  have "distinct (map fst ?kvs)" by (simp add: o_def)
  from elems.get_put_all [OF this oks j]
  show "eget m' vd j eew =
      (if lo \<le> j \<and> j < hi \<and> P j then py_mask eew (g j) else eget m vd j eew)"
    unfolding m'_def write_elems_put_all by (simp add: map_of_upt)
qed

lemma write_elems_range_outside:
  assumes "\<forall>i < hi. elem_ok m vd i eew" "k < length (m_v m)"
    and "k < vd * m_vlenb m \<or> vd * m_vlenb m + hi * (eew div 8) \<le> k"
  shows "m_v (write_elems m vd eew (map (\<lambda>i. (i, g i)) (filter P [lo..<hi]))) ! k = m_v m ! k"
  using assms by (intro write_elems_outside [where n = hi]) auto

subsection \<open>Elements as words\<close>

definition elem_w :: "vmodel \<Rightarrow> nat \<Rightarrow> nat \<Rightarrow> 'w::len word" where
  "elem_w m reg i = word_of_int (eget m reg i LENGTH('w))"

definition operand1_w :: "vmodel \<Rightarrow> form \<Rightarrow> nat \<Rightarrow> int \<Rightarrow> int \<Rightarrow> nat \<Rightarrow> 'w::len word" where
  "operand1_w m form vs1 x imm i =
     (case form of VV \<Rightarrow> elem_w m vs1 i | VX \<Rightarrow> word_of_int x | VI \<Rightarrow> word_of_int imm)"

lemma eget_bounds: "elem_ok m reg i eew \<Longrightarrow> 0 \<le> eget m reg i eew \<and> eget m reg i eew < 2 ^ eew"
proof -
  assume ok: "elem_ok m reg i eew"
  then have e: "8 * (eew div 8) = eew" by (simp add: elem_ok_def)
  then have "(256 :: int) ^ (eew div 8) = 2 ^ eew" by (metis exp_8_256)
  moreover have "length (py_slice (elem_off m reg i eew) (eew div 8) (m_v m)) = eew div 8"
    using ok by (simp add: elem_ok_def length_slice)
  ultimately show ?thesis
    using ok from_bytes_le_bound [of "py_slice (elem_off m reg i eew) (eew div 8) (m_v m)"]
    by (simp add: elem_ok_def eget_off)
qed

lemma uint_elem_w: "elem_ok m reg i LENGTH('w) \<Longrightarrow> uint (elem_w m reg i :: 'w::len word) = eget m reg i LENGTH('w)"
  using eget_bounds [of m reg i "LENGTH('w)"] by (simp add: elem_w_def uint_word_of_int)

lemma uint_operand1_w:
  assumes "m_sew m = LENGTH('w)" "form = VV \<Longrightarrow> elem_ok m vs1 i LENGTH('w)"
  shows "uint (operand1_w m form vs1 x imm i :: 'w::len word) = operand1 m form vs1 x imm i"
  using assms
  by (cases form) (simp_all add: operand1_w_def operand1_def uint_elem_w py_mask_mod uint_word_of_int)

lemma word_of_int_py_mask: "(word_of_int (py_mask LENGTH('w) v) :: 'w::len word) = word_of_int v"
  by (intro word_uint_eqI) (simp add: py_mask_mod uint_word_of_int)

lemma sew_power: "wf_model m \<Longrightarrow> m_sew m = LENGTH('w::len) \<Longrightarrow> \<exists>k. LENGTH('w) = 2 ^ k"
proof -
  assume "wf_model m" "m_sew m = LENGTH('w)"
  then have "LENGTH('w) = 2 ^ 3 \<or> LENGTH('w) = 2 ^ 4 \<or> LENGTH('w) = 2 ^ 5"
    by (auto simp: wf_model_def wf_vtype_def sews_def)
  then show ?thesis by blast
qed

lemma wf_vl_vlmax: "wf_model m \<Longrightarrow> i < m_vl m \<Longrightarrow> i < vlmax m (m_sew m) (m_lmul m)"
  by (simp add: wf_model_def)

subsection \<open>Arithmetic instructions\<close>

definition arith_val :: "vmodel \<Rightarrow> aop \<Rightarrow> form \<Rightarrow> nat \<Rightarrow> nat \<Rightarrow> nat \<Rightarrow> int \<Rightarrow> int \<Rightarrow> nat \<Rightarrow> int" where
  "arith_val m op form vd vs2 vs1 x imm i =
     arith_res op (m_sew m) (eget m vs2 i (m_sew m)) (operand1 m form vs1 x imm i)
       (eget m vd i (m_sew m)) (op = Vmerge \<and> mbit m 0 i)"

lemma arith_model_eq:
  assumes m: "wf_model m"
  shows "arith_model m op vm form vd vs2 vs1 x imm =
    Inr (write_elems m vd (m_sew m)
      (map (\<lambda>i. (i, arith_val m op form vd vs2 vs1 x imm i))
        (filter (\<lambda>i. op = Vmerge \<or> is_active m vm i) [0..<m_vl m])))"
proof -
  have "\<forall>i \<in> set [0..<m_vl m]. arith_elem m op vm form vd vs2 vs1 x imm i =
      Inr (if op = Vmerge \<or> is_active m vm i
           then Some (i, arith_val m op form vd vs2 vs1 x imm i) else None)"
    by (auto simp: arith_elem_def arith_val_def active_ok [OF m] bget_mbit bit_ok_vl [OF m] Let_def)
  from rcollect_total [OF this] show ?thesis
    by (simp add: arith_model_def map_filter_upt)
qed

lemma aop_word_mask: "aop_word op a2 a1 ad (op = Vmerge \<and> b) = aop_word op a2 a1 ad b"
  by (cases op) (simp_all add: aop_word_def)

text \<open>
  The destination after an arithmetic instruction, read as words: the word operation at every
  active element below \<open>vl\<close> (all of them for \<open>vmerge\<close>), the old element elsewhere.
\<close>

lemma arith_model_word:
  fixes m :: vmodel
  assumes m: "wf_model m" and w: "m_sew m = LENGTH('w::len)"
    and g: "vd + group_size (m_lmul m) \<le> 32" "vs2 + group_size (m_lmul m) \<le> 32" "vs1 + group_size (m_lmul m) \<le> 32"
    and i: "i < vlmax m (m_sew m) (m_lmul m)"
    and r: "arith_model m op vm form vd vs2 vs1 x imm = Inr m'"
  shows "(elem_w m' vd i :: 'w word) =
    (if i < m_vl m \<and> (op = Vmerge \<or> is_active m vm i)
     then aop_word op (elem_w m vs2 i) (operand1_w m form vs1 x imm i) (elem_w m vd i) (mbit m 0 i)
     else elem_w m vd i)"
proof -
  from sew_power [OF m w] obtain k where k: "LENGTH('w) = 2 ^ k" ..
  have ok: "\<forall>i < m_vl m. elem_ok m vd i (m_sew m)"
    using elem_ok_lmul [OF m g(1)] wf_vl_vlmax [OF m] by blast
  have oki: "elem_ok m vd i LENGTH('w)" "elem_ok m vs2 i LENGTH('w)" "elem_ok m vs1 i LENGTH('w)"
    using elem_ok_lmul [OF m] g i unfolding w by blast+
  have "arith_val m op form vd vs2 vs1 x imm i = arith_res op LENGTH('w) (uint (elem_w m vs2 i :: 'w word))
      (uint (operand1_w m form vs1 x imm i :: 'w word)) (uint (elem_w m vd i :: 'w word)) (op = Vmerge \<and> mbit m 0 i)"
    using oki by (simp add: arith_val_def w uint_elem_w uint_operand1_w [OF w])
  then have "(word_of_int (arith_val m op form vd vs2 vs1 x imm i) :: 'w word) =
      aop_word op (elem_w m vs2 i) (operand1_w m form vs1 x imm i) (elem_w m vd i) (mbit m 0 i)"
    by (simp add: arith_res_word [OF k] aop_word_mask)
  moreover have "eget m' vd i (m_sew m) =
      (if i < m_vl m \<and> (op = Vmerge \<or> is_active m vm i)
       then py_mask (m_sew m) (arith_val m op form vd vs2 vs1 x imm i) else eget m vd i (m_sew m))"
    using r write_elems_range(2) [OF m ok, of i, where lo = 0 and P = "\<lambda>i. op = Vmerge \<or> is_active m vm i"
        and g = "arith_val m op form vd vs2 vs1 x imm"] oki(1)
    by (simp add: arith_model_eq [OF m] w)
  ultimately show ?thesis
    by (cases "i < m_vl m \<and> (op = Vmerge \<or> is_active m vm i)")
       (auto simp: elem_w_def w word_of_int_py_mask)
qed

lemma arith_model_frame:
  assumes m: "wf_model m" and g: "vd + group_size (m_lmul m) \<le> 32"
    and r: "arith_model m op vm form vd vs2 vs1 x imm = Inr m'"
  shows "wf_model m'" "m_mem m' = m_mem m" "m_vl m' = m_vl m" "m_sew m' = m_sew m" "m_lmul m' = m_lmul m"
    "m_vlen m' = m_vlen m"
    "k < length (m_v m) \<Longrightarrow> k < vd * m_vlenb m \<or> vd * m_vlenb m + m_vl m * (m_sew m div 8) \<le> k \<Longrightarrow>
      m_v m' ! k = m_v m ! k"
proof -
  have ok: "\<forall>i < m_vl m. elem_ok m vd i (m_sew m)"
    using elem_ok_lmul [OF m g] wf_vl_vlmax [OF m] by blast
  then have oks: "\<forall>i \<in> fst ` set (map (\<lambda>i. (i, arith_val m op form vd vs2 vs1 x imm i))
        (filter (\<lambda>i. op = Vmerge \<or> is_active m vm i) [0..<m_vl m])). elem_ok m vd i (m_sew m)"
    by auto
  show "wf_model m'" "m_mem m' = m_mem m" "m_vl m' = m_vl m" "m_sew m' = m_sew m" "m_lmul m' = m_lmul m"
    "m_vlen m' = m_vlen m"
    using r wf_model_put_all [OF m oks] by (auto simp: arith_model_eq [OF m] write_elems_put_all put_all_frame)
  show "k < length (m_v m) \<Longrightarrow> k < vd * m_vlenb m \<or> vd * m_vlenb m + m_vl m * (m_sew m div 8) \<le> k \<Longrightarrow>
      m_v m' ! k = m_v m ! k"
    using r write_elems_range_outside [OF ok] by (auto simp: arith_model_eq [OF m])
qed

subsection \<open>Instructions that write mask bits\<close>

lemma write_bits_range:
  assumes m: "wf_model m" and ok: "\<forall>i < n. bit_ok m vd i"
  shows "write_bits m vd (map (\<lambda>i. (i, of_bool (g i))) (filter P [0..<n])) =
    Inr (bits.put_all vd m (map (\<lambda>i. (i, g i)) (filter P [0..<n])))"
proof -
  have gen: "rfold (\<lambda>m (i, b). bset m vd i b) m (map (\<lambda>i. (i, of_bool (g i))) is) =
      Inr (bits.put_all vd m (map (\<lambda>i. (i, g i)) is))"
    if "\<forall>i \<in> set is. bit_ok m vd i" for m "is"
    using that by (induction "is" arbitrary: m) (simp_all add: bset_bput)
  show ?thesis unfolding write_bits_def using ok by (intro gen) auto
qed

lemma wf_bits_put_all: "wf_model m \<Longrightarrow> wf_model (bits.put_all vd m kvs)"
  by (induction kvs arbitrary: m) auto

lemma bits_put_all_frame:
  "m_vlen (bits.put_all vd m kvs) = m_vlen m" "m_mem (bits.put_all vd m kvs) = m_mem m"
  "m_vl (bits.put_all vd m kvs) = m_vl m" "m_sew (bits.put_all vd m kvs) = m_sew m"
  "m_lmul (bits.put_all vd m kvs) = m_lmul m"
  by (induction kvs arbitrary: m; auto)+

lemma mbit_put_all_range:
  assumes "wf_model m" "\<forall>i < n. bit_ok m vd i" "bit_ok m vd j"
  shows "mbit (bits.put_all vd m (map (\<lambda>i. (i, g i)) (filter P [0..<n]))) vd j =
    (if j < n \<and> P j then g j else mbit m vd j)"
proof -
  let ?kvs = "map (\<lambda>i. (i, g i)) (filter P [0..<n])"
  have "distinct (map fst ?kvs)" by (simp add: o_def)
  moreover have "\<forall>i \<in> fst ` set ?kvs. bit_ok m vd i" using assms(2) by auto
  ultimately show ?thesis using bits.get_put_all [of ?kvs m vd j] assms(3) by (simp add: map_of_upt)
qed

text \<open>The comparison of two \<open>SEW\<close>-bit words, unsigned or signed as the instruction says.\<close>

definition cop_word :: "cop \<Rightarrow> 'w::len word \<Rightarrow> 'w word \<Rightarrow> bool" where
  "cop_word op a2 a1 =
     (case op of
        Vmseq \<Rightarrow> a2 = a1 | Vmsne \<Rightarrow> a2 \<noteq> a1 | Vmsltu \<Rightarrow> a2 < a1 | Vmslt \<Rightarrow> a2 <s a1
      | Vmsleu \<Rightarrow> a2 \<le> a1 | Vmsle \<Rightarrow> a2 \<le>s a1 | Vmsgtu \<Rightarrow> a1 < a2 | Vmsgt \<Rightarrow> a1 <s a2)"

lemma compare_res_word:
  "compare_res op LENGTH('w) (uint a2) (uint a1) = cop_word op a2 (a1 :: 'w::len word)"
  by (cases op) (simp_all add: compare_res_def cop_word_def Let_def sx_uint word_less_def word_le_def
      word_sless_alt word_sle_eq word_uint_eq_iff)

lemma compare_model_eq:
  assumes m: "wf_model m" and vd: "vd < 32"
  shows "compare_model m op vm form vd vs2 vs1 x simm =
    Inr (bits.put_all vd m (map (\<lambda>i. (i, compare_res op (m_sew m) (eget m vs2 i (m_sew m))
          (operand1 m form vs1 x simm i))) (filter (is_active m vm) [0..<m_vl m])))"
proof -
  let ?g = "\<lambda>i. compare_res op (m_sew m) (eget m vs2 i (m_sew m)) (operand1 m form vs1 x simm i)"
  have "\<forall>i \<in> set [0..<m_vl m]. compare_elem m op vm form vs2 vs1 x simm i =
      Inr (if is_active m vm i then Some (i, of_bool (?g i)) else None)"
    by (auto simp: compare_elem_def active_ok [OF m])
  from rcollect_total [OF this] have
    "rcollect (compare_elem m op vm form vs2 vs1 x simm) [0..<m_vl m] =
      Inr (map (\<lambda>i. (i, of_bool (?g i))) (filter (is_active m vm) [0..<m_vl m]))"
    by (simp add: map_filter_upt)
  moreover have "\<forall>i < m_vl m. bit_ok m vd i" using bit_ok_vl [OF m vd] by blast
  ultimately show ?thesis by (simp add: compare_model_def write_bits_range [OF m])
qed

lemma masklogic_bool: "masklogic_res op (of_bool a) (of_bool b) = of_bool
   (case op of Vmand \<Rightarrow> a \<and> b | Vmnand \<Rightarrow> \<not> (a \<and> b) | Vmandn \<Rightarrow> a \<and> \<not> b | Vmxor \<Rightarrow> a \<noteq> b
     | Vmor \<Rightarrow> a \<or> b | Vmnor \<Rightarrow> \<not> (a \<or> b) | Vmorn \<Rightarrow> a \<or> \<not> b | Vmxnor \<Rightarrow> a = b)"
  by (cases op; cases a; cases b) (simp_all add: masklogic_res_def)

lemma masklogic_model_eq:
  assumes m: "wf_model m" and r: "vd < 32" "vs2 < 32" "vs1 < 32"
  shows "masklogic_model m op vd vs2 vs1 =
    Inr (bits.put_all vd m (map (\<lambda>i. (i, masklogic_res op (of_bool (mbit m vs2 i)) (of_bool (mbit m vs1 i)) = 1))
      [0..<m_vl m]))"
proof -
  let ?g = "\<lambda>i. masklogic_res op (of_bool (mbit m vs2 i)) (of_bool (mbit m vs1 i)) = 1"
  have "\<forall>i \<in> set [0..<m_vl m]. rbind (bget m vs2 i) (\<lambda>a. rbind (bget m vs1 i) (\<lambda>b.
      Inr (Some (i, masklogic_res op a b)))) = Inr (if True then Some (i, of_bool (?g i)) else None)"
    using r by (auto simp: bget_mbit bit_ok_vl [OF m] masklogic_bool)
  from rcollect_total [OF this] have
    "rcollect (\<lambda>i. rbind (bget m vs2 i) (\<lambda>a. rbind (bget m vs1 i) (\<lambda>b.
        Inr (Some (i, masklogic_res op a b))))) [0..<m_vl m] =
     Inr (map (\<lambda>i. (i, of_bool (?g i))) (filter (\<lambda>_. True) [0..<m_vl m]))"
    by (simp only: map_filter_upt)
  moreover have "\<forall>i < m_vl m. bit_ok m vd i" using bit_ok_vl [OF m r(1)] by blast
  ultimately show ?thesis
    using write_bits_range [OF m, of "m_vl m" vd ?g "\<lambda>_. True"] by (simp add: masklogic_model_def)
qed

subsection \<open>Reductions and mask counts\<close>

definition rop_word :: "rop \<Rightarrow> 'w::len word \<Rightarrow> 'w word \<Rightarrow> 'w word" where
  "rop_word op acc e =
     (case op of
        Vredsum \<Rightarrow> acc + e | Vredand \<Rightarrow> acc AND e | Vredor \<Rightarrow> acc OR e | Vredxor \<Rightarrow> acc XOR e
      | Vredminu \<Rightarrow> min acc e | Vredmaxu \<Rightarrow> max acc e
      | Vredmin \<Rightarrow> (if acc \<le>s e then acc else e) | Vredmax \<Rightarrow> (if e \<le>s acc then acc else e))"

lemma reduce_res_word: "reduce_res op LENGTH('w) (uint acc) (uint e) = uint (rop_word op acc (e :: 'w::len word))"
proof -
  have "(word_of_int (reduce_res op LENGTH('w) (uint acc) (uint e)) :: 'w word) = rop_word op acc e"
    by (cases op) (simp_all add: reduce_res_def rop_word_def word_of_int_py_mask sx_uint word_sle_eq
        word_of_int_minmax word_of_int_bits)
  moreover have "0 \<le> reduce_res op LENGTH('w) (uint acc) (uint e)"
    "reduce_res op LENGTH('w) (uint acc) (uint e) < 2 ^ LENGTH('w)"
    by (simp_all add: reduce_res_def py_mask_bounds)
  ultimately show ?thesis by (metis uint_word_of_int mod_pos_pos_trivial)
qed

lemma reduce_fold_word:
  assumes m: "wf_model m" and w: "m_sew m = LENGTH('w::len)"
    and g: "vs2 + group_size (m_lmul m) \<le> 32" and n: "n \<le> m_vl m"
  shows "rfold (reduce_step m op vm vs2) (uint (acc :: 'w word)) [0..<n] =
    Inr (uint (foldl (rop_word op) acc (map (elem_w m vs2) (filter (is_active m vm) [0..<n]))))"
proof -
  have step: "reduce_step m op vm vs2 (uint a) i =
      Inr (uint (if is_active m vm i then rop_word op a (elem_w m vs2 i) else (a :: 'w word)))"
    if "i < m_vl m" for a i
  proof -
    have "elem_ok m vs2 i LENGTH('w)" using elem_ok_lmul [OF m g wf_vl_vlmax [OF m that]] w by simp
    then show ?thesis
      using that by (simp add: reduce_step_def active_ok [OF m] w uint_elem_w flip: reduce_res_word)
  qed
  have "rfold (reduce_step m op vm vs2) (uint a) is =
      Inr (uint (foldl (rop_word op) a (map (elem_w m vs2) (filter (is_active m vm) is))))"
    if "\<forall>i \<in> set is. i < m_vl m" for a :: "'w word" and "is"
    using that by (induction "is" arbitrary: a) (simp_all add: step)
  then show ?thesis using n by simp
qed

lemma elem_ok_first: "wf_model m \<Longrightarrow> reg < 32 \<Longrightarrow> eew \<in> set sews \<Longrightarrow> elem_ok m reg 0 eew"
  by (rule elem_ok_group [where n = 1 and k = 1])
     (auto simp: wf_model_def m_vlenb_def vlens_def sews_def)

lemma act_list_eq:
  assumes m: "wf_model m" and r: "vs2 < 32"
  shows "act_list m vm vs2 = Inr (filter (\<lambda>i. is_active m vm i \<and> mbit m vs2 i) [0..<m_vl m])"
proof -
  have "\<forall>i \<in> set [0..<m_vl m]. rbind (active m i vm) (\<lambda>act. if \<not> act then Inr None
      else rbind (bget m vs2 i) (\<lambda>b. Inr (if b \<noteq> 0 then Some i else None))) =
      Inr (if is_active m vm i \<and> mbit m vs2 i then Some i else None)"
    using r by (auto simp: active_ok [OF m] bget_mbit bit_ok_vl [OF m])
  from rcollect_total [OF this] show ?thesis
    by (simp only: act_list_def map_filter_if)
qed

lemma first_res_filter:
  "first_res (filter P [0..<n]) = (if \<exists>i < n. P i then int (LEAST i. P i) else 0xFFFFFFFF)"
proof (induction n)
  case 0
  show ?case by (simp add: first_res_def)
next
  case (Suc n)
  show ?case
  proof (cases "\<exists>i < n. P i")
    case True
    then have "filter P [0..<n] \<noteq> []" by (auto simp: filter_empty_conv)
    then have "first_res (filter P [0..<Suc n]) = first_res (filter P [0..<n])"
      by (auto simp: first_res_def neq_Nil_conv)
    with True Suc show ?thesis by (auto simp: less_Suc_eq)
  next
    case False
    then have nil: "filter P [0..<n] = []" by (auto simp: filter_empty_conv)
    show ?thesis
    proof (cases "P n")
      case True
      then have "(LEAST i. P i) = n" using False by (intro Least_equality) (auto simp: not_less[symmetric])
      with True nil show ?thesis by (auto simp: first_res_def)
    next
      case F: False
      with nil False show ?thesis by (auto simp: first_res_def less_Suc_eq)
    qed
  qed
qed

subsection \<open>Slides\<close>

definition slide_val :: "vmodel \<Rightarrow> slide_kind \<Rightarrow> nat \<Rightarrow> nat \<Rightarrow> int \<Rightarrow> nat \<Rightarrow> int" where
  "slide_val m k vs2 off x i =
     (case k of
        SlideUp \<Rightarrow> eget m vs2 (i - off) (m_sew m)
      | SlideDown \<Rightarrow> (if i + off < vlmax m (m_sew m) (m_lmul m) then eget m vs2 (i + off) (m_sew m) else 0)
      | Slide1Up \<Rightarrow> (if i = 0 then x else eget m vs2 (i - 1) (m_sew m))
      | Slide1Down \<Rightarrow> (if i = m_vl m - 1 then x else eget m vs2 (i + 1) (m_sew m)))"

lemma slide_model_eq:
  assumes m: "wf_model m"
  shows "slide_model m k vm vd vs2 off x =
    Inr (write_elems m vd (m_sew m) (map (\<lambda>i. (i, slide_val m k vs2 off x i))
      (filter (is_active m vm) [(if k = SlideUp then off else 0)..<m_vl m])))"
proof -
  have vl: "m_vl m \<le> vlmax m (m_sew m) (m_lmul m)" using m by (simp add: wf_model_def)
  have "slide_elem m k vm vs2 off x i =
      Inr (if is_active m vm i then Some (i, slide_val m k vs2 off x i) else None)" if "i < m_vl m" for i
    using that vl
    by (cases k) (auto simp: slide_elem_def slide_old_def slide_val_def active_ok [OF m])
  then have "\<forall>i \<in> set [(if k = SlideUp then off else 0)..<m_vl m]. slide_elem m k vm vs2 off x i =
      Inr (if is_active m vm i then Some (i, slide_val m k vs2 off x i) else None)"
    by simp
  from rcollect_total [OF this] show ?thesis by (simp only: slide_model_def map_filter_upt rbind_simps)
qed

subsection \<open>Memory instructions\<close>

text \<open>Only the data area \<open>DATA .. INDEX\<close> of memory differs.\<close>

definition data_only :: "vmodel \<Rightarrow> vmodel \<Rightarrow> bool" where
  "data_only m m' \<longleftrightarrow>
     length (m_mem m') = length (m_mem m) \<and>
     (\<forall>k < length (m_mem m). k < DATA \<or> INDEX \<le> k \<longrightarrow> m_mem m' ! k = m_mem m ! k)"

definition same_ctl :: "vmodel \<Rightarrow> vmodel \<Rightarrow> bool" where
  "same_ctl m m' \<longleftrightarrow> m_vlen m' = m_vlen m \<and> m_vl m' = m_vl m \<and> m_sew m' = m_sew m \<and> m_lmul m' = m_lmul m"

lemma data_only_refl [simp]: "data_only m m"
  by (simp add: data_only_def)

lemma data_only_trans: "data_only a b \<Longrightarrow> data_only b c \<Longrightarrow> data_only a c"
  by (auto simp: data_only_def)

lemma data_only_same_mem: "m_mem m' = m_mem m \<Longrightarrow> data_only m m'"
  by (simp add: data_only_def)

lemma data_only_eset: "data_only m (eset m1 reg i eew w) = data_only m m1"
  by (simp add: data_only_def)

lemma same_ctl_refl [simp]: "same_ctl m m"
  by (simp add: same_ctl_def)

lemma same_ctl_trans: "same_ctl a b \<Longrightarrow> same_ctl b c \<Longrightarrow> same_ctl a c"
  by (simp add: same_ctl_def)

lemma data_only_mset:
  assumes "wf_model m" "DATA \<le> a" "a + n \<le> INDEX"
  shows "data_only m (mset m a n w)" "wf_model (mset m a n w)"
proof -
  have "a + n \<le> length (m_mem m)" "a + n \<le> END" using assms by (auto simp: wf_model_def layout_defs)
  then show "data_only m (mset m a n w)" "wf_model (mset m a n w)"
    using assms by (auto simp: data_only_def nth_mset_outside)
qed

definition strided_ok :: "vmodel \<Rightarrow> nat \<Rightarrow> nat \<Rightarrow> nat \<Rightarrow> nat \<Rightarrow> bool" where
  "strided_ok m eew vd base stride \<longleftrightarrow>
     eew \<in> set sews \<and> fst (emul_ok eew (m_sew m) (m_lmul m)) \<and>
     vd + group_size (snd (emul_ok eew (m_sew m) (m_lmul m))) \<le> 32 \<and>
     DATA \<le> base \<and> base \<le> DATA + 1020 \<and> stride \<le> 4 * (eew div 8)"

lemma group_size_le: "emul \<le> 8 \<Longrightarrow> group_size emul \<le> 8"
  by (simp add: group_size_def floor_le_iff nat_le_iff)

lemma vlenb_le: "wf_model m \<Longrightarrow> m_vlenb m \<le> 32"
  by (auto simp: wf_model_def m_vlenb_def vlens_def)

lemma strided_bounds:
  assumes m: "wf_model m" and s: "strided_ok m eew vd base stride" and i: "i < m_vl m"
  shows "elem_ok m vd i eew" "DATA \<le> base + i * stride" "base + i * stride + eew div 8 \<le> INDEX"
proof -
  let ?g = "group_size (snd (emul_ok eew (m_sew m) (m_lmul m)))"
  have fit: "vlmax m (m_sew m) (m_lmul m) * (eew div 8) \<le> ?g * m_vlenb m"
    using m s by (intro vlmax_fits_eew) (auto simp: wf_model_def strided_ok_def)
  show "elem_ok m vd i eew"
    using m s fit wf_vl_vlmax [OF m i] by (intro elem_ok_group [where n = ?g]) (auto simp: strided_ok_def)
  have "?g \<le> 8" using s by (intro group_size_le) (auto simp: strided_ok_def emul_ok_def Let_def)
  then have "?g * m_vlenb m \<le> 8 * 32" using vlenb_le [OF m] by (intro mult_mono) auto
  moreover have "Suc i * (eew div 8) \<le> vlmax m (m_sew m) (m_lmul m) * (eew div 8)"
    using wf_vl_vlmax [OF m i] by (intro mult_right_mono) auto
  ultimately have e: "i * (eew div 8) + eew div 8 \<le> 256" using fit by simp
  have "i * stride \<le> i * (4 * (eew div 8))" using s by (intro mult_left_mono) (auto simp: strided_ok_def)
  also have "\<dots> = 4 * (i * (eew div 8))" by simp
  finally have "i * stride + eew div 8 \<le> 1024" using e by linarith
  then show "DATA \<le> base + i * stride" "base + i * stride + eew div 8 \<le> INDEX"
    using s by (auto simp: strided_ok_def layout_defs)
qed

lemma strided_ok_cong: "same_ctl m m' \<Longrightarrow> strided_ok m' = strided_ok m"
  by (simp add: fun_eq_iff strided_ok_def same_ctl_def)

text \<open>Any strided access ends, keeps the state well formed and stays in the data area.\<close>

lemma strided_safe:
  assumes m: "wf_model m" and s: "strided_ok m eew vd base stride"
  shows "\<exists>m'. strided_model m store vm eew vd base stride = Inr m' \<and>
    wf_model m' \<and> same_ctl m m' \<and> data_only m m'"
proof -
  define I where "I m' \<longleftrightarrow> wf_model m' \<and> same_ctl m m' \<and> data_only m m'" for m'
  have "\<exists>m2. strided_step store vm eew vd base stride m1 i = Inr m2 \<and> I m2"
    if I: "I m1" and i: "i \<in> set [0..<m_vl m]" for m1 i
  proof -
    have m1: "wf_model m1" "same_ctl m m1" "data_only m m1" and i1: "i < m_vl m1"
      using I i by (auto simp: I_def same_ctl_def)
    have s1: "strided_ok m1 eew vd base stride" using s strided_ok_cong [OF m1(2)] by simp
    note b = strided_bounds [OF m1(1) s1 i1]
    have "I (mset m1 (base + i * stride) (eew div 8) w)" for w
      using m1 data_only_mset [OF m1(1) b(2,3), of w]
      by (auto simp: I_def same_ctl_def intro: data_only_trans)
    moreover have "I (eset m1 vd i eew w)" for w
      using m1 b(1) by (auto simp: I_def same_ctl_def data_only_eset)
    ultimately show ?thesis using I by (simp add: strided_step_def active_ok [OF m1(1) i1] Let_def)
  qed
  then show ?thesis
    unfolding strided_model_def I_def [symmetric] using m by (intro rfold_inv) (auto simp: I_def)
qed

text \<open>Writing a group that does not start at \<open>v0\<close> leaves the mask alone.\<close>

lemma mbit0_eset:
  assumes "wf_model m" "0 < reg" "elem_ok m reg i eew" "j < m_vlen m"
  shows "mbit (eset m reg i eew w) 0 j = mbit m 0 j"
proof -
  have "bit_ok m 0 j" using assms by (intro bit_ok_reg) auto
  moreover have "bit_off m 0 j < m_vlenb m"
    using assms(1,4) by (auto simp: bit_off_def wf_model_def m_vlenb_def vlens_def)
  moreover have "1 * m_vlenb m \<le> reg * m_vlenb m" using assms(2) by (intro mult_right_mono) auto
  ultimately have "bit_off m 0 j < elem_off m reg i eew" "bit_off m 0 j < length (m_v m)"
    unfolding elem_off_def bit_ok_def by linarith+
  then have "m_v (eset m reg i eew w) ! bit_off m 0 j = m_v m ! bit_off m 0 j"
    using assms(3) by (intro nth_eset_outside) auto
  then show ?thesis by (simp add: mbit_def bit_off_cong [of "eset m reg i eew w" m])
qed

lemma vl_less_vlen: "wf_model m \<Longrightarrow> i < m_vl m \<Longrightarrow> i < m_vlen m"
  using vlmax_le_vlen [of m "m_sew m" "m_lmul m"] by (auto simp: wf_model_def)

lemma strided_load_eq:
  assumes m: "wf_model m" and s: "strided_ok m eew vd base stride" and v: "vm \<or> 0 < vd"
  shows "strided_model m False vm eew vd base stride =
    Inr (write_elems m vd eew (map (\<lambda>i. (i, mget m (base + i * stride) (eew div 8)))
      (filter (is_active m vm) [0..<m_vl m])))"
proof -
  have "rfold (strided_step False vm eew vd base stride) m1 is =
      Inr (write_elems m1 vd eew (map (\<lambda>i. (i, mget m (base + i * stride) (eew div 8)))
        (filter (is_active m vm) is)))"
    if "wf_model m1" "same_ctl m m1" "m_mem m1 = m_mem m"
      "\<forall>i < m_vl m. is_active m1 vm i = is_active m vm i" "\<forall>i \<in> set is. i < m_vl m" for m1 "is"
    using that
  proof (induction "is" arbitrary: m1)
    case Nil
    then show ?case by (simp add: write_elems_def)
  next
    case (Cons i "is")
    let ?m2 = "eset m1 vd i eew (mget m (base + i * stride) (eew div 8))"
    have i: "i < m_vl m1" using Cons.prems by (simp add: same_ctl_def)
    have ok: "elem_ok m1 vd i eew"
      using strided_bounds(1) [OF Cons.prems(1) _ i] s strided_ok_cong [OF Cons.prems(2)] by simp
    have step: "strided_step False vm eew vd base stride m1 i = Inr (if is_active m vm i then ?m2 else m1)"
      using Cons.prems i by (simp add: strided_step_def active_ok mget_def)
    have "\<forall>j < m_vl m. is_active ?m2 vm j = is_active m1 vm j"
      using v mbit0_eset [OF Cons.prems(1) _ ok] vl_less_vlen [OF Cons.prems(1)] Cons.prems(2)
      by (auto simp: is_active_def same_ctl_def)
    then have "rfold (strided_step False vm eew vd base stride) ?m2 is =
        Inr (write_elems ?m2 vd eew (map (\<lambda>i. (i, mget m (base + i * stride) (eew div 8)))
          (filter (is_active m vm) is)))"
      using Cons.prems ok by (intro Cons.IH) (auto simp: same_ctl_def)
    then show ?case using Cons step by (simp add: write_elems_def)
  qed
  then show ?thesis unfolding strided_model_def using m by auto
qed

lemma strided_store_eq:
  assumes m: "wf_model m" and s: "strided_ok m eew vd base stride"
  shows "strided_model m True vm eew vd base stride =
    Inr (cells.put_all base stride (eew div 8) m (map (\<lambda>i. (i, eget m vd i eew))
      (filter (is_active m vm) [0..<m_vl m])))"
proof -
  have "rfold (strided_step True vm eew vd base stride) m1 is =
      Inr (cells.put_all base stride (eew div 8) m1 (map (\<lambda>i. (i, eget m vd i eew))
        (filter (is_active m vm) is)))"
    if "m_v m1 = m_v m" "m_vlen m1 = m_vlen m" "\<forall>i \<in> set is. i < m_vl m" for m1 "is"
    using that
  proof (induction "is" arbitrary: m1)
    case (Cons i "is")
    have "active m1 i vm = active m i vm"
      using Cons.prems by (simp add: active_def bget_def m_vlenb_def)
    then have "active m1 i vm = Inr (is_active m vm i)" using Cons.prems by (simp add: active_ok [OF m])
    moreover have "eget m1 vd i eew = eget m vd i eew" using Cons.prems by (simp add: eget_def m_vlenb_def)
    ultimately show ?case using Cons by (simp add: strided_step_def)
  qed simp
  then show ?thesis unfolding strided_model_def by auto
qed

text \<open>What a store put in memory, a load with the same shape brings back.\<close>

lemma strided_store_mget:
  assumes m: "wf_model m" and s: "strided_ok m eew vd base stride" and n: "eew div 8 \<le> stride"
    and r: "strided_model m True vm eew vd base stride = Inr m'" and i: "i < m_vl m"
  shows "mget m' (base + i * stride) (eew div 8) =
    (if is_active m vm i then eget m vd i eew else mget m (base + i * stride) (eew div 8))"
proof -
  let ?kvs = "map (\<lambda>i. (i, eget m vd i eew)) (filter (is_active m vm) [0..<m_vl m])"
  have ok: "cell_ok base stride (eew div 8) m j" if "j < m_vl m" for j
    using strided_bounds(3) [OF m s that] m n by (auto simp: cell_ok_def wf_model_def layout_defs)
  have "distinct (map fst ?kvs)" by (simp add: o_def)
  moreover have "\<forall>i \<in> fst ` set ?kvs. cell_ok base stride (eew div 8) m i" using ok by auto
  ultimately have "mget m' (base + i * stride) (eew div 8) =
      (case map_of ?kvs i of Some w \<Rightarrow> py_mask (8 * (eew div 8)) w | None \<Rightarrow> mget m (base + i * stride) (eew div 8))"
    using cells.get_put_all [of ?kvs base stride "eew div 8" m i] ok [OF i] r
    by (simp add: strided_store_eq [OF m s])
  moreover have "8 * (eew div 8) = eew" using s by (auto simp: strided_ok_def sews_def)
  moreover have "py_mask eew (eget m vd i eew) = eget m vd i eew"
    using eget_bounds [OF strided_bounds(1) [OF m s i]] by (simp add: py_mask_id)
  ultimately show ?thesis using i by (simp add: map_of_upt)
qed

subsection \<open>Groups, indexed accesses, whole registers\<close>

lemma elem_in_group:
  assumes "k * (eew div 8) \<le> n * m_vlenb m" "i < k"
  shows "reg * m_vlenb m \<le> elem_off m reg i eew" "elem_off m reg i eew + eew div 8 \<le> (reg + n) * m_vlenb m"
proof -
  have "Suc i * (eew div 8) \<le> k * (eew div 8)" using assms(2) by (intro mult_right_mono) auto
  then have "elem_off m reg i eew + eew div 8 \<le> reg * m_vlenb m + n * m_vlenb m"
    using assms(1) unfolding elem_off_def by simp
  then show "elem_off m reg i eew + eew div 8 \<le> (reg + n) * m_vlenb m" by (simp add: algebra_simps)
qed (simp add: elem_off_def)

text \<open>Writing an element of one group leaves the elements of a disjoint group alone.\<close>

lemma eget_eset_groups:
  assumes "elem_ok m reg i eew" "elem_ok m reg' j eew'"
    and "k * (eew div 8) \<le> n * m_vlenb m" "i < k" "k' * (eew' div 8) \<le> n' * m_vlenb m" "j < k'"
    and "reg + n \<le> reg' \<or> reg' + n' \<le> reg"
  shows "eget (eset m reg i eew w) reg' j eew' = eget m reg' j eew'"
proof (rule eget_eset_disjoint [OF assms(1,2)])
  note e = elem_in_group [OF assms(3,4), of reg] and e' = elem_in_group [OF assms(5,6), of reg']
  have "reg + n \<le> reg' \<Longrightarrow> (reg + n) * m_vlenb m \<le> reg' * m_vlenb m"
    "reg' + n' \<le> reg \<Longrightarrow> (reg' + n') * m_vlenb m \<le> reg * m_vlenb m"
    by (intro mult_right_mono; simp)+
  then show "elem_off m reg' j eew' + eew' div 8 \<le> elem_off m reg i eew \<or>
      elem_off m reg i eew + eew div 8 \<le> elem_off m reg' j eew'"
    using assms(7) e e' by linarith
qed

definition indexed_ok :: "vmodel \<Rightarrow> bool \<Rightarrow> nat \<Rightarrow> nat \<Rightarrow> nat \<Rightarrow> nat \<Rightarrow> bool" where
  "indexed_ok m store ieew vd vix base \<longleftrightarrow>
     (let g = group_size (m_lmul m); gi = group_size (snd (emul_ok ieew (m_sew m) (m_lmul m))) in
      ieew \<in> set sews \<and> fst (emul_ok ieew (m_sew m) (m_lmul m)) \<and>
      vd + g \<le> 32 \<and> vix + gi \<le> 32 \<and> (store \<or> vd + g \<le> vix \<or> vix + gi \<le> vd) \<and>
      DATA \<le> base \<and> base \<le> DATA + 1020 \<and> (\<forall>i < m_vl m. eget m vix i ieew < 256))"

lemma indexed_safe:
  assumes m: "wf_model m" and s: "indexed_ok m store ieew vd vix base"
  shows "\<exists>m'. indexed_model m store vm ieew vd vix base = Inr m' \<and>
    wf_model m' \<and> same_ctl m m' \<and> data_only m m'"
proof -
  let ?g = "group_size (m_lmul m)" and ?gi = "group_size (snd (emul_ok ieew (m_sew m) (m_lmul m)))"
  let ?k = "vlmax m (m_sew m) (m_lmul m)"
  have fit: "?k * (m_sew m div 8) \<le> ?g * m_vlenb m" "?k * (ieew div 8) \<le> ?gi * m_vlenb m"
    using m s vlmax_fits [of m "m_sew m" "m_lmul m"] vlmax_fits_eew [of m "m_sew m" "m_lmul m" ieew]
    by (auto simp: wf_model_def indexed_ok_def Let_def)
  define I where "I m' \<longleftrightarrow> (wf_model m' \<and> same_ctl m m' \<and> data_only m m') \<and>
     (\<forall>i < m_vl m. eget m' vix i ieew = eget m vix i ieew)" for m'
  have "\<exists>m2. indexed_step store vm ieew vd vix base m1 i = Inr m2 \<and> I m2"
    if I: "I m1" and i: "i \<in> set [0..<m_vl m]" for m1 i
  proof -
    have m1: "wf_model m1" "same_ctl m m1" "data_only m m1" and i1: "i < m_vl m1" and im: "i < m_vl m"
      using I i by (auto simp: I_def same_ctl_def)
    have ctl: "m_sew m1 = m_sew m" "m_vlenb m1 = m_vlenb m" "m_lmul m1 = m_lmul m" "m_vl m1 = m_vl m"
      "m_vlen m1 = m_vlen m"
      using m1(2) by (auto simp: same_ctl_def m_vlenb_def)
    have sew: "m_sew m \<in> set sews" "m_sew m div 8 \<le> 4"
      using m by (auto simp: wf_model_def wf_vtype_def sews_def)
    have ikk: "j < ?k" if "j < m_vl m" for j using wf_vl_vlmax [OF m that] .
    have ok: "elem_ok m1 vd j (m_sew m)" "elem_ok m1 vix j ieew" if "j < m_vl m" for j
      using m1(1) s fit ikk [OF that] sew
      by (auto intro!: elem_ok_group [where k = ?k] simp: indexed_ok_def Let_def ctl)
    let ?a = "base + nat (eget m1 vix i ieew)"
    have "eget m1 vix i ieew < 256" using I im s by (auto simp: I_def indexed_ok_def Let_def)
    then have a: "DATA \<le> ?a" "?a + m_sew m div 8 \<le> INDEX"
      using s sew by (auto simp: indexed_ok_def Let_def layout_defs)
    have "I (mset m1 ?a (m_sew m div 8) w)" for w
      using I m1 data_only_mset [OF m1(1) a, of w]
      by (auto simp: I_def same_ctl_def eget_def intro: data_only_trans)
    moreover have "I (eset m1 vd i (m_sew m) w)" if "\<not> store" for w
    proof -
      have "eget (eset m1 vd i (m_sew m) w) vix j ieew = eget m1 vix j ieew" if j: "j < m_vl m" for j
        using ok(1) [OF im] ok(2) [OF j] fit ikk [OF im] ikk [OF j] s \<open>\<not> store\<close>
        by (intro eget_eset_groups [where k = ?k and k' = ?k and n = ?g and n' = ?gi])
           (auto simp: ctl indexed_ok_def Let_def)
      then show ?thesis using I m1 ok(1) [OF im] by (auto simp: I_def same_ctl_def data_only_eset)
    qed
    ultimately show ?thesis using I
      by (cases store) (simp_all add: indexed_step_def active_ok [OF m1(1) i1] ctl Let_def)
  qed
  then have "\<exists>m'. indexed_model m store vm ieew vd vix base = Inr m' \<and> I m'"
    unfolding indexed_model_def using m by (intro rfold_inv) (auto simp: I_def)
  then show ?thesis by (auto simp: I_def)
qed

lemma reg_bytes: "wf_model m \<Longrightarrow> reg + n \<le> 32 \<Longrightarrow> reg * m_vlenb m + n * m_vlenb m \<le> length (m_v m)"
proof -
  assume "wf_model m" "reg + n \<le> 32"
  moreover from this have "(reg + n) * m_vlenb m \<le> 32 * m_vlenb m" by (intro mult_right_mono) auto
  ultimately show ?thesis by (simp add: wf_model_def algebra_simps)
qed

lemma whole_bytes: "wf_model m \<Longrightarrow> n \<le> 8 \<Longrightarrow> n * m_vlenb m \<le> 256"
proof -
  assume "wf_model m" "n \<le> 8"
  then have "n * m_vlenb m \<le> 8 * 32" using vlenb_le [of m] by (intro mult_mono) auto
  then show ?thesis by simp
qed

lemma wf_mem_length: "wf_model m \<Longrightarrow> length (m_mem m) = END"
  by (simp add: wf_model_def)

lemma movnr_safe:
  assumes "wf_model m" "vd + n \<le> 32" "vs2 + n \<le> 32"
  shows "wf_model (movnr_model m n vd vs2)" "same_ctl m (movnr_model m n vd vs2)"
    "m_mem (movnr_model m n vd vs2) = m_mem m"
  using assms reg_bytes [of m vd n] reg_bytes [of m vs2 n]
  by (auto intro!: wf_model_update [of m] simp: movnr_model_def same_ctl_def Let_def bytes_simps)

lemma load_index_safe:
  assumes "wf_model m" "vix + n \<le> 32" "tab + n * m_vlenb m \<le> END"
  shows "wf_model (load_index m vix n tab)" "same_ctl m (load_index m vix n tab)"
    "m_mem (load_index m vix n tab) = m_mem m"
  using assms reg_bytes [of m vix n] wf_mem_length [of m]
  by (auto intro!: wf_model_update [of m] simp: load_index_def same_ctl_def Let_def bytes_simps)

text \<open>The index registers then hold the entries of the table.\<close>

lemma eget_load_index:
  assumes m: "wf_model m" and n: "vix + n \<le> 32" and t: "tab + n * m_vlenb m \<le> END"
    and e: "ieew \<in> set sews" and k: "k * (ieew div 8) \<le> n * m_vlenb m" "i < k"
  shows "eget (load_index m vix n tab) vix i ieew = mget m (tab + i * (ieew div 8)) (ieew div 8)"
proof -
  let ?b = "n * m_vlenb m" and ?e = "ieew div 8"
  have "8 dvd ieew" using e by (auto simp: sews_def)
  have "Suc i * ?e \<le> k * ?e" using k(2) by (intro mult_right_mono) auto
  then have ie: "i * ?e + ?e \<le> ?b" using k(1) by simp
  have len: "length (py_slice tab ?b (m_mem m)) = ?b" using m t by (simp add: wf_model_def bytes_simps)
  have off: "elem_off (load_index m vix n tab) vix i ieew = vix * m_vlenb m + i * ?e"
    by (simp add: elem_off_def load_index_def m_vlenb_def Let_def)
  have "py_slice (vix * m_vlenb m + i * ?e) ?e (m_v (load_index m vix n tab)) =
      py_slice (tab + i * ?e) ?e (m_mem m)"
  proof (rule nth_equalityI)
    show "length (py_slice (vix * m_vlenb m + i * ?e) ?e (m_v (load_index m vix n tab))) =
        length (py_slice (tab + i * ?e) ?e (m_mem m))"
      using ie t m reg_bytes [OF m n] len by (simp add: load_index_def Let_def bytes_simps wf_model_def)
  next
    fix q assume "q < length (py_slice (vix * m_vlenb m + i * ?e) ?e (m_v (load_index m vix n tab)))"
    then have q: "q < ?e" by (simp add: py_slice_def)
    then show "py_slice (vix * m_vlenb m + i * ?e) ?e (m_v (load_index m vix n tab)) ! q =
        py_slice (tab + i * ?e) ?e (m_mem m) ! q"
      using ie t m reg_bytes [OF m n] len
      by (simp add: load_index_def Let_def bytes_simps wf_model_def algebra_simps)
  qed
  then show ?thesis by (simp add: eget_off [OF \<open>8 dvd ieew\<close>] off mget_def)
qed

lemma whole_safe:
  assumes m: "wf_model m" and n: "vd + n \<le> 32" "n \<le> 8" and b: "DATA \<le> base" "base \<le> DATA + 1020"
  shows "wf_model (whole_model m store n vd base)" "same_ctl m (whole_model m store n vd base)"
    "data_only m (whole_model m store n vd base)"
proof -
  have "base + n * m_vlenb m \<le> INDEX" "INDEX \<le> END"
    using whole_bytes [OF m n(2)] b by (auto simp: layout_defs)
  then show "wf_model (whole_model m store n vd base)" "same_ctl m (whole_model m store n vd base)"
    "data_only m (whole_model m store n vd base)"
    using m b reg_bytes [OF m n(1)] wf_mem_length [OF m]
    by (auto intro!: wf_model_update [of m]
        simp: whole_model_def same_ctl_def data_only_def Let_def bytes_simps)
qed

lemma maskmem_safe:
  assumes m: "wf_model m" and vd: "vd < 32" and b: "DATA \<le> base" "base \<le> DATA + 1020"
  shows "\<exists>m'. maskmem_model m store vd base = Inr m' \<and> wf_model m' \<and> same_ctl m m' \<and> data_only m m'"
proof -
  define I where "I m' \<longleftrightarrow> wf_model m' \<and> same_ctl m m' \<and> data_only m m'" for m'
  have vl: "(m_vl m + 7) div 8 \<le> m_vlenb m" "m_vlenb m \<le> 32"
    using vlmax_le_vlen [of m "m_sew m" "m_lmul m"] m vlenb_le [OF m]
    by (auto simp: wf_model_def m_vlenb_def vlens_def)
  have "\<exists>m2. maskmem_step store vd base m1 i = Inr m2 \<and> I m2"
    if I: "I m1" and i: "i \<in> set [0..<(m_vl m + 7) div 8]" for m1 i
  proof -
    have m1: "wf_model m1" "same_ctl m m1" "data_only m m1" using I by (auto simp: I_def)
    then have b1: "m_vlenb m1 = m_vlenb m" by (simp add: same_ctl_def m_vlenb_def)
    have "i < m_vlenb m" "i < 32" using i vl by auto
    moreover have "vd * m_vlenb m1 + 1 * m_vlenb m1 \<le> length (m_v m1)"
      using vd by (intro reg_bytes [OF m1(1)]) simp
    ultimately have k: "vd * m_vlenb m1 + i < length (m_v m1)" "base + i < length (m_mem m1)"
      using b unfolding b1 by (auto simp: wf_mem_length [OF m1(1)] layout_defs)
    have "I (mset m1 (base + i) 1 w)" for w
      using m1 data_only_mset [OF m1(1), of "base + i" 1 w] b i vl
      by (auto simp: I_def same_ctl_def layout_defs intro: data_only_trans)
    moreover have "I (m1\<lparr>m_v := (m_v m1)[vd * m_vlenb m1 + i := x]\<rparr>)" for x
      using m1 by (auto simp: I_def same_ctl_def data_only_def intro: wf_model_update [of m1])
    ultimately show ?thesis using k by (simp add: maskmem_step_def)
  qed
  then show ?thesis
    unfolding maskmem_model_def I_def [symmetric] using m by (intro rfold_inv) (auto simp: I_def)
qed

lemma vid_safe:
  assumes m: "wf_model m" and g: "vd + group_size (m_lmul m) \<le> 32"
  shows "\<exists>m'. vid_model m vm vd = Inr m' \<and> wf_model m' \<and> same_ctl m m' \<and> m_mem m' = m_mem m"
proof -
  define I where "I m' \<longleftrightarrow> wf_model m' \<and> same_ctl m m' \<and> m_mem m' = m_mem m" for m'
  have "\<exists>m2. rbind (active m1 i vm) (\<lambda>act. Inr (if act then eset m1 vd i (m_sew m1) (int i) else m1)) = Inr m2 \<and> I m2"
    if I: "I m1" and i: "i \<in> set [0..<m_vl m]" for m1 i
  proof -
    have m1: "wf_model m1" "same_ctl m m1" and i1: "i < m_vl m1" using I i by (auto simp: I_def same_ctl_def)
    have "elem_ok m1 vd i (m_sew m1)"
      using g m1(2) wf_vl_vlmax [OF m1(1) i1] by (intro elem_ok_lmul [OF m1(1)]) (auto simp: same_ctl_def)
    then show ?thesis using I by (simp add: active_ok [OF m1(1) i1] I_def same_ctl_def)
  qed
  then show ?thesis
    unfolding vid_model_def I_def [symmetric] using m by (intro rfold_inv) (auto simp: I_def)
qed

end
