(* ===== verification/Vec_Gen.thy ===== *)
theory Vec_Gen
  imports Vec_Ops
begin

text \<open>
  The class \<open>Gen\<close> of \<^verbatim>\<open>tools/vtest/vgen.py\<close>: the random program generator that emits
  assembly text and runs the reference model alongside. Python's random source is a list of
  numbers; each call takes the next one modulo the size of its range, so a list stands for
  one run and every finite run of the real source is such a list. The run stops with
  \<open>NeedDraws\<close> when the list ends. \<open>random() < p\<close> becomes a draw below 100.
\<close>

record gen =
  g_rng :: "nat list"
  g_asm :: "string list"
  g_m :: vmodel
  g_init :: "byte list"
  g_slots :: nat

subsection \<open>The random source\<close>

definition draw :: "nat \<Rightarrow> gen \<Rightarrow> (nat \<times> gen) res" where
  "draw n g =
     (if n = 0 then Inl ValueError
      else case g_rng g of
             [] \<Rightarrow> Inl NeedDraws
           | x # xs \<Rightarrow> Inr (x mod n, g\<lparr>g_rng := xs\<rparr>))"

definition choice :: "'a list \<Rightarrow> gen \<Rightarrow> ('a \<times> gen) res" where
  "choice xs g = rbind (draw (length xs) g) (\<lambda>(k, g). Inr (xs ! k, g))"

definition rand_lt :: "nat \<Rightarrow> gen \<Rightarrow> (bool \<times> gen) res" where
  "rand_lt pct g = rbind (draw 100 g) (\<lambda>(k, g). Inr (k < pct, g))"

subsection \<open>Emitting text\<close>

definition dec :: "nat \<Rightarrow> string" where
  "dec n = py_str (int n)"

definition emit :: "gen \<Rightarrow> string \<Rightarrow> gen" where
  "emit g s = g\<lparr>g_asm := g_asm g @ [''    '' @ s]\<rparr>"

definition li :: "gen \<Rightarrow> string \<Rightarrow> int \<Rightarrow> gen" where
  "li g reg val = emit g (''li '' @ reg @ '', '' @ py_str (if val \<ge> push_bit 31 1 then sx val 32 else val))"

definition save_scalar :: "gen \<Rightarrow> string \<Rightarrow> int \<Rightarrow> gen" where
  "save_scalar g reg val =
     (let g = emit g (''sw '' @ reg @ '', '' @ dec (4 * g_slots g) @ ''(s1)'')
      in g\<lparr>g_m := mset (g_m g) (OUT_S + 4 * g_slots g) 4 val, g_slots := g_slots g + 1\<rparr>)"

subsection \<open>Construction\<close>

text \<open>The index table of each width: 8, 16 and 32 bit tables, \<open>4 * vlen\<close> bytes apart.\<close>

definition idx_tab :: "nat \<Rightarrow> nat \<Rightarrow> nat" where
  "idx_tab vlen eew = INDEX + (if eew = 8 then 0 else if eew = 16 then 1 else 2) * (vlen * 4)"

definition fill_data :: "gen \<Rightarrow> gen res" where
  "fill_data g =
     rfold (\<lambda>g a. rbind (draw 256 g) (\<lambda>(x, g).
        rbind (py_set (m_mem (g_m g)) a (of_nat x)) (\<lambda>mem'.
          Inr (g\<lparr>g_m := (g_m g)\<lparr>m_mem := mem'\<rparr>\<rparr>)))) g [DATA..<INDEX]"

definition fill_table :: "nat \<Rightarrow> gen \<Rightarrow> nat \<Rightarrow> gen res" where
  "fill_table vlen g eew =
     rfold (\<lambda>g i. rbind (draw 64 g) (\<lambda>(x, g).
        Inr (g\<lparr>g_m := mset (g_m g) (idx_tab vlen eew + i * eew div 8) (eew div 8) (4 * int x)\<rparr>))) g [0..<vlen]"

definition gen_init :: "nat list \<Rightarrow> nat \<Rightarrow> gen res" where
  "gen_init draws vlen =
     (let g = \<lparr>g_rng = draws, g_asm = [], g_m = model_init vlen (replicate END 0), g_init = [], g_slots = 0\<rparr>
      in rbind (fill_data g) (\<lambda>g.
         rbind (rfold (fill_table vlen) g [8, 16, 32]) (\<lambda>g.
           Inr (g\<lparr>g_init := m_mem (g_m g)\<rparr>))))"

subsection \<open>Register groups\<close>

fun group_try :: "nat \<Rightarrow> nat \<Rightarrow> nat list list \<Rightarrow> bool \<Rightarrow> gen \<Rightarrow> ((nat \<times> nat list) option \<times> gen) res" where
  "group_try 0 n avoid not_v0 g = Inr (None, g)"
| "group_try (Suc tries) n avoid not_v0 g =
     rbind (draw ((32 + n - 1) div n) g) (\<lambda>(k, g).
       let r = n * k; rng = [r..<r + n] in
       if not_v0 \<and> 0 \<in> set rng then group_try tries n avoid not_v0 g
       else if list_ex (\<lambda>a. list_ex (\<lambda>x. x \<in> set a) rng) avoid then group_try tries n avoid not_v0 g
       else Inr (Some (r, rng), g))"

definition group :: "rat \<Rightarrow> nat list list \<Rightarrow> bool \<Rightarrow> gen \<Rightarrow> ((nat \<times> nat list) option \<times> gen) res" where
  "group emul avoid not_v0 g = group_try 100 (group_size emul) avoid not_v0 g"

text \<open>Formatting \<open>None\<close> with \<open>%d\<close> raises.\<close>

definition reg_of :: "(nat \<times> nat list) option \<Rightarrow> nat res" where
  "reg_of r = (case r of None \<Rightarrow> Inl TypeError | Some (v, _) \<Rightarrow> Inr v)"

definition lmul_regs :: "gen \<Rightarrow> rat" where
  "lmul_regs g = (if m_lmul (g_m g) \<ge> 1 then m_lmul (g_m g) else 1)"

definition v0_t :: "bool \<Rightarrow> string" where
  "v0_t vm = (if vm then '''' else '', v0.t'')"

subsection \<open>\<open>vset\<close>\<close>

fun vset_loop :: "nat list \<Rightarrow> ((nat \<times> rat) \<times> nat list) res" where
  "vset_loop (a # b # ds) =
     (let sew = sews ! (a mod 3); lmul = lmuls ! (b mod 7)
      in if lmul < 1 \<and> of_nat sew / lmul > 32 then vset_loop ds else Inr ((sew, lmul), ds))"
| "vset_loop _ = Inl NeedDraws"

definition lmul_name :: "rat \<Rightarrow> string" where
  "lmul_name l =
     (if l = 1/8 then ''mf8'' else if l = 1/4 then ''mf4'' else if l = 1/2 then ''mf2''
      else if l = 1 then ''m1'' else if l = 2 then ''m2'' else if l = 4 then ''m4'' else ''m8'')"

definition vset :: "gen \<Rightarrow> gen res" where
  "vset g =
     rbind (vset_loop (g_rng g)) (\<lambda>((sew, lmul), ds).
     let g = g\<lparr>g_rng := ds\<rparr>; vlmx = vlmax (g_m g) sew lmul in
     rbind (draw vlmx g) (\<lambda>(k, g).
     rbind (choice [0, 1, vlmx, vlmx + 3, 1 + k] g) (\<lambda>(avl, g).
     rbind (rand_lt 15 g) (\<lambda>(im, g).
     let sfx = '', e'' @ dec sew @ '', '' @ lmul_name lmul @ '', ta, ma'';
         g = (if im \<and> avl < 32 then emit g (''vsetivli t0, '' @ dec avl @ sfx)
              else emit (li g ''t2'' (int avl)) (''vsetvli t0, t2'' @ sfx));
         g = g\<lparr>g_m := (g_m g)\<lparr>m_sew := sew, m_lmul := lmul, m_vl := min avl vlmx\<rparr>\<rparr>
     in Inr (save_scalar g ''t0'' (int (m_vl (g_m g))))))))"

subsection \<open>Arithmetic, comparisons, reductions, mask logic\<close>

definition aops :: "aop list" where
  "aops = [Vadd, Vsub, Vrsub, Vand, Vor, Vxor, Vsll, Vsrl, Vsra, Vminu, Vmin, Vmaxu, Vmax, Vmul, Vmulh,
     Vmulhu, Vmulhsu, Vmacc, Vnmsac, Vmadd, Vnmsub, Vmerge, Vmv]"

definition aop_name :: "aop \<Rightarrow> string" where
  "aop_name op =
     (case op of Vadd \<Rightarrow> ''vadd'' | Vsub \<Rightarrow> ''vsub'' | Vrsub \<Rightarrow> ''vrsub'' | Vand \<Rightarrow> ''vand'' | Vor \<Rightarrow> ''vor''
      | Vxor \<Rightarrow> ''vxor'' | Vsll \<Rightarrow> ''vsll'' | Vsrl \<Rightarrow> ''vsrl'' | Vsra \<Rightarrow> ''vsra'' | Vminu \<Rightarrow> ''vminu''
      | Vmin \<Rightarrow> ''vmin'' | Vmaxu \<Rightarrow> ''vmaxu'' | Vmax \<Rightarrow> ''vmax'' | Vmul \<Rightarrow> ''vmul'' | Vmulh \<Rightarrow> ''vmulh''
      | Vmulhu \<Rightarrow> ''vmulhu'' | Vmulhsu \<Rightarrow> ''vmulhsu'' | Vmacc \<Rightarrow> ''vmacc'' | Vnmsac \<Rightarrow> ''vnmsac''
      | Vmadd \<Rightarrow> ''vmadd'' | Vnmsub \<Rightarrow> ''vnmsub'' | Vmerge \<Rightarrow> ''vmerge'' | Vmv \<Rightarrow> ''vmv'')"

definition form_name :: "form \<Rightarrow> string" where
  "form_name f = (case f of VV \<Rightarrow> ''vv'' | VX \<Rightarrow> ''vx'' | VI \<Rightarrow> ''vi'')"

definition arith_forms :: "aop \<Rightarrow> form list" where
  "arith_forms op =
     (if op \<in> {Vminu, Vmin, Vmaxu, Vmax, Vmul, Vmulh, Vmulhu, Vmulhsu, Vmacc, Vnmsac, Vmadd, Vnmsub}
      then [VV, VX]
      else if op = Vrsub then [VX, VI] else if op = Vsub then [VV, VX] else [VV, VX, VI])"

definition vreg :: "nat \<Rightarrow> string" where
  "vreg n = ''v'' @ dec n"

definition arith_text :: "aop \<Rightarrow> form \<Rightarrow> nat \<Rightarrow> nat \<Rightarrow> nat \<Rightarrow> int \<Rightarrow> string" where
  "arith_text op form vd vs2 vs1 imm =
     (let src = (case form of VV \<Rightarrow> vreg vs1 | VX \<Rightarrow> ''t1'' | VI \<Rightarrow> py_str imm) in
      if op = Vmv then
        (case form of VV \<Rightarrow> ''vmv.v.v '' | VX \<Rightarrow> ''vmv.v.x '' | VI \<Rightarrow> ''vmv.v.i '') @ vreg vd @ '', '' @ src
      else if op = Vmerge then
        (case form of VV \<Rightarrow> ''vmerge.vvm '' | VX \<Rightarrow> ''vmerge.vxm '' | VI \<Rightarrow> ''vmerge.vim '')
          @ vreg vd @ '', '' @ vreg vs2 @ '', '' @ src @ '', v0''
      else if op \<in> {Vmacc, Vnmsac, Vmadd, Vnmsub} then
        aop_name op @ ''.'' @ form_name form @ '' '' @ vreg vd @ '', ''
          @ (if form = VV then vreg vs1 else ''t1'') @ '', '' @ vreg vs2
      else aop_name op @ ''.'' @ form_name form @ '' '' @ vreg vd @ '', '' @ vreg vs2 @ '', '' @ src)"

definition arith :: "gen \<Rightarrow> gen res" where
  "arith g =
     rbind (choice aops g) (\<lambda>(op, g).
     rbind (choice (arith_forms op) g) (\<lambda>(form, g).
     rbind (if op = Vmerge \<or> op = Vmv then Inr (op = Vmv, g) else rand_lt 60 g) (\<lambda>(vm, g).
     rbind (group (lmul_regs g) [] (\<not> vm) g) (\<lambda>(vd, g).
     rbind (group (lmul_regs g) [] False g) (\<lambda>(vs2, g).
     rbind (group (lmul_regs g) [] False g) (\<lambda>(vs1, g).
     rbind (draw (2 ^ 32) g) (\<lambda>(x, g).
     rbind (draw 32 g) (\<lambda>(s, g).
     rbind (draw 32 g) (\<lambda>(u, g).
     let imm = (if is_shift op then int u else int s - 16);
         g = (if form = VX then li g ''t1'' (int x) else g) in
     rbind (reg_of vd) (\<lambda>vd. rbind (reg_of vs2) (\<lambda>vs2. rbind (reg_of vs1) (\<lambda>vs1.
     let g = emit g (arith_text op form vd vs2 vs1 imm @ (if vm \<or> op = Vmerge then [] else '', v0.t'')) in
     rbind (arith_model (g_m g) op vm form vd vs2 vs1 (int x) imm) (\<lambda>m.
     Inr (g\<lparr>g_m := m\<rparr>))))))))))))))"

definition cops :: "cop list" where
  "cops = [Vmseq, Vmsne, Vmsltu, Vmslt, Vmsleu, Vmsle, Vmsgtu, Vmsgt]"

definition cop_name :: "cop \<Rightarrow> string" where
  "cop_name op =
     (case op of Vmseq \<Rightarrow> ''vmseq'' | Vmsne \<Rightarrow> ''vmsne'' | Vmsltu \<Rightarrow> ''vmsltu'' | Vmslt \<Rightarrow> ''vmslt''
      | Vmsleu \<Rightarrow> ''vmsleu'' | Vmsle \<Rightarrow> ''vmsle'' | Vmsgtu \<Rightarrow> ''vmsgtu'' | Vmsgt \<Rightarrow> ''vmsgt'')"

definition compare_forms :: "cop \<Rightarrow> form list" where
  "compare_forms op =
     (if op = Vmsltu \<or> op = Vmslt then [VV, VX]
      else if op = Vmsgtu \<or> op = Vmsgt then [VX, VI] else [VV, VX, VI])"

definition compare :: "gen \<Rightarrow> gen res" where
  "compare g =
     rbind (choice cops g) (\<lambda>(op, g).
     rbind (choice (compare_forms op) g) (\<lambda>(form, g).
     rbind (rand_lt 60 g) (\<lambda>(vm, g).
     rbind (group (lmul_regs g) [] False g) (\<lambda>(vs2, g).
     rbind (group (lmul_regs g) [] False g) (\<lambda>(vs1, g).
     rbind (draw (if vm then 32 else 31) g) (\<lambda>(k, g).
     rbind (draw (2 ^ 32) g) (\<lambda>(x, g).
     rbind (draw 32 g) (\<lambda>(s, g).
     let vd = (if vm then k else k + 1); simm = int s - 16;
         g = (if form = VX then li g ''t1'' (int x) else g) in
     rbind (reg_of vs2) (\<lambda>vs2. rbind (reg_of vs1) (\<lambda>vs1.
     let src = (case form of VV \<Rightarrow> vreg vs1 | VX \<Rightarrow> ''t1'' | VI \<Rightarrow> py_str simm);
         g = emit g (cop_name op @ ''.'' @ form_name form @ '' '' @ vreg vd @ '', '' @ vreg vs2 @ '', ''
               @ src @ v0_t vm) in
     rbind (compare_model (g_m g) op vm form vd vs2 vs1 (int x) simm) (\<lambda>m.
     Inr (g\<lparr>g_m := m\<rparr>))))))))))))"

definition rops :: "rop list" where
  "rops = [Vredsum, Vredand, Vredor, Vredxor, Vredminu, Vredmin, Vredmaxu, Vredmax]"

definition rop_name :: "rop \<Rightarrow> string" where
  "rop_name op =
     (case op of Vredsum \<Rightarrow> ''vredsum'' | Vredand \<Rightarrow> ''vredand'' | Vredor \<Rightarrow> ''vredor'' | Vredxor \<Rightarrow> ''vredxor''
      | Vredminu \<Rightarrow> ''vredminu'' | Vredmin \<Rightarrow> ''vredmin'' | Vredmaxu \<Rightarrow> ''vredmaxu'' | Vredmax \<Rightarrow> ''vredmax'')"

definition reduce :: "gen \<Rightarrow> gen res" where
  "reduce g =
     rbind (choice rops g) (\<lambda>(op, g).
     rbind (rand_lt 60 g) (\<lambda>(vm, g).
     rbind (group (lmul_regs g) [] False g) (\<lambda>(vs2, g).
     rbind (draw 32 g) (\<lambda>(vd, g).
     rbind (draw 32 g) (\<lambda>(vs1, g).
     rbind (reg_of vs2) (\<lambda>vs2.
     let g = emit g (rop_name op @ ''.vs '' @ vreg vd @ '', '' @ vreg vs2 @ '', '' @ vreg vs1 @ v0_t vm) in
     rbind (reduce_model (g_m g) op vm vd vs2 vs1) (\<lambda>m.
     Inr (g\<lparr>g_m := m\<rparr>))))))))"

definition lops :: "lop list" where
  "lops = [Vmand, Vmnand, Vmandn, Vmxor, Vmor, Vmnor, Vmorn, Vmxnor]"

definition lop_name :: "lop \<Rightarrow> string" where
  "lop_name op =
     (case op of Vmand \<Rightarrow> ''vmand'' | Vmnand \<Rightarrow> ''vmnand'' | Vmandn \<Rightarrow> ''vmandn'' | Vmxor \<Rightarrow> ''vmxor''
      | Vmor \<Rightarrow> ''vmor'' | Vmnor \<Rightarrow> ''vmnor'' | Vmorn \<Rightarrow> ''vmorn'' | Vmxnor \<Rightarrow> ''vmxnor'')"

definition masklogic :: "gen \<Rightarrow> gen res" where
  "masklogic g =
     rbind (choice lops g) (\<lambda>(op, g).
     rbind (draw 32 g) (\<lambda>(vd, g). rbind (draw 32 g) (\<lambda>(vs2, g). rbind (draw 32 g) (\<lambda>(vs1, g).
     let g = emit g (lop_name op @ ''.mm '' @ vreg vd @ '', '' @ vreg vs2 @ '', '' @ vreg vs1) in
     rbind (masklogic_model (g_m g) op vd vs2 vs1) (\<lambda>m. Inr (g\<lparr>g_m := m\<rparr>))))))"

subsection \<open>Scalars, slides, moves\<close>

datatype skind = Cpop | First | Mvxs | Mvsx | Vid

definition scalars :: "gen \<Rightarrow> gen res" where
  "scalars g =
     rbind (choice [Cpop, First, Mvxs, Mvsx, Vid] g) (\<lambda>(k, g).
     rbind (rand_lt 60 g) (\<lambda>(vm, g).
     if k = Cpop \<or> k = First then
       rbind (draw 32 g) (\<lambda>(vs2, g).
       let g = emit g ((if k = Cpop then ''vcpop'' else ''vfirst'') @ ''.m t3, '' @ vreg vs2 @ v0_t vm) in
       rbind (act_list (g_m g) vm vs2) (\<lambda>act.
       Inr (save_scalar g ''t3'' (if k = Cpop then cpop_res act else first_res act))))
     else if k = Mvxs then
       rbind (draw 32 g) (\<lambda>(vs2, g).
       let g = emit g (''vmv.x.s t3, '' @ vreg vs2) in
       Inr (save_scalar g ''t3'' (mvxs_res (g_m g) vs2)))
     else if k = Mvsx then
       rbind (draw 32 g) (\<lambda>(vd, g). rbind (draw (2 ^ 32) g) (\<lambda>(x, g).
       let g = emit (li g ''t1'' (int x)) (''vmv.s.x '' @ vreg vd @ '', t1'') in
       Inr (g\<lparr>g_m := mvsx_model (g_m g) vd (int x)\<rparr>)))
     else
       rbind (group (lmul_regs g) [] (\<not> vm) g) (\<lambda>(vd, g).
       rbind (reg_of vd) (\<lambda>vd.
       let g = emit g (''vid.v '' @ vreg vd @ v0_t vm) in
       rbind (vid_model (g_m g) vm vd) (\<lambda>m. Inr (g\<lparr>g_m := m\<rparr>))))))"

text \<open>The text of a slide: the immediate form for half of the offsets below 32.\<close>

definition slide_by_off :: "string \<Rightarrow> gen \<Rightarrow> nat \<Rightarrow> nat \<Rightarrow> nat \<Rightarrow> string \<Rightarrow> gen res" where
  "slide_by_off name g vd vs2 off msk =
     rbind (if off < 32 then rand_lt 50 g else Inr (False, g)) (\<lambda>(vi, g).
       Inr (if vi then emit g (name @ ''.vi '' @ vreg vd @ '', '' @ vreg vs2 @ '', '' @ dec off @ msk)
            else emit (li g ''t1'' (int off)) (name @ ''.vx '' @ vreg vd @ '', '' @ vreg vs2 @ '', t1'' @ msk)))"

definition slide_by_x :: "string \<Rightarrow> gen \<Rightarrow> nat \<Rightarrow> nat \<Rightarrow> nat \<Rightarrow> string \<Rightarrow> gen res" where
  "slide_by_x name g vd vs2 x msk =
     Inr (emit (li g ''t1'' (int x)) (name @ ''.vx '' @ vreg vd @ '', '' @ vreg vs2 @ '', t1'' @ msk))"

definition slide_text :: "slide_kind \<Rightarrow> gen \<Rightarrow> nat \<Rightarrow> nat \<Rightarrow> nat \<Rightarrow> nat \<Rightarrow> string \<Rightarrow> gen res" where
  "slide_text k g vd vs2 off x msk =
     (case k of
        SlideUp \<Rightarrow> slide_by_off ''vslideup'' g vd vs2 off msk
      | SlideDown \<Rightarrow> slide_by_off ''vslidedown'' g vd vs2 off msk
      | Slide1Up \<Rightarrow> slide_by_x ''vslide1up'' g vd vs2 x msk
      | Slide1Down \<Rightarrow> slide_by_x ''vslide1down'' g vd vs2 x msk)"

definition group_of :: "(nat \<times> nat list) option \<Rightarrow> (nat \<times> nat list) res" where
  "group_of r = (case r of None \<Rightarrow> Inl TypeError | Some p \<Rightarrow> Inr p)"

definition slide :: "gen \<Rightarrow> gen res" where
  "slide g =
     rbind (choice [SlideUp, SlideDown, Slide1Up, Slide1Down] g) (\<lambda>(k, g).
     rbind (rand_lt 60 g) (\<lambda>(vm, g).
     rbind (group (lmul_regs g) [] False g) (\<lambda>(r2, g).
     rbind (group_of r2) (\<lambda>(vs2, rng2).
     rbind (group (lmul_regs g) (if k = SlideUp \<or> k = Slide1Up then [rng2] else []) (\<not> vm) g) (\<lambda>(rd, g).
     case rd of None \<Rightarrow> Inr g | Some (vd, _) \<Rightarrow>
       rbind (draw (vlmax (g_m g) (m_sew (g_m g)) (m_lmul (g_m g)) + 2) g) (\<lambda>(q, g).
       rbind (choice [0, 1, 2, q] g) (\<lambda>(off, g).
       rbind (draw (2 ^ 32) g) (\<lambda>(x, g).
       rbind (slide_text k g vd vs2 off x (v0_t vm)) (\<lambda>g.
       rbind (slide_model (g_m g) k vm vd vs2 off (int x)) (\<lambda>m.
       Inr (g\<lparr>g_m := m\<rparr>)))))))))))"

definition movnr :: "gen \<Rightarrow> gen res" where
  "movnr g =
     rbind (choice [1, 2, 4, 8] g) (\<lambda>(n, g).
     rbind (draw (32 div n) g) (\<lambda>(a, g). rbind (draw (32 div n) g) (\<lambda>(b, g).
     let g = emit g (''vmv'' @ dec n @ ''r.v '' @ vreg (n * a) @ '', '' @ vreg (n * b))
     in Inr (g\<lparr>g_m := movnr_model (g_m g) n (n * a) (n * b)\<rparr>))))"

subsection \<open>Memory instructions\<close>

datatype mkind = MUnit | MStride | MIndex | MMask | MWhole | MFf

definition memop_strided :: "mkind \<Rightarrow> bool \<Rightarrow> bool \<Rightarrow> nat \<Rightarrow> gen \<Rightarrow> gen res" where
  "memop_strided kind store vm base g =
     rbind (choice sews g) (\<lambda>(eew, g).
     let (ok, emul) = emul_ok eew (m_sew (g_m g)) (m_lmul (g_m g)) in
     if \<not> ok then Inr g
     else rbind (group (if emul \<ge> 1 then emul else 1) [] (\<not> vm \<and> \<not> store) g) (\<lambda>(rd, g).
       case rd of None \<Rightarrow> Inr g | Some (vd, _) \<Rightarrow>
         rbind (if kind = MStride then draw 5 g else Inr (1, g)) (\<lambda>(k, g).
         let stride = (eew div 8) * k;
             g = (if kind = MStride then
                    emit (li g ''a1'' (int stride))
                      ((if store then ''vsse'' else ''vlse'') @ dec eew @ ''.v '' @ vreg vd @ '', (a0), a1'' @ v0_t vm)
                  else
                    emit g ((if store then ''vse'' else ''vle'') @ dec eew @ (if kind = MFf then ''ff'' else [])
                      @ ''.v '' @ vreg vd @ '', (a0)'' @ v0_t vm)) in
         rbind (strided_model (g_m g) store vm eew vd base stride) (\<lambda>m. Inr (g\<lparr>g_m := m\<rparr>)))))"

definition memop_index :: "bool \<Rightarrow> bool \<Rightarrow> nat \<Rightarrow> gen \<Rightarrow> gen res" where
  "memop_index store vm base g =
     rbind (choice sews g) (\<lambda>(ieew, g).
     let (ok, iemul) = emul_ok ieew (m_sew (g_m g)) (m_lmul (g_m g)) in
     if \<not> ok then Inr g
     else rbind (group (if iemul \<ge> 1 then iemul else 1) [] False g) (\<lambda>(ri, g).
       let tab = idx_tab (m_vlen (g_m g)) ieew; g = li g ''a2'' (int tab) in
       rbind (group_of ri) (\<lambda>(vix, rngi).
       let g = emit g (''vl'' @ dec (group_size iemul) @ ''re'' @ dec ieew @ ''.v '' @ vreg vix @ '', (a2)'');
           g = g\<lparr>g_m := load_index (g_m g) vix (group_size iemul) tab\<rparr> in
       rbind (group (lmul_regs g) [rngi] (\<not> vm \<and> \<not> store) g) (\<lambda>(rd, g).
       case rd of None \<Rightarrow> Inr g | Some (vd, _) \<Rightarrow>
         rbind (choice [''u'', ''o''] g) (\<lambda>(op, g).
         let g = emit g (''v'' @ (if store then ''s'' else ''l'') @ op @ ''xei'' @ dec ieew @ ''.v '' @ vreg vd
                    @ '', (a0), '' @ vreg vix @ v0_t vm) in
         rbind (indexed_model (g_m g) store vm ieew vd vix base) (\<lambda>m. Inr (g\<lparr>g_m := m\<rparr>)))))))"

definition memop_mask :: "bool \<Rightarrow> nat \<Rightarrow> gen \<Rightarrow> gen res" where
  "memop_mask store base g =
     rbind (draw 32 g) (\<lambda>(vd, g).
     let g = emit g ((if store then ''vsm'' else ''vlm'') @ ''.v '' @ vreg vd @ '', (a0)'') in
     rbind (maskmem_model (g_m g) store vd base) (\<lambda>m. Inr (g\<lparr>g_m := m\<rparr>)))"

definition memop_whole :: "bool \<Rightarrow> nat \<Rightarrow> gen \<Rightarrow> gen res" where
  "memop_whole store base g =
     rbind (choice [1, 2, 4, 8] g) (\<lambda>(n, g).
     rbind (draw (32 div n) g) (\<lambda>(a, g).
     rbind (if store then Inr (emit g (''vs'' @ dec n @ ''r.v '' @ vreg (n * a) @ '', (a0)''))
            else rbind (choice sews g) (\<lambda>(e, g).
              Inr (emit g (''vl'' @ dec n @ ''re'' @ dec e @ ''.v '' @ vreg (n * a) @ '', (a0)'')))) (\<lambda>g.
     Inr (g\<lparr>g_m := whole_model (g_m g) store n (n * a) base\<rparr>))))"

definition memop :: "gen \<Rightarrow> gen res" where
  "memop g =
     rbind (choice [MUnit, MUnit, MStride, MIndex, MMask, MWhole, MFf] g) (\<lambda>(kind, g).
     rbind (rand_lt 45 g) (\<lambda>(st, g).
     let store = (st \<and> kind \<noteq> MFf) in
     rbind (if kind \<in> {MUnit, MStride, MIndex, MFf} then rand_lt 60 g else Inr (True, g)) (\<lambda>(vm, g).
     rbind (draw 256 g) (\<lambda>(k, g).
     let base = DATA + 4 * k; g = li g ''a0'' (int base) in
     case kind of
       MIndex \<Rightarrow> memop_index store vm base g
     | MMask \<Rightarrow> memop_mask store base g
     | MWhole \<Rightarrow> memop_whole store base g
     | _ \<Rightarrow> memop_strided kind store vm base g))))"

subsection \<open>The whole program\<close>

datatype gkind = KVset | KArith | KCompare | KReduce | KMasklogic | KScalars | KSlide | KMovnr | KMemop

definition gkinds :: "gkind list" where
  "gkinds = [KVset, KArith, KArith, KArith, KCompare, KReduce, KMasklogic, KScalars, KSlide, KMovnr, KMemop, KMemop]"

definition gen_op :: "gkind \<Rightarrow> gen \<Rightarrow> gen res" where
  "gen_op k g =
     (case k of KVset \<Rightarrow> vset g | KArith \<Rightarrow> arith g | KCompare \<Rightarrow> compare g | KReduce \<Rightarrow> reduce g
      | KMasklogic \<Rightarrow> masklogic g | KScalars \<Rightarrow> scalars g | KSlide \<Rightarrow> slide g | KMovnr \<Rightarrow> movnr g | KMemop \<Rightarrow> memop g)"

fun gen_ops :: "nat \<Rightarrow> gen \<Rightarrow> gen res" where
  "gen_ops 0 g = Inr g"
| "gen_ops (Suc n) g = rbind (choice gkinds g) (\<lambda>(k, g). rbind (gen_op k g) (gen_ops n))"

definition build_head :: "gen \<Rightarrow> gen" where
  "build_head g =
     (let g = g\<lparr>g_asm := g_asm g @ [''    .section .text.init'', ''    .globl _start'', ''_start:'',
                ''    li t0, 0x200'', ''    csrs mstatus, t0          # mstatus.VS = Initial'',
                ''    li s1, '' @ dec OUT_S]\<rparr>;
          g = foldl (\<lambda>g reg. emit (li g ''a0'' (int (DATA + reg * m_vlenb (g_m g))))
                 (''vl8re32.v '' @ vreg reg @ '', (a0)'')) g [0, 8, 16, 24]
      in g\<lparr>g_m := (g_m g)\<lparr>m_v := py_slice DATA (32 * m_vlenb (g_m g)) (m_mem (g_m g))\<rparr>\<rparr>)"

definition build_tail :: "gen \<Rightarrow> gen" where
  "build_tail g =
     (let g = foldl (\<lambda>g reg. emit (li g ''a0'' (int (OUT_V + reg * m_vlenb (g_m g))))
                 (''vs1r.v '' @ vreg reg @ '', (a0)'')) g [0..<32];
          g = g\<lparr>g_m := (g_m g)\<lparr>m_mem := slice_set OUT_V (32 * m_vlenb (g_m g)) (m_v (g_m g)) (m_mem (g_m g))\<rparr>\<rparr>
      in g\<lparr>g_asm := g_asm g @ [''    li t0, 0x20000000'', ''    sw zero, 0(t0)'', ''1:  j 1b'']\<rparr>)"

text \<open>The words of memory from \<open>lo\<close> below \<open>hi\<close>, as \<open>range(lo, hi, 4)\<close> reads them.\<close>

definition mem_words :: "byte list \<Rightarrow> nat \<Rightarrow> nat \<Rightarrow> int list" where
  "mem_words mem lo hi = map (\<lambda>k. from_bytes_le (py_slice (lo + 4 * k) 4 mem)) [0..<(hi - lo + 3) div 4]"

definition vdata :: "byte list \<Rightarrow> string list" where
  "vdata init = ''    .section .vdata, \"aw\"'' #
     map (\<lambda>w. ''    .word 0x'' @ fmt_0x 8 (nat w)) (mem_words init DATA OUT_V)"

definition build :: "nat \<Rightarrow> gen \<Rightarrow> (string \<times> gen) res" where
  "build count g =
     rbind (vset (build_head g)) (\<lambda>g.
     rbind (gen_ops count g) (\<lambda>g.
     let g = build_tail g in
     Inr (py_join ''\<newline>'' (g_asm g @ vdata (g_init g)) @ ''\<newline>'', g)))"

text \<open>The two files \<open>main\<close> writes: \<open>prog.S\<close> and \<open>expect.hex\<close>.\<close>

definition expect_hex :: "byte list \<Rightarrow> string" where
  "expect_hex mem = concat (map (\<lambda>w. fmt_0x 8 (nat w) @ ''\<newline>'') (mem_words mem DATA END))"

definition vgen_main :: "nat list \<Rightarrow> nat \<Rightarrow> nat \<Rightarrow> (string \<times> string) res" where
  "vgen_main draws count vlen =
     rbind (gen_init draws vlen) (\<lambda>g.
     rbind (build count g) (\<lambda>(text, g).
     Inr (text, expect_hex (m_mem (g_m g)))))"

end
