(* ===== verification/Vec_Safety.thy ===== *)
theory Vec_Safety
  imports Vec_Gen
begin

text \<open>
  The generator of \<^verbatim>\<open>tools/vtest/vgen.py\<close> on every run: it raises nothing but the
  \<open>TypeError\<close> of a register group that could not be allocated, keeps the model well formed,
  never writes memory outside the data area and its own result slots, and dumps the final
  registers. The rules \<open>draw_bind\<close>, \<open>choice_bind\<close>, \<open>rand_bind\<close> and \<open>group_bind\<close> walk through the
  random choices of a method; \<open>reg_step\<close> is what one instruction may do to the model and
  \<open>gen_step\<close> what one method may do to the generator.
\<close>

subsection \<open>The instructions as steps of the model\<close>

definition reg_step :: "vmodel \<Rightarrow> vmodel \<Rightarrow> bool" where
  "reg_step m m' \<longleftrightarrow> wf_model m' \<and> same_ctl m m' \<and> data_only m m'"

lemma reg_step_refl: "wf_model m \<Longrightarrow> reg_step m m"
  by (simp add: reg_step_def)

lemma reg_step_trans: "reg_step a b \<Longrightarrow> reg_step b c \<Longrightarrow> reg_step a c"
  using data_only_trans same_ctl_trans by (auto simp: reg_step_def)

lemma reg_stepD: "reg_step m m' \<Longrightarrow> wf_model m'" "reg_step m m' \<Longrightarrow> same_ctl m m'"
  by (simp_all add: reg_step_def)

lemma reg_step_put_all:
  assumes m: "wf_model m" and g: "vd + group_size (m_lmul m) \<le> 32" and hi: "hi \<le> m_vl m"
  shows "reg_step m (write_elems m vd (m_sew m) (map (\<lambda>i. (i, h i)) (filter P [lo..<hi])))"
proof -
  have "\<forall>i \<in> fst ` set (map (\<lambda>i. (i, h i)) (filter P [lo..<hi])). elem_ok m vd i (m_sew m)"
    using elem_ok_lmul [OF m g] wf_vl_vlmax [OF m] hi by auto
  from wf_model_put_all [OF m this] show ?thesis
    by (simp add: reg_step_def write_elems_put_all put_all_frame same_ctl_def data_only_def)
qed

lemma reg_step_bits: "wf_model m \<Longrightarrow> reg_step m (bits.put_all vd m kvs)"
  by (simp add: reg_step_def wf_bits_put_all same_ctl_def data_only_def bits_put_all_frame)

lemma arith_ok:
  "wf_model m \<Longrightarrow> vd + group_size (m_lmul m) \<le> 32 \<Longrightarrow>
    res_ok E (arith_model m op vm form vd vs2 vs1 x imm) (reg_step m)"
  by (simp add: arith_model_eq reg_step_put_all)

lemma compare_ok: "wf_model m \<Longrightarrow> vd < 32 \<Longrightarrow> res_ok E (compare_model m op vm form vd vs2 vs1 x simm) (reg_step m)"
  by (simp add: compare_model_eq reg_step_bits)

lemma masklogic_ok:
  "wf_model m \<Longrightarrow> vd < 32 \<Longrightarrow> vs2 < 32 \<Longrightarrow> vs1 < 32 \<Longrightarrow> res_ok E (masklogic_model m op vd vs2 vs1) (reg_step m)"
  by (simp add: masklogic_model_eq reg_step_bits)

lemma slide_ok:
  "wf_model m \<Longrightarrow> vd + group_size (m_lmul m) \<le> 32 \<Longrightarrow> res_ok E (slide_model m k vm vd vs2 off x) (reg_step m)"
  by (simp add: slide_model_eq reg_step_put_all)

lemma reg_step_eset: "wf_model m \<Longrightarrow> elem_ok m vd i eew \<Longrightarrow> reg_step m (eset m vd i eew w)"
  by (simp add: reg_step_def same_ctl_def data_only_eset)

lemma elem_ok_sew: "wf_model m \<Longrightarrow> reg < 32 \<Longrightarrow> elem_ok m reg 0 (m_sew m)"
  by (rule elem_ok_first) (simp_all add: wf_model_def wf_vtype_def)

lemma reduce_ok:
  assumes m: "wf_model m" and vd: "vd < 32"
  shows "res_ok E (reduce_model m op vm vd vs2 vs1) (reg_step m)"
proof -
  have "res_ok E (rfold (reduce_step m op vm vs2) a [0..<m_vl m]) (\<lambda>_. True)" for a
    by (rule res_ok_rfold) (auto simp: reduce_step_def active_ok [OF m])
  then show ?thesis
    using reg_step_eset [OF m elem_ok_sew [OF m vd]]
    by (auto simp: reduce_model_def reg_step_refl [OF m] intro!: res_ok_rbind)
qed

lemma mvsx_ok: "wf_model m \<Longrightarrow> vd < 32 \<Longrightarrow> reg_step m (mvsx_model m vd x)"
  by (simp add: mvsx_model_def reg_step_refl reg_step_eset elem_ok_sew)

lemma vid_ok: "wf_model m \<Longrightarrow> vd + group_size (m_lmul m) \<le> 32 \<Longrightarrow> res_ok E (vid_model m vm vd) (reg_step m)"
  using vid_safe [of m vd vm] by (auto simp: reg_step_def data_only_same_mem)

lemma movnr_ok: "wf_model m \<Longrightarrow> vd + n \<le> 32 \<Longrightarrow> vs2 + n \<le> 32 \<Longrightarrow> reg_step m (movnr_model m n vd vs2)"
  using movnr_safe [of m vd n vs2] by (simp add: reg_step_def data_only_same_mem)

lemma strided_step_ok:
  "wf_model m \<Longrightarrow> strided_ok m eew vd base stride \<Longrightarrow>
    res_ok E (strided_model m store vm eew vd base stride) (reg_step m)"
  using strided_safe [of m eew vd base stride store vm] by (auto simp: reg_step_def)

lemma indexed_step_ok:
  "wf_model m \<Longrightarrow> indexed_ok m store ieew vd vix base \<Longrightarrow>
    res_ok E (indexed_model m store vm ieew vd vix base) (reg_step m)"
  using indexed_safe [of m store ieew vd vix base vm] by (auto simp: reg_step_def)

lemma maskmem_ok:
  "wf_model m \<Longrightarrow> vd < 32 \<Longrightarrow> DATA \<le> base \<Longrightarrow> base \<le> DATA + 1020 \<Longrightarrow>
    res_ok E (maskmem_model m store vd base) (reg_step m)"
  using maskmem_safe [of m vd base store] by (auto simp: reg_step_def)

lemma whole_ok:
  "wf_model m \<Longrightarrow> vd + n \<le> 32 \<Longrightarrow> n \<le> 8 \<Longrightarrow> DATA \<le> base \<Longrightarrow> base \<le> DATA + 1020 \<Longrightarrow>
    reg_step m (whole_model m store n vd base)"
  using whole_safe [of m vd n base store] by (simp add: reg_step_def)

subsection \<open>Random choices\<close>

definition gen_errors :: "py_error set" where
  "gen_errors = {NeedDraws, TypeError}"

lemma gen_errors_simps [simp]: "NeedDraws \<in> gen_errors" "TypeError \<in> gen_errors"
  by (simp_all add: gen_errors_def)

lemma draw_bind:
  assumes "0 < n" "\<And>k ds. k < n \<Longrightarrow> res_ok gen_errors (f k (g\<lparr>g_rng := ds\<rparr>)) Q"
  shows "res_ok gen_errors (rbind (draw n g) (case_prod f)) Q"
  using assms by (cases "g_rng g") (simp_all add: draw_def)

lemma choice_bind:
  assumes "xs \<noteq> []" "\<And>x ds. x \<in> set xs \<Longrightarrow> res_ok gen_errors (f x (g\<lparr>g_rng := ds\<rparr>)) Q"
  shows "res_ok gen_errors (rbind (choice xs g) (case_prod f)) Q"
proof -
  have "rbind (choice xs g) (case_prod f) = rbind (draw (length xs) g) (\<lambda>(k, g). f (xs ! k) g)"
    unfolding choice_def by (cases "draw (length xs) g") auto
  then show ?thesis using assms by (auto intro!: draw_bind)
qed

lemma rand_bind:
  assumes "\<And>b ds. res_ok gen_errors (f b (g\<lparr>g_rng := ds\<rparr>)) Q"
  shows "res_ok gen_errors (rbind (rand_lt pct g) (case_prod f)) Q"
proof -
  have "rbind (rand_lt pct g) (case_prod f) = rbind (draw 100 g) (\<lambda>(k, g). f (k < pct) g)"
    unfolding rand_lt_def by (cases "draw 100 g") auto
  then show ?thesis using assms by (auto intro!: draw_bind)
qed

text \<open>
  A group that \<open>group\<close> returns is aligned to its size, fits into the register file, misses \<open>v0\<close>
  when asked to and misses every range to avoid.
\<close>

definition legal_group :: "nat \<Rightarrow> nat list list \<Rightarrow> bool \<Rightarrow> nat \<times> nat list \<Rightarrow> bool" where
  "legal_group n avoid not_v0 p \<longleftrightarrow>
     (case p of (r, rng) \<Rightarrow>
        rng = [r..<r + n] \<and> r + n \<le> 32 \<and> n dvd r \<and> (not_v0 \<longrightarrow> 0 < r) \<and>
        list_all (\<lambda>a. set a \<inter> {r..<r + n} = {}) avoid)"

lemma group_try_bind:
  assumes n: "n \<in> {1, 2, 4, 8}"
    and f: "\<And>r ds. (case r of None \<Rightarrow> True | Some p \<Rightarrow> legal_group n avoid not_v0 p) \<Longrightarrow>
      res_ok gen_errors (f (r, g\<lparr>g_rng := ds\<rparr>)) Q"
  shows "res_ok gen_errors (rbind (group_try tries n avoid not_v0 g) f) Q"
  using f
proof (induction tries arbitrary: g)
  case 0
  from 0 [of None "g_rng g"] show ?case by simp
next
  case (Suc tries)
  show ?case
  proof (cases "g_rng g")
    case (Cons x ds)
    let ?k = "x mod ((32 + n - 1) div n)" and ?g = "g\<lparr>g_rng := ds\<rparr>"
    have d: "draw ((32 + n - 1) div n) g = Inr (?k, ?g)" using n Cons by (auto simp: draw_def)
    have IH: "res_ok gen_errors (rbind (group_try tries n avoid not_v0 ?g) f) Q"
      using Suc.prems by (intro Suc.IH) simp
    have "n * ?k + n \<le> 32"
    proof -
      have "?k < 32 div n" using n by auto
      then have "n * Suc ?k \<le> n * (32 div n)" by (intro mult_left_mono) auto
      then show ?thesis using n by auto
    qed
    then have "legal_group n avoid not_v0 (n * ?k, [n * ?k..<n * ?k + n])"
      if "\<not> (not_v0 \<and> 0 \<in> set [n * ?k..<n * ?k + n])"
        "\<not> list_ex (\<lambda>a. list_ex (\<lambda>x. x \<in> set a) [n * ?k..<n * ?k + n]) avoid"
      using that n by (auto simp: legal_group_def list_ex_iff list_all_iff)
    then show ?thesis using IH Suc.prems [of "Some (n * ?k, [n * ?k..<n * ?k + n])" ds]
      unfolding group_try.simps d rbind_simps prod.case Let_def by (auto simp del: set_upt)
  qed (use n in \<open>auto simp: draw_def\<close>)
qed

lemma group_bind:
  assumes "group_size emul \<in> {1, 2, 4, 8}"
    and "\<And>ds. res_ok gen_errors (f None (g\<lparr>g_rng := ds\<rparr>)) Q"
    and "\<And>r rng ds. legal_group (group_size emul) avoid not_v0 (r, rng) \<Longrightarrow>
      res_ok gen_errors (f (Some (r, rng)) (g\<lparr>g_rng := ds\<rparr>)) Q"
  shows "res_ok gen_errors (rbind (group emul avoid not_v0 g) (case_prod f)) Q"
  unfolding group_def
  by (rule group_try_bind [OF assms(1)]) (auto split: option.splits intro: assms(2,3))

subsection \<open>What a method does to the generator\<close>

definition gen_step :: "gen \<Rightarrow> gen \<Rightarrow> bool" where
  "gen_step g g' \<longleftrightarrow>
     wf_model (g_m g') \<and> m_vlen (g_m g') = m_vlen (g_m g) \<and> g_init g' = g_init g \<and>
     g_slots g \<le> g_slots g' \<and> g_slots g' \<le> Suc (g_slots g) \<and>
     (\<forall>k < END. (k < DATA \<or> INDEX \<le> k) \<longrightarrow> (k < OUT_S + 4 * g_slots g \<or> OUT_S + 4 * g_slots g' \<le> k) \<longrightarrow>
        m_mem (g_m g') ! k = m_mem (g_m g) ! k)"

definition tab_ok :: "vmodel \<Rightarrow> bool" where
  "tab_ok m \<longleftrightarrow> (\<forall>eew \<in> set sews. \<forall>i < m_vlen m.
     mget m (idx_tab (m_vlen m) eew + i * (eew div 8)) (eew div 8) < 256)"

definition gen_ok :: "gen \<Rightarrow> bool" where
  "gen_ok g \<longleftrightarrow> wf_model (g_m g) \<and> tab_ok (g_m g) \<and> g_slots g < 1024"

lemma idx_tab_bounds:
  assumes "vlen \<in> set vlens" "eew \<in> set sews" "i < vlen"
  shows "INDEX \<le> idx_tab vlen eew" "idx_tab vlen eew + i * (eew div 8) + eew div 8 \<le> OUT_V"
  using assms by (auto simp: vlens_def sews_def idx_tab_def layout_defs)

lemma mget_cong:
  assumes "length (m_mem m') = length (m_mem m)" "a + n \<le> length (m_mem m)"
    and "\<forall>k. a \<le> k \<and> k < a + n \<longrightarrow> m_mem m' ! k = m_mem m ! k"
  shows "mget m' a n = mget m a n"
proof -
  have "py_slice a n (m_mem m') = py_slice a n (m_mem m)"
    using assms by (intro nth_equalityI) (auto simp: bytes_simps py_slice_def)
  then show ?thesis by (simp add: mget_def)
qed

lemma tab_ok_cong:
  assumes "wf_model m" "wf_model m'" "m_vlen m' = m_vlen m"
    and "\<forall>k. INDEX \<le> k \<and> k < OUT_V \<longrightarrow> m_mem m' ! k = m_mem m ! k" and t: "tab_ok m"
  shows "tab_ok m'"
proof -
  have "mget m' (idx_tab (m_vlen m) eew + i * (eew div 8)) (eew div 8) =
      mget m (idx_tab (m_vlen m) eew + i * (eew div 8)) (eew div 8)"
    if "eew \<in> set sews" "i < m_vlen m" for eew i
    using assms(1-4) idx_tab_bounds [OF _ that] wf_mem_length [OF assms(1)] wf_mem_length [OF assms(2)]
    by (intro mget_cong) (auto simp: wf_model_def layout_defs)
  then show ?thesis using t assms(3) by (simp add: tab_ok_def)
qed

lemma gen_step_tab:
  assumes s: "gen_step g g'" and w: "wf_model (g_m g)" and t: "tab_ok (g_m g)"
  shows "tab_ok (g_m g')"
proof (rule tab_ok_cong [OF w _ _ _ t])
  show "\<forall>k. INDEX \<le> k \<and> k < OUT_V \<longrightarrow> m_mem (g_m g') ! k = m_mem (g_m g) ! k"
  proof (intro allI impI)
    fix k assume "INDEX \<le> k \<and> k < OUT_V"
    then have "k < END" "INDEX \<le> k" "k < OUT_S + 4 * g_slots g" by (auto simp: layout_defs)
    with s show "m_mem (g_m g') ! k = m_mem (g_m g) ! k" unfolding gen_step_def by blast
  qed
qed (use s in \<open>auto simp: gen_step_def\<close>)

text \<open>The state a method works on: the same generator up to its text and random source.\<close>

definition same_gen :: "gen \<Rightarrow> gen \<Rightarrow> bool" where
  "same_gen g g' \<longleftrightarrow> g_m g' = g_m g \<and> g_init g' = g_init g \<and> g_slots g' = g_slots g"

lemma emit_sel [simp]:
  "g_m (emit g s) = g_m g" "g_init (emit g s) = g_init g" "g_slots (emit g s) = g_slots g"
  "g_rng (emit g s) = g_rng g"
  by (simp_all add: emit_def)

lemma li_sel [simp]:
  "g_m (li g r v) = g_m g" "g_init (li g r v) = g_init g" "g_slots (li g r v) = g_slots g"
  "g_rng (li g r v) = g_rng g"
  by (simp_all add: li_def)

lemma gen_step_model:
  "reg_step (g_m g) (g_m g') \<Longrightarrow> g_init g' = g_init g \<Longrightarrow> g_slots g' = g_slots g \<Longrightarrow> gen_step g g'"
  by (auto simp: gen_step_def reg_step_def same_ctl_def data_only_def wf_model_def)

lemma gen_step_upd:
  "reg_step (g_m g) m \<Longrightarrow> g_init g1 = g_init g \<Longrightarrow> g_slots g1 = g_slots g \<Longrightarrow> gen_step g (g1\<lparr>g_m := m\<rparr>)"
  by (rule gen_step_model) simp_all

lemma gen_step_refl: "wf_model (g_m g) \<Longrightarrow> g_m g' = g_m g \<Longrightarrow> g_init g' = g_init g \<Longrightarrow> g_slots g' = g_slots g \<Longrightarrow> gen_step g g'"
  by (rule gen_step_model) (simp_all add: reg_step_refl)

text \<open>Writing the next result slot, possibly after a change of the vector type.\<close>

lemma gen_step_save:
  assumes w: "wf_model (g_m g1)" and s: "g_slots g < 1024"
    and e: "m_mem (g_m g1) = m_mem (g_m g)" "m_vlen (g_m g1) = m_vlen (g_m g)" "g_init g1 = g_init g"
      "g_slots g1 = g_slots g"
  shows "gen_step g (save_scalar g1 r v)"
proof -
  let ?a = "OUT_S + 4 * g_slots g"
  have a: "?a + 4 \<le> END" using s by (simp add: layout_defs)
  then have "wf_model (mset (g_m g1) ?a 4 v)" using w by (simp add: wf_mem_length)
  moreover have "m_mem (mset (g_m g1) ?a 4 v) ! k = m_mem (g_m g) ! k"
    if "k < END" "k < ?a \<or> ?a + 4 \<le> k" for k
    using a that nth_mset_outside [of ?a 4 "g_m g1" k v] wf_mem_length [OF w] by (simp add: e(1))
  ultimately show ?thesis
    using e by (auto simp: gen_step_def save_scalar_def Let_def)
qed

lemma group_size_lmul: "wf_model m \<Longrightarrow> group_size (m_lmul m) \<in> {1, 2, 4, 8}"
  by (auto simp: wf_model_def wf_vtype_def lmuls_def group_size_def)

lemma lmul_regs_group: "wf_model (g_m g) \<Longrightarrow> group_size (lmul_regs g) = group_size (m_lmul (g_m g))"
  by (auto simp: lmul_regs_def wf_model_def wf_vtype_def lmuls_def group_size_def)

lemma lmul_regs_cong: "g_m g' = g_m g \<Longrightarrow> lmul_regs g' = lmul_regs g"
  by (simp add: lmul_regs_def)

lemma lmul_group_bind:
  assumes "wf_model (g_m g)"
    and "\<And>ds. res_ok gen_errors (f None (g\<lparr>g_rng := ds\<rparr>)) Q"
    and "\<And>r rng ds. legal_group (group_size (m_lmul (g_m g))) avoid not_v0 (r, rng) \<Longrightarrow>
      res_ok gen_errors (f (Some (r, rng)) (g\<lparr>g_rng := ds\<rparr>)) Q"
  shows "res_ok gen_errors (rbind (group (lmul_regs g) avoid not_v0 g) (case_prod f)) Q"
  using assms group_size_lmul [OF assms(1)]
  by (intro group_bind) (simp_all add: lmul_regs_group)

lemma if_bind:
  assumes "b \<Longrightarrow> res_ok E (rbind r f) Q" "\<not> b \<Longrightarrow> res_ok E (rbind r' f) Q"
  shows "res_ok E (rbind (if b then r else r') f) Q"
  using assms by simp

lemma model_bind:
  assumes "res_ok gen_errors r (reg_step (g_m g))"
    and "\<And>m. reg_step (g_m g) m \<Longrightarrow> res_ok gen_errors (f m) Q"
  shows "res_ok gen_errors (rbind r f) Q"
  using assms by (rule res_ok_rbind)

lemma value_bind: "res_ok E (f x g) Q \<Longrightarrow> res_ok E (rbind (Inr (x, g)) (case_prod f)) Q"
  by simp

lemma assoc_bind:
  "res_ok E (rbind r (\<lambda>(x, g). rbind (f x g) h)) Q \<Longrightarrow> res_ok E (rbind (rbind r (case_prod f)) h) Q"
  by (cases r) auto

lemma reg_of_bind:
  "res_ok gen_errors (rbind (reg_of None) f) Q"
  "res_ok gen_errors (f v) Q \<Longrightarrow> res_ok gen_errors (rbind (reg_of (Some (v, rng))) f) Q"
  by (simp_all add: reg_of_def)

lemma group_of_bind:
  "res_ok gen_errors (rbind (group_of None) f) Q"
  "res_ok gen_errors (h v rng) Q \<Longrightarrow> res_ok gen_errors (rbind (group_of (Some (v, rng))) (case_prod h)) Q"
  by (simp_all add: group_of_def)

lemma case_ok:
  "res_ok E r Q \<Longrightarrow> res_ok E (case None of None \<Rightarrow> r | Some p \<Rightarrow> f p) Q"
  "res_ok E (h a b) Q \<Longrightarrow> res_ok E (case Some (a, b) of None \<Rightarrow> r | Some p \<Rightarrow> case_prod h p) Q"
  by simp_all

lemmas walk = draw_bind choice_bind rand_bind if_bind if_ok value_bind lmul_group_bind
  reg_of_bind group_of_bind case_ok assoc_bind

lemma legal_group_fits: "legal_group n avoid b (r, rng) \<Longrightarrow> r + n \<le> 32"
  by (simp add: legal_group_def)

subsection \<open>Each method is a step\<close>

lemma choices_nonempty [simp]: "aops \<noteq> []" "arith_forms op \<noteq> []" "cops \<noteq> []" "compare_forms cop \<noteq> []"
  "rops \<noteq> []" "lops \<noteq> []" "sews \<noteq> []" "gkinds \<noteq> []"
  by (simp_all add: aops_def arith_forms_def cops_def compare_forms_def rops_def lops_def sews_def gkinds_def)

lemma masklogic_step: "gen_ok g \<Longrightarrow> res_ok gen_errors (masklogic g) (gen_step g)"
  unfolding masklogic_def Let_def gen_ok_def
  by (intro walk res_ok_rbind [OF masklogic_ok]) (auto intro: gen_step_model)

lemma reduce_step_ok: "gen_ok g \<Longrightarrow> res_ok gen_errors (reduce g) (gen_step g)"
  unfolding reduce_def Let_def gen_ok_def
  by (intro walk res_ok_rbind [OF reduce_ok]) (auto intro!: gen_step_model)

lemma arith_step: "gen_ok g \<Longrightarrow> res_ok gen_errors (arith g) (gen_step g)"
  unfolding arith_def Let_def gen_ok_def
  by (intro walk res_ok_rbind [OF arith_ok]) (auto intro!: gen_step_model dest: legal_group_fits)

lemma compare_step: "gen_ok g \<Longrightarrow> res_ok gen_errors (compare g) (gen_step g)"
  unfolding compare_def Let_def gen_ok_def
  by (intro walk res_ok_rbind [OF compare_ok]) (auto intro!: gen_step_model split: if_splits)

lemma act_list_bind:
  "wf_model m \<Longrightarrow> vs2 < 32 \<Longrightarrow> (\<And>act. res_ok E (f act) Q) \<Longrightarrow> res_ok E (rbind (act_list m vm vs2) f) Q"
  by (simp add: act_list_eq)

lemma scalars_step: "gen_ok g \<Longrightarrow> res_ok gen_errors (scalars g) (gen_step g)"
  unfolding scalars_def Let_def gen_ok_def
  by (intro walk act_list_bind res_ok_rbind [OF vid_ok])
     (auto intro!: gen_step_save gen_step_upd mvsx_ok dest: legal_group_fits)

lemma slide_text_bind:
  assumes "\<And>g'. same_gen g g' \<Longrightarrow> res_ok gen_errors (f g') Q"
  shows "res_ok gen_errors (rbind (slide_text k g vd vs2 off x msk) f) Q"
  using assms
  by (cases k; cases "off < 32"; cases "g_rng g")
     (auto simp: slide_text_def slide_by_off_def slide_by_x_def rand_lt_def draw_def same_gen_def)

lemma slide_step: "gen_ok g \<Longrightarrow> res_ok gen_errors (slide g) (gen_step g)"
  unfolding slide_def Let_def gen_ok_def
  by (intro walk slide_text_bind res_ok_rbind [OF slide_ok])
     (auto simp: same_gen_def intro!: gen_step_model intro: reg_step_refl dest: legal_group_fits)

lemma stride_of_two: "n \<in> {1, 2, 4, 8} \<Longrightarrow> a < 32 div n \<Longrightarrow> n * a + n \<le> (32::nat)"
proof -
  assume n: "n \<in> {1, 2, 4, 8}" and "a < 32 div n"
  then have "n * Suc a \<le> n * (32 div n)" by (intro mult_left_mono) auto
  with n show ?thesis by auto
qed

lemma movnr_step: "gen_ok g \<Longrightarrow> res_ok gen_errors (movnr g) (gen_step g)"
  unfolding movnr_def Let_def gen_ok_def
  by (intro walk) (auto intro!: gen_step_model movnr_ok)

lemma vset_loop_bind:
  assumes "\<And>sew lmul ds. wf_vtype sew lmul \<Longrightarrow> res_ok gen_errors (f ((sew, lmul), ds)) Q"
  shows "res_ok gen_errors (rbind (vset_loop ds) f) Q"
proof (induction ds rule: vset_loop.induct)
  case (1 a b ds)
  have "sews ! (a mod 3) \<in> set sews" "lmuls ! (b mod 7) \<in> set lmuls"
    by (rule nth_mem; simp add: sews_def lmuls_def)+
  then show ?case using 1 assms [of "sews ! (a mod 3)" "lmuls ! (b mod 7)" ds]
    by (auto simp: wf_vtype_def Let_def)
qed simp_all

lemma wf_model_vset:
  "wf_model m \<Longrightarrow> wf_vtype sew lmul \<Longrightarrow> vl \<le> vlmax m sew lmul \<Longrightarrow>
    wf_model (m\<lparr>m_sew := sew, m_lmul := lmul, m_vl := vl\<rparr>)"
  by (simp add: wf_model_def vlmax_def m_vlenb_def)

lemma vset_step: "gen_ok g \<Longrightarrow> res_ok gen_errors (vset g) (gen_step g)"
  unfolding vset_def Let_def gen_ok_def
  apply (intro vset_loop_bind)
  apply (simp split del: if_split)
  apply (intro walk)
  apply (auto intro!: gen_step_save wf_model_vset simp: wf_model_def [of "g_m g"] vlmax_pos)
  done

lemma memop_mask_step:
  "gen_ok g \<Longrightarrow> DATA \<le> base \<Longrightarrow> base \<le> DATA + 1020 \<Longrightarrow> res_ok gen_errors (memop_mask store base g) (gen_step g)"
  unfolding memop_mask_def Let_def gen_ok_def
  by (intro walk res_ok_rbind [OF maskmem_ok]) (auto intro!: gen_step_model)

lemma memop_whole_step:
  "gen_ok g \<Longrightarrow> DATA \<le> base \<Longrightarrow> base \<le> DATA + 1020 \<Longrightarrow> res_ok gen_errors (memop_whole store base g) (gen_step g)"
  unfolding memop_whole_def Let_def gen_ok_def
  apply (intro walk)
  apply (auto intro!: gen_step_model whole_ok)
  done

lemma emul_ok_group:
  assumes "wf_vtype sew lmul" "eew \<in> set sews" "fst (emul_ok eew sew lmul)"
  shows "group_size (snd (emul_ok eew sew lmul)) \<in> {1, 2, 4, 8}"
proof -
  have "eew = 8 \<or> eew = 16 \<or> eew = 32" using assms(2) by (auto simp: sews_def)
  then show ?thesis
    using wf_vtype_cases [OF assms(1)] assms(3)
    by (elim disjE conjE; hypsubst; simp add: emul_ok_def Let_def group_size_def)
qed

lemma emul_group_size:
  assumes "wf_model m" "eew \<in> set sews" "fst (emul_ok eew (m_sew m) (m_lmul m))"
  shows "group_size (snd (emul_ok eew (m_sew m) (m_lmul m))) \<in> {1, 2, 4, 8}"
    "group_size (if snd (emul_ok eew (m_sew m) (m_lmul m)) \<ge> 1 then snd (emul_ok eew (m_sew m) (m_lmul m)) else 1) =
     group_size (snd (emul_ok eew (m_sew m) (m_lmul m)))"
  using emul_ok_group [OF _ assms(2,3)] assms(1) by (auto simp: wf_model_def group_size_def)

lemma emul_group_bind:
  fixes g :: gen and eew :: nat
  defines "e \<equiv> snd (emul_ok eew (m_sew (g_m g)) (m_lmul (g_m g)))"
  assumes "wf_model (g_m g)" "eew \<in> set sews" "fst (emul_ok eew (m_sew (g_m g)) (m_lmul (g_m g)))"
    and "\<And>ds. res_ok gen_errors (f None (g\<lparr>g_rng := ds\<rparr>)) Q"
    and "\<And>r rng ds. legal_group (group_size e) avoid not_v0 (r, rng) \<Longrightarrow>
      res_ok gen_errors (f (Some (r, rng)) (g\<lparr>g_rng := ds\<rparr>)) Q"
  shows "res_ok gen_errors (rbind (group (if e \<ge> 1 then e else 1) avoid not_v0 g) (case_prod f)) Q"
  using emul_group_size [OF assms(2-4)] assms(5,6) unfolding e_def by (intro group_bind) simp_all

lemma emul_case: "res_ok E (f (fst (emul_ok a b c)) (snd (emul_ok a b c))) Q \<Longrightarrow> res_ok E (case_prod f (emul_ok a b c)) Q"
  by (simp add: case_prod_beta)

lemma strided_okI:
  assumes "eew \<in> set sews" "fst (emul_ok eew (m_sew m) (m_lmul m))"
    "legal_group (group_size (snd (emul_ok eew (m_sew m) (m_lmul m)))) avoid b (vd, rng)"
    "DATA \<le> base" "base \<le> DATA + 1020" "k \<le> 4"
  shows "strided_ok m eew vd base (eew div 8 * k)"
  using assms legal_group_fits [OF assms(3)] mult_le_mono [of "eew div 8" "eew div 8" k 4]
  by (simp add: strided_ok_def mult.commute)

lemmas strided_okI1 = strided_okI [where k = 1, unfolded mult_1_right]

lemma memop_strided_step:
  "gen_ok g \<Longrightarrow> DATA \<le> base \<Longrightarrow> base \<le> DATA + 1020 \<Longrightarrow>
    res_ok gen_errors (memop_strided kind store vm base g) (gen_step g)"
  unfolding memop_strided_def Let_def gen_ok_def
  by (intro walk emul_case emul_group_bind res_ok_rbind [OF strided_step_ok])
     (auto intro!: gen_step_model intro: reg_step_refl strided_okI strided_okI1)

lemma load_index_ok:
  assumes m: "wf_model m" and t: "tab_ok m" and e: "ieew \<in> set sews" "fst (emul_ok ieew (m_sew m) (m_lmul m))"
    and g: "vix + group_size (snd (emul_ok ieew (m_sew m) (m_lmul m))) \<le> 32"
  defines "m' \<equiv> load_index m vix (group_size (snd (emul_ok ieew (m_sew m) (m_lmul m)))) (idx_tab (m_vlen m) ieew)"
  shows "reg_step m m'" "\<forall>i < m_vl m. eget m' vix i ieew < 256"
proof -
  let ?n = "group_size (snd (emul_ok ieew (m_sew m) (m_lmul m)))" and ?t = "idx_tab (m_vlen m) ieew"
  have v: "m_vlen m \<in> set vlens" "wf_vtype (m_sew m) (m_lmul m)" using m by (auto simp: wf_model_def)
  have "?n \<le> 8" using emul_group_size(1) [OF m e] by auto
  then have "?n * m_vlenb m \<le> 256" using whole_bytes [OF m] by blast
  moreover have "?t \<le> INDEX + 2048" using v(1) by (auto simp: idx_tab_def vlens_def)
  ultimately have tab: "?t + ?n * m_vlenb m \<le> END" by (simp add: layout_defs)
  show "reg_step m m'"
    using load_index_safe [OF m g tab] unfolding m'_def by (simp add: reg_step_def data_only_same_mem)
  show "\<forall>i < m_vl m. eget m' vix i ieew < 256"
  proof (intro allI impI)
    fix i assume i: "i < m_vl m"
    have "eget m' vix i ieew = mget m (?t + i * (ieew div 8)) (ieew div 8)"
      unfolding m'_def
      using eget_load_index [OF m g tab e(1)] vlmax_fits_eew [OF v e] wf_vl_vlmax [OF m i] by blast
    also have "\<dots> < 256" using t e(1) vl_less_vlen [OF m i] unfolding tab_ok_def by blast
    finally show "eget m' vix i ieew < 256" .
  qed
qed

lemma legal_group_avoid:
  assumes "legal_group n [rng] b (r, rng')" "legal_group n' avoid b' (r', rng)" "0 < n" "0 < n'"
  shows "r + n \<le> r' \<or> r' + n' \<le> r"
proof -
  have "{r'..<r' + n'} \<inter> {r..<r + n} = {}" using assms(1,2) by (auto simp: legal_group_def)
  then have "max r r' \<notin> {r'..<r' + n'} \<inter> {r..<r + n}" by blast
  then show ?thesis using assms(3,4) by (auto simp: max_def split: if_splits)
qed

lemma indexed_after_load:
  fixes m :: vmodel and ieew vix :: nat
  defines "n \<equiv> group_size (snd (emul_ok ieew (m_sew m) (m_lmul m)))"
  defines "m' \<equiv> load_index m vix n (idx_tab (m_vlen m) ieew)"
  assumes m: "wf_model m" and t: "tab_ok m" and e: "ieew \<in> set sews" "fst (emul_ok ieew (m_sew m) (m_lmul m))"
    and gi: "legal_group n avoid b (vix, rng)" and gd: "legal_group (group_size (m_lmul m')) [rng] b' (vd, rng')"
    and b: "DATA \<le> base" "base \<le> DATA + 1020"
  shows "res_ok E (indexed_model m' store vm ieew vd vix base) (reg_step m)"
proof -
  note l = load_index_ok [OF m t e legal_group_fits [OF gi [unfolded n_def]], folded n_def, folded m'_def]
  have c: "m_sew m' = m_sew m" "m_lmul m' = m_lmul m" "m_vl m' = m_vl m" and w: "wf_model m'"
    using l(1) by (auto simp: reg_step_def same_ctl_def)
  have "0 < n" "0 < group_size (m_lmul m')" by (auto simp: n_def group_size_def)
  then have "vd + group_size (m_lmul m') \<le> vix \<or> vix + n \<le> vd" using legal_group_avoid [OF gd gi] by blast
  then have "indexed_ok m' store ieew vd vix base"
    using e b l(2) legal_group_fits [OF gi] legal_group_fits [OF gd] unfolding indexed_ok_def Let_def
    by (simp add: c n_def [symmetric])
  from indexed_step_ok [OF w this] show ?thesis
    by (rule res_ok_mono) (rule reg_step_trans [OF l(1)])
qed

lemma memop_index_step:
  "gen_ok g \<Longrightarrow> DATA \<le> base \<Longrightarrow> base \<le> DATA + 1020 \<Longrightarrow>
    res_ok gen_errors (memop_index store vm base g) (gen_step g)"
  unfolding memop_index_def Let_def gen_ok_def
  apply (intro walk emul_case emul_group_bind)
  apply (simp_all split del: if_split)
  apply (auto intro!: gen_step_model reg_step_refl load_index_ok(1) reg_stepD(1) [OF load_index_ok(1)] 
     res_ok_rbind [OF indexed_after_load] intro: legal_group_fits)
  done

lemma memop_step: "gen_ok g \<Longrightarrow> res_ok gen_errors (memop g) (gen_step g)"
proof -
  assume g: "gen_ok g"
  have step: "res_ok gen_errors (case kind of MIndex \<Rightarrow> memop_index store vm base g'
      | MMask \<Rightarrow> memop_mask store base g' | MWhole \<Rightarrow> memop_whole store base g'
      | _ \<Rightarrow> memop_strided kind store vm base g') (gen_step g)"
    if g': "same_gen g g'" and b: "DATA \<le> base" "base \<le> DATA + 1020" for g' kind store vm base
  proof -
    have "gen_ok g'" "gen_step g' = gen_step g"
      using g g' by (auto simp: gen_ok_def same_gen_def gen_step_def fun_eq_iff)
    then show ?thesis
      using memop_index_step memop_mask_step memop_whole_step memop_strided_step b
      by (cases kind) (metis (no_types) mkind.simps)+
  qed
  show ?thesis unfolding memop_def Let_def
    by (intro walk) (auto intro!: step simp: same_gen_def)
qed

lemma gen_op_step: "gen_ok g \<Longrightarrow> res_ok gen_errors (gen_op k g) (gen_step g)"
  by (cases k) (simp_all add: gen_op_def vset_step arith_step compare_step reduce_step_ok masklogic_step
      scalars_step slide_step movnr_step memop_step)

subsection \<open>A whole run\<close>

definition gen_span :: "nat \<Rightarrow> gen \<Rightarrow> gen \<Rightarrow> bool" where
  "gen_span n g g' \<longleftrightarrow>
     wf_model (g_m g') \<and> m_vlen (g_m g') = m_vlen (g_m g) \<and> g_init g' = g_init g \<and>
     g_slots g \<le> g_slots g' \<and> g_slots g' \<le> g_slots g + n \<and>
     (\<forall>k < END. (k < DATA \<or> INDEX \<le> k) \<longrightarrow> (k < OUT_S + 4 * g_slots g \<or> OUT_S + 4 * g_slots g' \<le> k) \<longrightarrow>
        m_mem (g_m g') ! k = m_mem (g_m g) ! k)"

lemma gen_step_span: "gen_step g g' \<Longrightarrow> gen_span 1 g g'"
  by (simp add: gen_step_def gen_span_def)

lemma gen_span_trans:
  assumes "gen_span i a b" "gen_span j b c"
  shows "gen_span (i + j) a c"
  using assms unfolding gen_span_def by (auto simp: layout_defs)

lemma gen_ops_span:
  "wf_model (g_m g) \<Longrightarrow> tab_ok (g_m g) \<Longrightarrow> g_slots g + n \<le> 1024 \<Longrightarrow>
    res_ok gen_errors (gen_ops n g) (gen_span n g)"
proof (induction n arbitrary: g)
  case 0
  then show ?case by (simp add: gen_span_def)
next
  case (Suc n)
  show ?case unfolding gen_ops.simps
  proof (intro choice_bind)
    fix k ds
    let ?g = "g\<lparr>g_rng := ds\<rparr>"
    have ok: "gen_ok ?g" using Suc.prems by (simp add: gen_ok_def)
    show "res_ok gen_errors (rbind (gen_op k ?g) (gen_ops n)) (gen_span (Suc n) g)"
    proof (rule res_ok_rbind [OF gen_op_step [OF ok]])
      fix g1 assume s: "gen_step ?g g1"
      have "tab_ok (g_m g1)" using gen_step_tab [OF s] ok by (simp add: gen_ok_def)
      then have "res_ok gen_errors (gen_ops n g1) (gen_span n g1)"
        using s Suc.prems by (intro Suc.IH) (auto simp: gen_step_def)
      moreover have "gen_span 1 g g1" using gen_step_span [OF s] by (simp add: gen_span_def)
      ultimately show "res_ok gen_errors (gen_ops n g1) (gen_span (Suc n) g)"
        using gen_span_trans [of 1 g g1 n] by (auto elim!: res_ok_mono)
    qed
  qed simp
qed

subsubsection \<open>Construction\<close>

lemma tab_ok_fill:
  assumes m: "wf_model m" and t: "tab_ok m" and e: "eew \<in> set sews" "i < m_vlen m" and v: "0 \<le> v" "v < 256"
  shows "tab_ok (mset m (idx_tab (m_vlen m) eew + i * (eew div 8)) (eew div 8) v)"
    "wf_model (mset m (idx_tab (m_vlen m) eew + i * (eew div 8)) (eew div 8) v)"
proof -
  let ?a = "\<lambda>eew i. idx_tab (m_vlen m) eew + i * (eew div 8)"
  have vl: "m_vlen m \<in> set vlens" using m by (simp add: wf_model_def)
  have fit: "?a eew i + eew div 8 \<le> length (m_mem m)" if "eew \<in> set sews" "i < m_vlen m" for eew i
    using idx_tab_bounds [OF vl that] wf_mem_length [OF m] by (simp add: layout_defs)
  show "wf_model (mset m (?a eew i) (eew div 8) v)" using m fit [OF e] wf_mem_length [OF m] by simp
  have "mget (mset m (?a eew i) (eew div 8) v) (?a eew' j) (eew' div 8) < 256"
    if j: "eew' \<in> set sews" "j < m_vlen m" for eew' j
  proof (cases "eew' = eew \<and> j = i")
    case True
    have "v < 2 ^ (8 * (eew div 8))" using v e(1) by (auto simp: sews_def)
    then show ?thesis using True v fit [OF e] by (simp add: mget_mset_same py_mask_id)
  next
    case False
    have "?a eew' j + eew' div 8 \<le> ?a eew i \<or> ?a eew i + eew div 8 \<le> ?a eew' j"
      using False e j vl by (auto simp: sews_def vlens_def idx_tab_def)
    then have "mget (mset m (?a eew i) (eew div 8) v) (?a eew' j) (eew' div 8) = mget m (?a eew' j) (eew' div 8)"
      using fit [OF e] fit [OF j] by (intro mget_mset_disjoint) auto
    then show ?thesis using t j by (simp add: tab_ok_def)
  qed
  then show "tab_ok (mset m (?a eew i) (eew div 8) v)" by (simp add: tab_ok_def)
qed

lemma tab_ok_zero: "m_mem m = replicate n 0 \<Longrightarrow> tab_ok m"
proof -
  have "from_bytes_le (replicate k (0 :: byte)) = 0" for k by (induction k) simp_all
  moreover assume "m_mem m = replicate n 0"
  ultimately show ?thesis by (auto simp: tab_ok_def mget_def py_slice_def drop_replicate take_replicate)
qed

definition gen_new :: "nat \<Rightarrow> gen \<Rightarrow> bool" where
  "gen_new vlen g \<longleftrightarrow> wf_model (g_m g) \<and> tab_ok (g_m g) \<and> m_vlen (g_m g) = vlen \<and> g_slots g = 0"

lemma fill_data_ok: "gen_new vlen g \<Longrightarrow> res_ok gen_errors (fill_data g) (gen_new vlen)"
  unfolding fill_data_def
proof (rule res_ok_rfold)
  fix g a assume g: "gen_new vlen g" and "a \<in> set [DATA..<INDEX]"
  then have a: "DATA \<le> a" "a < INDEX" by simp_all
  have "INDEX \<le> END" by (simp add: layout_defs)
  then have "a < length (m_mem (g_m g))" using g a by (auto simp: gen_new_def wf_mem_length)
  moreover have "gen_new vlen (g\<lparr>g_rng := ds, g_m := (g_m g)\<lparr>m_mem := (m_mem (g_m g))[a := x]\<rparr>\<rparr>)" for ds x
  proof -
    have "wf_model ((g_m g)\<lparr>m_mem := (m_mem (g_m g))[a := x]\<rparr>)"
      using g by (rule_tac wf_model_update [of "g_m g"]) (auto simp: gen_new_def)
    moreover from this have "tab_ok ((g_m g)\<lparr>m_mem := (m_mem (g_m g))[a := x]\<rparr>)"
      using g a by (rule_tac tab_ok_cong [of "g_m g"]) (auto simp: gen_new_def)
    ultimately show ?thesis using g by (simp add: gen_new_def)
  qed
  ultimately show "res_ok gen_errors (rbind (draw 256 g) (\<lambda>(x, g).
      rbind (py_set (m_mem (g_m g)) a (of_nat x)) (\<lambda>mem'. Inr (g\<lparr>g_m := (g_m g)\<lparr>m_mem := mem'\<rparr>\<rparr>)))) (gen_new vlen)"
    by (intro walk) (auto simp: py_set_def)
qed

lemma fill_table_ok:
  assumes "gen_new vlen g" "eew \<in> set sews"
  shows "res_ok gen_errors (fill_table vlen g eew) (gen_new vlen)"
  unfolding fill_table_def
proof (rule res_ok_rfold [where I = "gen_new vlen", rotated, OF assms(1)])
  fix g i assume g: "gen_new vlen g" and i: "i \<in> set [0..<vlen]"
  have "8 dvd eew" using assms(2) by (auto simp: sews_def)
  then have "i * eew div 8 = i * (eew div 8)" by (simp add: div_mult_swap)
  then have "gen_new vlen (g\<lparr>g_rng := ds,
      g_m := mset (g_m g) (idx_tab vlen eew + i * eew div 8) (eew div 8) (4 * int k)\<rparr>)" if "k < 64" for ds k
    using tab_ok_fill [of "g_m g" eew i "4 * int k"] g i assms(2) that by (auto simp: gen_new_def)
  then show "res_ok gen_errors (rbind (draw 64 g) (\<lambda>(x, g).
      Inr (g\<lparr>g_m := mset (g_m g) (idx_tab vlen eew + i * eew div 8) (eew div 8) (4 * int x)\<rparr>))) (gen_new vlen)"
    by (intro walk) auto
qed

lemma gen_init_ok:
  assumes "vlen \<in> set vlens"
  shows "res_ok gen_errors (gen_init draws vlen) (\<lambda>g. gen_new vlen g \<and> g_init g = m_mem (g_m g))"
proof -
  let ?g = "\<lparr>g_rng = draws, g_asm = [], g_m = model_init vlen (replicate END 0), g_init = [], g_slots = 0\<rparr>"
  have "wf_model (model_init vlen (replicate END 0))"
    using assms by (simp add: wf_model_def model_init_def m_vlenb_def wf_vtype_def sews_def lmuls_def)
  moreover have "tab_ok (model_init vlen (replicate END 0))"
    by (rule tab_ok_zero) (simp add: model_init_def)
  ultimately have "gen_new vlen ?g" by (simp add: gen_new_def model_init_def)
  then have data: "res_ok gen_errors (fill_data ?g) (gen_new vlen)" by (rule fill_data_ok)
  have tables: "res_ok gen_errors (rfold (fill_table vlen) g [8, 16, 32]) (gen_new vlen)" if "gen_new vlen g" for g
    using that by (intro res_ok_rfold [where I = "gen_new vlen"] fill_table_ok) (auto simp: sews_def)
  show ?thesis unfolding gen_init_def Let_def
    by (rule res_ok_rbind [OF data], rule res_ok_rbind [OF tables]) (auto simp: gen_new_def)
qed

subsubsection \<open>The program and its expected memory\<close>

lemma foldl_emit_sel:
  "g_m (foldl (\<lambda>g r. emit (li g s (f g r)) (t r)) g rs) = g_m g"
  "g_init (foldl (\<lambda>g r. emit (li g s (f g r)) (t r)) g rs) = g_init g"
  "g_slots (foldl (\<lambda>g r. emit (li g s (f g r)) (t r)) g rs) = g_slots g"
  by (induction rs arbitrary: g) auto

lemma build_head_sel:
  "g_m (build_head g) = (g_m g)\<lparr>m_v := py_slice DATA (32 * m_vlenb (g_m g)) (m_mem (g_m g))\<rparr>"
  "g_init (build_head g) = g_init g" "g_slots (build_head g) = g_slots g"
  by (simp_all add: build_head_def Let_def)

lemma build_tail_sel:
  "g_m (build_tail g) =
     (g_m g)\<lparr>m_mem := slice_set OUT_V (32 * m_vlenb (g_m g)) (m_v (g_m g)) (m_mem (g_m g))\<rparr>"
  "g_init (build_tail g) = g_init g" "g_slots (build_tail g) = g_slots g"
  by (simp_all add: build_tail_def Let_def foldl_emit_sel)

lemma reg_file_fits: "wf_model m \<Longrightarrow> DATA + 32 * m_vlenb m \<le> INDEX \<and> OUT_V + 32 * m_vlenb m \<le> OUT_S"
  using vlenb_le [of m] by (simp add: layout_defs)

lemma build_head_ok: "gen_new vlen g \<Longrightarrow> gen_new vlen (build_head g)"
proof -
  assume g: "gen_new vlen g"
  then have m: "wf_model (g_m g)" by (simp add: gen_new_def)
  have "wf_model (g_m (build_head g))" unfolding build_head_sel
    using m reg_file_fits [OF m] wf_mem_length [OF m]
    by (intro wf_model_update [OF m]) (simp_all add: bytes_simps layout_defs wf_model_def)
  moreover from this have "tab_ok (g_m (build_head g))"
    using g by (rule_tac tab_ok_cong [OF m]) (auto simp: build_head_sel gen_new_def)
  ultimately show ?thesis using g by (simp add: gen_new_def build_head_sel)
qed

text \<open>The memory after the final dump: the registers, and everything else as before it.\<close>

lemma build_tail_mem:
  assumes m: "wf_model (g_m g)"
  shows "wf_model (g_m (build_tail g))"
    "py_slice OUT_V (32 * m_vlenb (g_m g)) (m_mem (g_m (build_tail g))) = m_v (g_m g)"
    "k < END \<Longrightarrow> k < OUT_V \<or> OUT_S \<le> k \<Longrightarrow> m_mem (g_m (build_tail g)) ! k = m_mem (g_m g) ! k"
proof -
  have len: "length (m_v (g_m g)) = 32 * m_vlenb (g_m g)" using m by (simp add: wf_model_def)
  note f = reg_file_fits [OF m] wf_mem_length [OF m]
  show "wf_model (g_m (build_tail g))" unfolding build_tail_sel
    using len f by (intro wf_model_update [OF m]) (simp_all add: bytes_simps layout_defs)
  show "py_slice OUT_V (32 * m_vlenb (g_m g)) (m_mem (g_m (build_tail g))) = m_v (g_m g)"
    unfolding build_tail_sel using len f by (simp add: slice_slice_set_same layout_defs)
  show "k < END \<Longrightarrow> k < OUT_V \<or> OUT_S \<le> k \<Longrightarrow> m_mem (g_m (build_tail g)) ! k = m_mem (g_m g) ! k"
    unfolding build_tail_sel using len f by (auto simp: nth_slice_set layout_defs)
qed

text \<open>What a run of the generator leaves behind.\<close>

definition run_ok :: "nat \<Rightarrow> nat \<Rightarrow> gen \<Rightarrow> bool" where
  "run_ok count vlen g \<longleftrightarrow>
     wf_model (g_m g) \<and> m_vlen (g_m g) = vlen \<and> g_slots g \<le> count + 1 \<and>
     py_slice OUT_V (32 * m_vlenb (g_m g)) (m_mem (g_m g)) = m_v (g_m g) \<and>
     (\<forall>k < END. (k < DATA \<or> INDEX \<le> k \<and> k < OUT_V \<or> OUT_S + 4 * g_slots g \<le> k) \<longrightarrow> m_mem (g_m g) ! k = g_init g ! k)"

lemma build_ok:
  assumes g: "gen_new vlen g" "g_init g = m_mem (g_m g)" and c: "count < 1024"
  shows "res_ok gen_errors (build count g) (\<lambda>(text, g'). run_ok count vlen g')"
  unfolding build_def Let_def
proof (rule res_ok_rbind [OF vset_step])
  show "gen_ok (build_head g)" using build_head_ok [OF g(1)] by (simp add: gen_ok_def gen_new_def)
next
  fix g1 assume s1: "gen_step (build_head g) g1"
  have "gen_new vlen (build_head g)" by (rule build_head_ok [OF g(1)])
  then have "res_ok gen_errors (gen_ops count g1) (gen_span count g1)"
    using s1 c gen_step_tab [OF s1] by (intro gen_ops_span) (auto simp: gen_new_def gen_step_def)
  then have "res_ok gen_errors (gen_ops count g1) (gen_span (1 + count) (build_head g))"
    using gen_span_trans [OF gen_step_span [OF s1]] by (rule res_ok_mono)
  then show "res_ok gen_errors (rbind (gen_ops count g1)
      (\<lambda>g. Inr (py_join ''\<newline>'' (g_asm (build_tail g) @ vdata (g_init (build_tail g))) @ ''\<newline>'', build_tail g)))
      (\<lambda>(text, g'). run_ok count vlen g')"
  proof (rule res_ok_rbind)
    fix g2 assume s: "gen_span (1 + count) (build_head g) g2"
    have w: "wf_model (g_m g2)" and sl: "g_slots g2 \<le> 1 + count" and v: "m_vlen (g_m g2) = vlen"
      using s g(1) by (auto simp: gen_span_def build_head_sel gen_new_def)
    have "m_mem (g_m (build_tail g2)) ! k = g_init g ! k"
      if "k < END" "k < DATA \<or> INDEX \<le> k \<and> k < OUT_V \<or> OUT_S + 4 * g_slots g2 \<le> k" for k
      using build_tail_mem(3) [OF w, of k] s that g unfolding gen_span_def
      by (auto simp: build_head_sel gen_new_def layout_defs)
    moreover have "m_vlenb (g_m (build_tail g2)) = m_vlenb (g_m g2)" by (simp add: m_vlenb_def build_tail_sel)
    ultimately show "res_ok gen_errors (Inr (py_join ''\<newline>'' (g_asm (build_tail g2) @ vdata (g_init (build_tail g2))) @
        ''\<newline>'', build_tail g2)) (\<lambda>(text, g'). run_ok count vlen g')"
      using build_tail_mem(1,2) [OF w] sl v s by (simp add: run_ok_def build_tail_sel gen_span_def build_head_sel)
  qed
qed

end
