(* ===== verification/Vec_Claims.thy ===== *)
theory Vec_Claims
  imports Vec_Safety
begin

text \<open>
  The properties of \<^verbatim>\<open>tools/vtest/vgen.py\<close>: its reference model computes what the vector
  specification says, element by element on machine words; memory instructions stay in their
  area and round-trip; every run of the generator is legal.
\<close>

subsection \<open>Shared facts\<close>

lemma bits_put_all_outside:
  assumes "\<forall>i \<in> fst ` set kvs. i < m_vlen m" "8 dvd m_vlen m" "k < vd * m_vlenb m \<or> (vd + 1) * m_vlenb m \<le> k"
  shows "m_v (bits.put_all vd m kvs) ! k = m_v m ! k"
  using assms
proof (induction kvs arbitrary: m)
  case (Cons p kvs)
  obtain i b where p: "p = (i, b)" by force
  have "i div 8 < m_vlenb m" using Cons.prems(1,2) by (auto simp: p m_vlenb_def mult.commute less_mult_imp_div_less elim!: dvdE)
  then have "bit_off m vd i \<noteq> k" using Cons.prems(3) by (auto simp: bit_off_def)
  then have "m_v (bput m vd i b) ! k = m_v m ! k" by (simp add: bput_def)
  then show ?case using Cons by (simp add: p)
qed simp

lemma vlen_dvd: "wf_model m \<Longrightarrow> 8 dvd m_vlen m"
  by (auto simp: wf_model_def vlens_def)

lemma filter_vl_less: "wf_model m \<Longrightarrow> \<forall>i \<in> fst ` set (map (\<lambda>i. (i, f i)) (filter P [0..<m_vl m])). i < m_vlen m"
  using vl_less_vlen [of m] by auto

text \<open>A small state for the examples: three 8-bit elements, registers counting up.\<close>

definition wm :: vmodel where
  "wm = \<lparr>m_vlen = 64, m_v = map of_nat [0..<256], m_mem = replicate END 0, m_vl = 3, m_sew = 8, m_lmul = 1\<rparr>"

lemma wf_wm: "wf_model wm"
  by (simp add: wm_def wf_model_def m_vlenb_def vlens_def wf_vtype_def sews_def lmuls_def vlmax_def)

lemma wm_sel: "m_vl wm = 3" "m_sew wm = 8" "m_lmul wm = 1" "m_vlen wm = 64" "m_vlenb wm = 8" "group_size 1 = 1"
  "vlmax wm 8 1 = 8"
  by (simp_all add: wm_def m_vlenb_def group_size_def vlmax_def)

subsection \<open>Arithmetic\<close>

text \<open>
  C1. An arithmetic instruction never raises and computes, at every active element below \<open>vl\<close>
  (every element below \<open>vl\<close> for \<open>vmerge\<close>), the operation of the vector specification on
  \<open>SEW\<close>-bit words; masked-off and tail elements, every other register byte, memory and the vector
  type are undisturbed.
\<close>

theorem arith_model_correct:
  fixes m :: vmodel
  assumes m: "wf_model m" and w: "m_sew m = LENGTH('w::len)"
    and g: "vd + group_size (m_lmul m) \<le> 32" "vs2 + group_size (m_lmul m) \<le> 32" "vs1 + group_size (m_lmul m) \<le> 32"
  shows "\<exists>m'. arith_model m op vm form vd vs2 vs1 x imm = Inr m' \<and>
    (\<forall>i < vlmax m (m_sew m) (m_lmul m). (elem_w m' vd i :: 'w word) =
      (if i < m_vl m \<and> (op = Vmerge \<or> is_active m vm i)
       then aop_word op (elem_w m vs2 i) (operand1_w m form vs1 x imm i) (elem_w m vd i) (mbit m 0 i)
       else elem_w m vd i)) \<and>
    (\<forall>k < length (m_v m). k < vd * m_vlenb m \<or> vd * m_vlenb m + m_vl m * (m_sew m div 8) \<le> k \<longrightarrow>
      m_v m' ! k = m_v m ! k) \<and>
    m_mem m' = m_mem m \<and> same_ctl m m' \<and> wf_model m'"
proof -
  obtain m' where r: "arith_model m op vm form vd vs2 vs1 x imm = Inr m'" using arith_model_eq [OF m] by blast
  then show ?thesis
    using arith_model_word [OF m w g _ r] arith_model_frame [OF m g(1) r] by (auto simp: same_ctl_def)
qed

theorem arith_model_correct_witness:
  "\<exists>m'. arith_model wm Vadd True VV 3 1 2 0 0 = Inr m' \<and>
     elem_w m' 3 2 = (elem_w wm 1 2 + elem_w wm 2 2 :: 8 word) \<and> elem_w m' 3 5 = (elem_w wm 3 5 :: 8 word)"
proof -
  have "wf_model wm" "m_sew wm = LENGTH(8)" by (simp_all add: wf_wm wm_sel)
  from arith_model_correct [OF this, of 3 1 2 Vadd True VV 0 0] obtain m' where
    r: "arith_model wm Vadd True VV 3 1 2 0 0 = Inr m'"
    and e: "\<forall>i < 8. (elem_w m' 3 i :: 8 word) = (if i < 3 \<and> (Vadd = Vmerge \<or> is_active wm True i)
       then aop_word Vadd (elem_w wm 1 i) (operand1_w wm VV 2 0 0 i) (elem_w wm 3 i) (mbit wm 0 i)
       else elem_w wm 3 i)"
    by (auto simp: wm_sel)
  from e [rule_format, of 2] e [rule_format, of 5] r show ?thesis
    by (simp add: is_active_def aop_word_def operand1_w_def)
qed

text \<open>
  C4. A comparison never raises and sets mask bit \<open>i\<close> of the destination, for every active \<open>i\<close>
  below \<open>vl\<close>, to the comparison of the two \<open>SEW\<close>-bit words, unsigned or signed as its name says;
  the other bits of the destination, the other registers and memory are undisturbed.
\<close>

theorem compare_model_correct:
  fixes m :: vmodel
  assumes m: "wf_model m" and w: "m_sew m = LENGTH('w::len)" and vd: "vd < 32"
    and g: "vs2 + group_size (m_lmul m) \<le> 32" "vs1 + group_size (m_lmul m) \<le> 32"
  shows "\<exists>m'. compare_model m op vm form vd vs2 vs1 x simm = Inr m' \<and>
    (\<forall>i < m_vlen m. mbit m' vd i =
      (if i < m_vl m \<and> is_active m vm i
       then cop_word op (elem_w m vs2 i :: 'w word) (operand1_w m form vs1 x simm i) else mbit m vd i)) \<and>
    (\<forall>k. k < vd * m_vlenb m \<or> (vd + 1) * m_vlenb m \<le> k \<longrightarrow> m_v m' ! k = m_v m ! k) \<and>
    m_mem m' = m_mem m \<and> same_ctl m m' \<and> wf_model m'"
proof -
  let ?h = "\<lambda>i. compare_res op (m_sew m) (eget m vs2 i (m_sew m)) (operand1 m form vs1 x simm i)"
  let ?m = "bits.put_all vd m (map (\<lambda>i. (i, ?h i)) (filter (is_active m vm) [0..<m_vl m]))"
  have "?h i = cop_word op (elem_w m vs2 i :: 'w word) (operand1_w m form vs1 x simm i)" if i: "i < m_vl m" for i
  proof -
    have "elem_ok m vs2 i LENGTH('w)" "elem_ok m vs1 i LENGTH('w)"
      using elem_ok_lmul [OF m g(1)] elem_ok_lmul [OF m g(2)] wf_vl_vlmax [OF m i] unfolding w by blast+
    then show ?thesis
      using compare_res_word [of op "elem_w m vs2 i :: 'w word" "operand1_w m form vs1 x simm i"]
      by (simp add: w uint_elem_w uint_operand1_w [OF w])
  qed
  moreover have "mbit ?m vd i = (if i < m_vl m \<and> is_active m vm i then ?h i else mbit m vd i)"
    if "i < m_vlen m" for i
    using bit_ok_vl [OF m vd] bit_ok_reg [OF m vd that] by (intro mbit_put_all_range [OF m]) auto
  moreover have "m_v ?m ! k = m_v m ! k" if "k < vd * m_vlenb m \<or> (vd + 1) * m_vlenb m \<le> k" for k
    by (intro bits_put_all_outside filter_vl_less [OF m] vlen_dvd [OF m] that)
  ultimately show ?thesis
    using compare_model_eq [OF m vd, of op vm form vs2 vs1 x simm] wf_bits_put_all [OF m]
    by (intro exI [of _ ?m]) (auto simp: bits_put_all_frame same_ctl_def)
qed

theorem compare_model_correct_witness:
  "\<exists>m'. compare_model wm Vmslt True VV 3 1 2 0 0 = Inr m' \<and>
     mbit m' 3 1 = ((elem_w wm 1 1 :: 8 word) <s elem_w wm 2 1) \<and> mbit m' 3 9 = mbit wm 3 9"
proof -
  have "wf_model wm" "m_sew wm = LENGTH(8)" by (simp_all add: wf_wm wm_sel)
  from compare_model_correct [OF this, of 3 1 2 Vmslt True VV 0 0] obtain m' where
    r: "compare_model wm Vmslt True VV 3 1 2 0 0 = Inr m'"
    and e: "\<forall>i < 64. mbit m' 3 i = (if i < 3 \<and> is_active wm True i
       then cop_word Vmslt (elem_w wm 1 i :: 8 word) (operand1_w wm VV 2 0 0 i) else mbit wm 3 i)"
    by (auto simp: wm_sel)
  from e [rule_format, of 1] e [rule_format, of 9] r show ?thesis
    by (simp add: is_active_def cop_word_def operand1_w_def)
qed

text \<open>
  C5. A reduction folds the word operation over the active elements of the source group, starting
  from element 0 of \<open>vs1\<close>, into element 0 of the destination; with \<open>vl = 0\<close> it does nothing.
\<close>

theorem reduce_model_correct:
  fixes m :: vmodel
  assumes m: "wf_model m" and w: "m_sew m = LENGTH('w::len)" and r: "vd < 32" "vs1 < 32"
    and g: "vs2 + group_size (m_lmul m) \<le> 32"
  shows "\<exists>m'. reduce_model m op vm vd vs2 vs1 = Inr m' \<and> reg_step m m' \<and>
    (if m_vl m = 0 then m' = m
     else (elem_w m' vd 0 :: 'w word) =
       foldl (rop_word op) (elem_w m vs1 0) (map (elem_w m vs2) (filter (is_active m vm) [0..<m_vl m])))"
proof -
  let ?a = "foldl (rop_word op) (elem_w m vs1 0 :: 'w word) (map (elem_w m vs2) (filter (is_active m vm) [0..<m_vl m]))"
  note ok = elem_ok_sew [OF m r(1), unfolded w] elem_ok_sew [OF m r(2), unfolded w]
  have "reduce_model m op vm vd vs2 vs1 = Inr (if m_vl m = 0 then m else eset m vd 0 (m_sew m) (uint ?a))"
    using reduce_fold_word [OF m w g, of "m_vl m" op vm "elem_w m vs1 0"]
    by (simp add: reduce_model_def w uint_elem_w [OF ok(2)])
  moreover have "(elem_w (eset m vd 0 (m_sew m) (uint ?a)) vd 0 :: 'w word) = ?a"
    by (simp add: elem_w_def w eget_eset_same [OF ok(1)] word_of_int_py_mask)
  ultimately show ?thesis
    using reg_step_refl [OF m] reg_step_eset [OF m ok(1)] by (auto simp: w)
qed

theorem reduce_model_correct_witness:
  "\<exists>m'. reduce_model wm Vredsum True 3 1 2 = Inr m' \<and>
     elem_w m' 3 0 = (elem_w wm 2 0 + elem_w wm 1 0 + elem_w wm 1 1 + elem_w wm 1 2 :: 8 word)"
proof -
  have "wf_model wm" "m_sew wm = LENGTH(8)" by (simp_all add: wf_wm wm_sel)
  from reduce_model_correct [OF this, of 3 2 1 Vredsum True] show ?thesis
    by (auto simp: wm_sel is_active_def rop_word_def upt_rec numeral_2_eq_2)
qed

text \<open>
  C6. A slide moves the elements of the source group by its offset: active element \<open>i\<close> of the
  destination becomes element \<open>i - off\<close>, element \<open>i + off\<close> (zero beyond \<open>VLMAX\<close>), or the scalar at
  the end that a \<open>slide1\<close> fills; elements below the offset of \<open>vslideup\<close>, inactive and tail elements
  are undisturbed.
\<close>

theorem slide_model_correct:
  assumes m: "wf_model m" and g: "vd + group_size (m_lmul m) \<le> 32"
  shows "\<exists>m'. slide_model m k vm vd vs2 off x = Inr m' \<and> reg_step m m' \<and>
    (\<forall>i < vlmax m (m_sew m) (m_lmul m). eget m' vd i (m_sew m) =
      (if (k = SlideUp \<longrightarrow> off \<le> i) \<and> i < m_vl m \<and> is_active m vm i
       then py_mask (m_sew m) (slide_val m k vs2 off x i) else eget m vd i (m_sew m)))"
proof -
  let ?lo = "if k = SlideUp then off else 0"
  let ?m = "write_elems m vd (m_sew m) (map (\<lambda>i. (i, slide_val m k vs2 off x i)) (filter (is_active m vm) [?lo..<m_vl m]))"
  have "\<forall>i < m_vl m. elem_ok m vd i (m_sew m)" using elem_ok_lmul [OF m g] wf_vl_vlmax [OF m] by blast
  from write_elems_range(2) [OF m this elem_ok_lmul [OF m g]]
  have "eget ?m vd i (m_sew m) = (if ?lo \<le> i \<and> i < m_vl m \<and> is_active m vm i
      then py_mask (m_sew m) (slide_val m k vs2 off x i) else eget m vd i (m_sew m))"
    if "i < vlmax m (m_sew m) (m_lmul m)" for i
    using that by blast
  moreover have "reg_step m ?m" using reg_step_put_all [OF m g] by simp
  ultimately show ?thesis using slide_model_eq [OF m, of k vm vd vs2 off x] by auto
qed

theorem slide_model_correct_witness:
  "\<exists>m'. slide_model wm SlideUp True 3 1 1 0 = Inr m' \<and> eget m' 3 0 8 = eget wm 3 0 8 \<and>
     eget m' 3 2 8 = py_mask 8 (eget wm 1 1 8)"
proof -
  from slide_model_correct [OF wf_wm, of 3 SlideUp True 1 1 0] obtain m' where
    r: "slide_model wm SlideUp True 3 1 1 0 = Inr m'"
    and e: "\<forall>i < 8. eget m' 3 i 8 = (if 1 \<le> i \<and> i < 3 \<and> is_active wm True i
       then py_mask 8 (slide_val wm SlideUp 1 1 0 i) else eget wm 3 i 8)"
    by (auto simp: wm_sel)
  from e [rule_format, of 0] e [rule_format, of 2] r show ?thesis
    by (simp add: is_active_def slide_val_def wm_sel)
qed

text \<open>
  C7. Mask logic sets every bit below \<open>vl\<close> of the destination to the boolean operation of the two
  source bits, read before any is written, and changes nothing else.
\<close>

theorem masklogic_model_correct:
  assumes m: "wf_model m" and r: "vd < 32" "vs2 < 32" "vs1 < 32"
  shows "\<exists>m'. masklogic_model m op vd vs2 vs1 = Inr m' \<and> reg_step m m' \<and> m_mem m' = m_mem m \<and>
    (\<forall>i < m_vlen m. mbit m' vd i =
      (if m_vl m \<le> i then mbit m vd i
       else let a = mbit m vs2 i; b = mbit m vs1 i in
         (case op of Vmand \<Rightarrow> a \<and> b | Vmnand \<Rightarrow> \<not> (a \<and> b) | Vmandn \<Rightarrow> a \<and> \<not> b | Vmxor \<Rightarrow> a \<noteq> b
           | Vmor \<Rightarrow> a \<or> b | Vmnor \<Rightarrow> \<not> (a \<or> b) | Vmorn \<Rightarrow> a \<or> \<not> b | Vmxnor \<Rightarrow> a = b)))"
proof -
  let ?h = "\<lambda>i. masklogic_res op (of_bool (mbit m vs2 i)) (of_bool (mbit m vs1 i)) = 1"
  let ?m = "bits.put_all vd m (map (\<lambda>i. (i, ?h i)) [0..<m_vl m])"
  have "mbit ?m vd i = (if i < m_vl m \<and> True then ?h i else mbit m vd i)" if "i < m_vlen m" for i
    using mbit_put_all_range [OF m _ bit_ok_reg [OF m r(1) that], of "m_vl m" ?h "\<lambda>_. True"] bit_ok_vl [OF m r(1)]
    by simp
  then show ?thesis
    using masklogic_model_eq [OF m r, of op] reg_step_bits [OF m]
    by (auto simp: bits_put_all_frame masklogic_bool Let_def)
qed

theorem masklogic_model_correct_witness:
  "\<exists>m'. masklogic_model wm Vmandn 3 1 2 = Inr m' \<and> mbit m' 3 2 = (mbit wm 1 2 \<and> \<not> mbit wm 2 2) \<and>
     mbit m' 3 3 = mbit wm 3 3"
proof -
  from masklogic_model_correct [OF wf_wm, of 3 1 2 Vmandn] obtain m' where
    r: "masklogic_model wm Vmandn 3 1 2 = Inr m'"
    and e: "\<forall>i < 64. mbit m' 3 i = (if 3 \<le> i then mbit wm 3 i else mbit wm 1 i \<and> \<not> mbit wm 2 i)"
    by (auto simp: wm_sel Let_def)
  from e [rule_format, of 2] e [rule_format, of 3] r show ?thesis by simp
qed

subsection \<open>Memory instructions\<close>



text \<open>
  C8. \<open>vcpop.m\<close> counts the active set bits below \<open>vl\<close> and \<open>vfirst.m\<close> finds the least of them, or
  -1 as 32 bits when there is none.
\<close>

theorem cpop_first_correct:
  assumes m: "wf_model m" and r: "vs2 < 32"
  shows "\<exists>act. act_list m vm vs2 = Inr act \<and>
    cpop_res act = int (card {i. i < m_vl m \<and> is_active m vm i \<and> mbit m vs2 i}) \<and>
    first_res act = (if \<exists>i < m_vl m. is_active m vm i \<and> mbit m vs2 i
       then int (LEAST i. is_active m vm i \<and> mbit m vs2 i) else 0xFFFFFFFF)"
proof -
  let ?P = "\<lambda>i. is_active m vm i \<and> mbit m vs2 i"
  have "length (filter ?P [0..<m_vl m]) = card (set (filter ?P [0..<m_vl m]))"
    using distinct_card [of "filter ?P [0..<m_vl m]"] by simp
  moreover have "set (filter ?P [0..<m_vl m]) = {i. i < m_vl m \<and> ?P i}" by auto
  ultimately show ?thesis
    using act_list_eq [OF m r, of vm] first_res_filter [of ?P "m_vl m"] by (simp add: cpop_res_def)
qed

theorem cpop_first_correct_witness:
  "\<exists>act. act_list wm True 5 = Inr act \<and> cpop_res act = int (card {i. i < 3 \<and> mbit wm 5 i})"
  using cpop_first_correct [OF wf_wm, of 5 True] by (auto simp: wm_sel is_active_def)

subsection \<open>The generator\<close>



text \<open>
  C9. A register group that the allocator returns is aligned to its size, lies inside the register
  file, does not contain \<open>v0\<close> when that is forbidden and is disjoint from every range to avoid.
\<close>

theorem group_legal:
  assumes "group_size emul \<in> {1, 2, 4, 8}" "group emul avoid not_v0 g = Inr (Some (r, rng), g')"
  shows "rng = [r..<r + group_size emul] \<and> r + group_size emul \<le> 32 \<and> group_size emul dvd r \<and>
    (not_v0 \<longrightarrow> 0 \<notin> set rng) \<and> (\<forall>a \<in> set avoid. set a \<inter> set rng = {}) \<and> g_m g' = g_m g"
proof -
  have "res_ok gen_errors (rbind (group emul avoid not_v0 g) (\<lambda>(p, g'). Inr (p, g')))
      (\<lambda>(p, g'). g_m g' = g_m g \<and> (case p of None \<Rightarrow> True | Some p \<Rightarrow> legal_group (group_size emul) avoid not_v0 p))"
    by (rule group_bind [OF assms(1)]) auto
  then show ?thesis using assms(2) by (auto simp: legal_group_def list_all_iff)
qed

theorem group_legal_witness:
  "\<exists>g'. group 4 [[0, 1, 2, 3]] True \<lparr>g_rng = [0, 3], g_asm = [], g_m = wm, g_init = [], g_slots = 0\<rparr> =
      Inr (Some (12, [12, 13, 14, 15]), g') \<and> g_m g' = wm"
proof -
  let ?g = "\<lparr>g_rng = [0, 3], g_asm = [], g_m = wm, g_init = [], g_slots = 0\<rparr>"
  have n: "group_size 4 = 4" by (simp add: group_size_def)
  have "\<exists>g'. group 4 [[0, 1, 2, 3]] True ?g = Inr (Some (12, [12, 13, 14, 15]), g')"
  proof -
    have "(100 :: nat) = Suc (Suc 98)" by simp
    then have "group 4 [[0, 1, 2, 3]] True ?g = group_try (Suc (Suc 98)) 4 [[0, 1, 2, 3]] True ?g"
      unfolding group_def n by metis
    then show ?thesis by (simp only: group_try.simps) (simp add: draw_def Let_def)
  qed
  then obtain g' where "group 4 [[0, 1, 2, 3]] True ?g = Inr (Some (12, [12, 13, 14, 15]), g')" ..
  with group_legal [OF _ this] n show ?thesis by simp
qed

text \<open>
  C10. \<open>vset\<close> chooses a legal vector type and a vector length within its \<open>VLMAX\<close>, writes that length
  into the next result slot, where it reads back, and changes no vector register.
\<close>

theorem vset_correct:
  assumes m: "wf_model (g_m g)" and s: "g_slots g < 1024" and r: "vset g = Inr g'"
  shows "wf_vtype (m_sew (g_m g')) (m_lmul (g_m g')) \<and>
    m_vl (g_m g') \<le> vlmax (g_m g') (m_sew (g_m g')) (m_lmul (g_m g')) \<and>
    mget (g_m g') (OUT_S + 4 * g_slots g) 4 = int (m_vl (g_m g')) \<and>
    g_slots g' = g_slots g + 1 \<and> m_v (g_m g') = m_v (g_m g)"
proof -
  define Q where "Q g' \<longleftrightarrow> wf_vtype (m_sew (g_m g')) (m_lmul (g_m g')) \<and>
    m_vl (g_m g') \<le> vlmax (g_m g') (m_sew (g_m g')) (m_lmul (g_m g')) \<and>
    mget (g_m g') (OUT_S + 4 * g_slots g) 4 = int (m_vl (g_m g')) \<and>
    g_slots g' = g_slots g + 1 \<and> m_v (g_m g') = m_v (g_m g)" for g' :: gen
  have save: "Q (save_scalar g1 ''t0'' v)"
    if "wf_model (g_m g1)" "g_slots g1 = g_slots g" "m_v (g_m g1) = m_v (g_m g)" "v = int (m_vl (g_m g1))" for g1 v
  proof -
    have "m_vl (g_m g1) < m_vlen (g_m g1) + 1" "m_vlen (g_m g1) \<le> 256"
      using that(1) vlmax_le_vlen [of "g_m g1" "m_sew (g_m g1)" "m_lmul (g_m g1)"]
      by (auto simp: wf_model_def vlens_def)
    then have "py_mask 32 (int (m_vl (g_m g1))) = int (m_vl (g_m g1))" by (simp add: py_mask_id)
    moreover have "OUT_S + 4 * g_slots g + 4 \<le> length (m_mem (g_m g1))"
      using s wf_mem_length [OF that(1)] by (simp add: layout_defs)
    ultimately show ?thesis using that
      by (simp add: Q_def save_scalar_def Let_def mget_mset_same wf_model_def
          vlmax_cong [of "mset m a k v" m for m a k v])
  qed
  have "res_ok gen_errors (vset g) Q"
    unfolding vset_def Let_def
    apply (intro vset_loop_bind)
    apply (simp split del: if_split)
    apply (intro walk)
    apply (use m in \<open>auto intro!: save wf_model_vset simp: wf_model_def [of "g_m g"] vlmax_pos\<close>)
    done
  from res_okD [OF this r] show ?thesis unfolding Q_def .
qed

definition wg :: gen where
  "wg = \<lparr>g_rng = [0, 3, 4, 4, 50], g_asm = [], g_m = wm, g_init = [], g_slots = 0\<rparr>"

theorem vset_correct_witness:
  "\<exists>g'. vset wg = Inr g' \<and> mget (g_m g') OUT_S 4 = int (m_vl (g_m g')) \<and> m_v (g_m g') = m_v wm"
proof -
  have "\<exists>g'. vset wg = Inr g'"
    by (simp add: vset_def wg_def Let_def sews_def lmuls_def draw_def choice_def rand_lt_def wm_sel)
  then obtain g' where g': "vset wg = Inr g'" ..
  have "wf_model (g_m wg)" "g_slots wg < 1024" by (simp_all add: wg_def wf_wm)
  from vset_correct [OF this g'] g' show ?thesis by (simp add: wg_def)
qed




end
