(* ===== verification/Gdb_Model.thy ===== *)
theory Gdb_Model
  imports Py_Text "HOL-Library.AList"
begin

text \<open>
  \<^verbatim>\<open>sw/gdbstub.py\<close>: the server of the GDB remote serial protocol. A transport (the two methods
  \<open>w32\<close> and \<open>r32\<close> of a DMI object) is a value of \<open>dmi_ops\<close>, so the class \<open>GdbStub\<close> is the
  definitions \<open>halt\<close> to \<open>handle\<close> over any transport; \<open>MockDMI\<close> and \<open>SerialDMI\<close> are two of them. The
  serial port is the bytes written and the bytes still to be read; a read past the end returns
  fewer bytes, as a read that times out does. The socket loop \<open>serve\<close> consumes the list of the
  non-empty chunks \<open>recv\<close> returns.
\<close>

unbundle bit_operations_syntax

definition CONTROL :: int where "CONTROL = 0x00"
definition STATUS :: int where "STATUS = 0x04"
definition REGSEL :: int where "REGSEL = 0x08"
definition REGDATA :: int where "REGDATA = 0x0C"
definition DPC :: int where "DPC = 0x10"
definition MEMADDR :: int where "MEMADDR = 0x14"
definition MEMDATA :: int where "MEMDATA = 0x18"
definition BPSEL :: int where "BPSEL = 0x1C"
definition BPSET :: int where "BPSET = 0x20"
definition BPCLR :: int where "BPCLR = 0x24"
definition NBP :: nat where "NBP = 4"

lemmas dmi_map = CONTROL_def STATUS_def REGSEL_def REGDATA_def DPC_def MEMADDR_def MEMDATA_def
  BPSEL_def BPSET_def BPCLR_def

record 'd dmi_ops =
  w32 :: "'d \<Rightarrow> int \<Rightarrow> int \<Rightarrow> 'd res"
  r32 :: "'d \<Rightarrow> int \<Rightarrow> (int \<times> 'd) res"

subsection \<open>\<open>SerialDMI\<close>\<close>

record serial =
  tx :: "byte list"
  rx :: "byte list"

definition chr_byte :: "char \<Rightarrow> byte" where
  "chr_byte c = of_nat (of_char c)"

definition serial_w32 :: "serial \<Rightarrow> int \<Rightarrow> int \<Rightarrow> serial res" where
  "serial_w32 s a v =
     rbind (py_to_bytes 4 a) (\<lambda>ab. rbind (py_to_bytes 4 (py_mask 32 v)) (\<lambda>vb.
       Inr (s\<lparr>tx := tx s @ [chr_byte (CHR ''W'')] @ ab @ vb\<rparr>)))"

definition serial_r32 :: "serial \<Rightarrow> int \<Rightarrow> (int \<times> serial) res" where
  "serial_r32 s a =
     rbind (py_to_bytes 4 a) (\<lambda>ab.
       Inr (from_bytes_le (take 4 (rx s)), s\<lparr>tx := tx s @ [chr_byte (CHR ''R'')] @ ab, rx := drop 4 (rx s)\<rparr>))"

definition serial_ops :: "serial dmi_ops" where
  "serial_ops = \<lparr>w32 = serial_w32, r32 = serial_r32\<rparr>"

subsection \<open>\<open>MockDMI\<close>\<close>

record mock =
  regs :: "int list"
  pc :: int
  mmem :: "int \<Rightarrow> int option"
  halted :: bool
  regsel :: nat
  memaddr :: int
  bpsel :: nat
  bp :: "int option list"

definition mock_init :: mock where
  "mock_init = \<lparr>regs = (replicate 32 0)[15 := 42], pc = 0x100, mmem = Map.empty, halted = True, regsel = 0,
     memaddr = 0, bpsel = 0, bp = replicate NBP None\<rparr>"

fun mock_run :: "nat \<Rightarrow> bool \<Rightarrow> mock \<Rightarrow> mock" where
  "mock_run 0 stp d = d\<lparr>halted := True\<rparr>"
| "mock_run (Suc n) stp d =
     (let d = d\<lparr>pc := py_mask 32 (pc d + 4)\<rparr> in
      if Some (pc d) \<in> set (bp d) then d\<lparr>halted := True\<rparr>
      else if stp then d\<lparr>halted := True\<rparr>
      else mock_run n stp d)"

definition mock_w32 :: "mock \<Rightarrow> int \<Rightarrow> int \<Rightarrow> mock res" where
  "mock_w32 d a v =
     (let v = py_mask 32 v in
      if a = CONTROL then
        (let d = (if v AND 1 \<noteq> 0 then d\<lparr>halted := True\<rparr> else d);
             d = (if v AND 2 \<noteq> 0 then mock_run 100000 False (d\<lparr>halted := False\<rparr>) else d);
             d = (if v AND 4 \<noteq> 0 then mock_run 100000 True (d\<lparr>halted := False\<rparr>) else d)
         in Inr d)
      else if a = REGSEL then Inr (d\<lparr>regsel := nat (v AND 31)\<rparr>)
      else if a = REGDATA then rbind (py_set (regs d) (regsel d) v) (\<lambda>rs. Inr (d\<lparr>regs := rs\<rparr>))
      else if a = DPC then Inr (d\<lparr>pc := v\<rparr>)
      else if a = MEMADDR then Inr (d\<lparr>memaddr := v\<rparr>)
      else if a = MEMDATA then Inr (d\<lparr>mmem := (mmem d)(memaddr d AND NOT 3 \<mapsto> v)\<rparr>)
      else if a = BPSEL then Inr (d\<lparr>bpsel := nat v mod NBP\<rparr>)
      else if a = BPSET then rbind (py_set (bp d) (bpsel d) (Some v)) (\<lambda>bs. Inr (d\<lparr>bp := bs\<rparr>))
      else if a = BPCLR then rbind (py_set (bp d) (bpsel d) None) (\<lambda>bs. Inr (d\<lparr>bp := bs\<rparr>))
      else Inr d)"

definition mock_r32 :: "mock \<Rightarrow> int \<Rightarrow> (int \<times> mock) res" where
  "mock_r32 d a =
     (if a = STATUS then Inr (if halted d then 1 else 0, d)
      else if a = REGDATA then rbind (py_get (regs d) (regsel d)) (\<lambda>v. Inr (v, d))
      else if a = DPC then Inr (pc d, d)
      else if a = MEMDATA then Inr (case mmem d (memaddr d AND NOT 3) of None \<Rightarrow> 0 | Some v \<Rightarrow> v, d)
      else Inr (0, d))"

definition mock_ops :: "mock dmi_ops" where
  "mock_ops = \<lparr>w32 = mock_w32, r32 = mock_r32\<rparr>"

subsection \<open>\<open>GdbStub\<close>: operations over the transport\<close>

record 'd stub =
  dmi :: 'd
  bp_slots :: "(int \<times> nat) list"

definition stub_init :: "'d \<Rightarrow> 'd stub" where
  "stub_init d = \<lparr>dmi = d, bp_slots = []\<rparr>"

definition dmi_w :: "'d dmi_ops \<Rightarrow> 'd stub \<Rightarrow> int \<Rightarrow> int \<Rightarrow> 'd stub res" where
  "dmi_w D s a v = rbind (w32 D (dmi s) a v) (\<lambda>d. Inr (s\<lparr>dmi := d\<rparr>))"

definition dmi_r :: "'d dmi_ops \<Rightarrow> 'd stub \<Rightarrow> int \<Rightarrow> (int \<times> 'd stub) res" where
  "dmi_r D s a = rbind (r32 D (dmi s) a) (\<lambda>(x, d). Inr (x, s\<lparr>dmi := d\<rparr>))"

definition halt :: "'d dmi_ops \<Rightarrow> 'd stub \<Rightarrow> 'd stub res" where
  "halt D s = dmi_w D s CONTROL 1"

definition cont :: "'d dmi_ops \<Rightarrow> 'd stub \<Rightarrow> 'd stub res" where
  "cont D s = dmi_w D s CONTROL 2"

definition step :: "'d dmi_ops \<Rightarrow> 'd stub \<Rightarrow> 'd stub res" where
  "step D s = dmi_w D s CONTROL 4"

definition is_halted :: "'d dmi_ops \<Rightarrow> 'd stub \<Rightarrow> (int \<times> 'd stub) res" where
  "is_halted D s = rbind (dmi_r D s STATUS) (\<lambda>(x, s). Inr (x AND 1, s))"

definition rd_reg :: "'d dmi_ops \<Rightarrow> 'd stub \<Rightarrow> int \<Rightarrow> (int \<times> 'd stub) res" where
  "rd_reg D s i =
     (if i = 32 then dmi_r D s DPC else rbind (dmi_w D s REGSEL i) (\<lambda>s. dmi_r D s REGDATA))"

definition wr_reg :: "'d dmi_ops \<Rightarrow> 'd stub \<Rightarrow> int \<Rightarrow> int \<Rightarrow> 'd stub res" where
  "wr_reg D s i v =
     (if i = 32 then dmi_w D s DPC v else rbind (dmi_w D s REGSEL i) (\<lambda>s. dmi_w D s REGDATA v))"

definition rd_word :: "'d dmi_ops \<Rightarrow> 'd stub \<Rightarrow> int \<Rightarrow> (int \<times> 'd stub) res" where
  "rd_word D s a = rbind (dmi_w D s MEMADDR (a AND NOT 3)) (\<lambda>s. dmi_r D s MEMDATA)"

definition wr_word :: "'d dmi_ops \<Rightarrow> 'd stub \<Rightarrow> int \<Rightarrow> int \<Rightarrow> 'd stub res" where
  "wr_word D s a v = rbind (dmi_w D s MEMADDR (a AND NOT 3)) (\<lambda>s. dmi_w D s MEMDATA v)"

fun rd_mem :: "'d dmi_ops \<Rightarrow> 'd stub \<Rightarrow> int \<Rightarrow> nat \<Rightarrow> (byte list \<times> 'd stub) res" where
  "rd_mem D s a 0 = Inr ([], s)"
| "rd_mem D s a (Suc n) =
     rbind (rd_word D s a) (\<lambda>(w, s).
     rbind (rd_mem D s (a + 1) n) (\<lambda>(bs, s).
       Inr (word_of_int (drop_bit (8 * nat (a AND 3)) w) # bs, s)))"

fun wr_mem :: "'d dmi_ops \<Rightarrow> 'd stub \<Rightarrow> int \<Rightarrow> byte list \<Rightarrow> 'd stub res" where
  "wr_mem D s a [] = Inr s"
| "wr_mem D s a (b # bs) =
     rbind (rd_word D s a) (\<lambda>(w, s).
     let sh = 8 * nat (a AND 3) in
     rbind (wr_word D s a ((w AND NOT (push_bit sh 0xff)) OR push_bit sh (uint b))) (\<lambda>s.
       wr_mem D s (a + 1) bs))"

definition set_bp :: "'d dmi_ops \<Rightarrow> 'd stub \<Rightarrow> int \<Rightarrow> 'd stub res" where
  "set_bp D s addr =
     (let idx = length (bp_slots s) mod NBP;
          s = s\<lparr>bp_slots := AList.update addr idx (bp_slots s)\<rparr> in
      rbind (dmi_w D s BPSEL (int idx)) (\<lambda>s. dmi_w D s BPSET addr))"

definition clr_bp :: "'d dmi_ops \<Rightarrow> 'd stub \<Rightarrow> int \<Rightarrow> 'd stub res" where
  "clr_bp D s addr =
     (case map_of (bp_slots s) addr of
        None \<Rightarrow> Inr s
      | Some idx \<Rightarrow>
          rbind (dmi_w D s BPSEL (int idx)) (\<lambda>s. rbind (dmi_w D s BPCLR 0) (\<lambda>s.
            Inr (s\<lparr>bp_slots := AList.delete addr (bp_slots s)\<rparr>))))"

subsection \<open>\<open>GdbStub.handle\<close>\<close>

definition hexreg :: "int \<Rightarrow> string" where
  "hexreg v = concat (map (\<lambda>i. fmt_0x 2 (nat (py_mask 8 (drop_bit (8 * i) v)))) [0..<4])"

definition int16 :: "string \<Rightarrow> int res" where
  "int16 s = (case py_int 16 s of None \<Rightarrow> Inl ValueError | Some v \<Rightarrow> Inr v)"

definition unhex :: "string \<Rightarrow> byte list res" where
  "unhex s = (case fromhex s of None \<Rightarrow> Inl ValueError | Some bs \<Rightarrow> Inr bs)"

definition split2 :: "char \<Rightarrow> string \<Rightarrow> (string \<times> string) res" where
  "split2 sep s = (case split_on sep s of [a, b] \<Rightarrow> Inr (a, b) | _ \<Rightarrow> Inl ValueError)"

definition split3 :: "char \<Rightarrow> string \<Rightarrow> (string \<times> string \<times> string) res" where
  "split3 sep s = (case split_on sep s of [a, b, c] \<Rightarrow> Inr (a, b, c) | _ \<Rightarrow> Inl ValueError)"

fun rd_regs :: "'d dmi_ops \<Rightarrow> 'd stub \<Rightarrow> nat list \<Rightarrow> (string \<times> 'd stub) res" where
  "rd_regs D s [] = Inr ([], s)"
| "rd_regs D s (i # is) =
     rbind (rd_reg D s (int i)) (\<lambda>(v, s). rbind (rd_regs D s is) (\<lambda>(t, s). Inr (hexreg v @ t, s)))"

definition wr_regs :: "'d dmi_ops \<Rightarrow> 'd stub \<Rightarrow> string \<Rightarrow> nat list \<Rightarrow> 'd stub res" where
  "wr_regs D s t is =
     rfold (\<lambda>s i. rbind (unhex (take 8 (drop (i * 8) t))) (\<lambda>bs. wr_reg D s (int i) (from_bytes_le bs))) s is"

definition okay :: "'d stub res \<Rightarrow> string \<Rightarrow> (string \<times> 'd stub) res" where
  "okay r t = rbind r (\<lambda>s. Inr (t, s))"

definition handle :: "'d dmi_ops \<Rightarrow> 'd stub \<Rightarrow> string \<Rightarrow> (string \<times> 'd stub) res" where
  "handle D s pkt =
     (let c = take 1 pkt; t = drop 1 pkt in
      if startswith pkt ''qSupported'' then Inr (''PacketSize=1000;hwbreak+'', s)
      else if pkt = ''qAttached'' then Inr (''1'', s)
      else if pkt = ''qC'' \<or> pkt = ''qfThreadInfo'' \<or> pkt = ''qsThreadInfo'' \<or> pkt = ''qTStatus''
        then Inr (if pkt \<noteq> ''qfThreadInfo'' then [] else ''m0'', s)
      else if c = ''?'' then okay (halt D s) ''S05''
      else if c = ''g'' then rd_regs D s [0..<33]
      else if c = ''G'' then okay (wr_regs D s t [0..<33]) ''OK''
      else if c = ''p'' then
        rbind (int16 t) (\<lambda>i. rbind (rd_reg D s i) (\<lambda>(v, s). Inr (hexreg v, s)))
      else if c = ''P'' then
        rbind (split2 (CHR ''='') t) (\<lambda>(r, v). rbind (int16 r) (\<lambda>i. rbind (unhex v) (\<lambda>bs.
          okay (wr_reg D s i (from_bytes_le bs)) ''OK'')))
      else if c = ''m'' then
        rbind (split2 (CHR '','') t) (\<lambda>(a, l). rbind (int16 a) (\<lambda>a. rbind (int16 l) (\<lambda>l.
          rbind (rd_mem D s a (nat l)) (\<lambda>(bs, s). Inr (bytes_hex bs, s)))))
      else if c = ''M'' then
        rbind (split2 (CHR '':'') t) (\<lambda>(head, data). rbind (split2 (CHR '','') head) (\<lambda>(a, l).
          rbind (int16 a) (\<lambda>a. rbind (unhex data) (\<lambda>bs. okay (wr_mem D s a bs) ''OK''))))
      else if c = ''c'' then okay (cont D s) ''S05''
      else if c = ''s'' then okay (step D s) ''S05''
      else if c = ''Z'' \<or> c = ''z'' then
        rbind (split3 (CHR '','') t) (\<lambda>(typ, addr, _).
          if typ = ''0'' \<or> typ = ''1'' then
            rbind (int16 addr) (\<lambda>a. okay (if c = ''Z'' then set_bp D s a else clr_bp D s a) ''OK'')
          else Inr ([], s))
      else Inr ([], s))"

subsection \<open>Framing and the server loop\<close>

text \<open>\<open>s.encode()\<close>: UTF-8 of the 256 code points a character can be.\<close>

definition utf8 :: "char \<Rightarrow> nat list" where
  "utf8 c = (let n = of_char c in if n < 128 then [n] else [192 + n div 64, 128 + n mod 64])"

definition checksum :: "string \<Rightarrow> nat" where
  "checksum s = sum_list (concat (map utf8 s)) mod 256"

definition frame :: "string \<Rightarrow> string" where
  "frame body = ''$'' @ body @ ''#'' @ fmt_0x 2 (checksum body)"

definition ctrl_c :: char where
  "ctrl_c = char_of (3 :: nat)"

text \<open>The inner loop: as long as a \<open>#\<close> and two more characters are in the buffer.\<close>

function (sequential) serve_buf :: "'d dmi_ops \<Rightarrow> 'd stub \<Rightarrow> string \<Rightarrow> (string \<times> string \<times> 'd stub) res" where
  "serve_buf D s buf =
     (case index_of (CHR ''#'') buf of
        None \<Rightarrow> Inr ([], buf, s)
      | Some k \<Rightarrow>
          if \<not> k + 2 < length buf then Inr ([], buf, s)
          else if take 1 buf = [ctrl_c] then
            rbind (halt D s) (\<lambda>s. rbind (serve_buf D s (drop 1 buf)) (\<lambda>(out, rest, s).
              Inr (''+'' @ frame ''S05'' @ out, rest, s)))
          else
            (case index_of (CHR ''$'') buf of
               None \<Rightarrow> Inl ValueError
             | Some i \<Rightarrow>
                 (case index_from (CHR ''#'') buf i of
                    None \<Rightarrow> Inl ValueError
                  | Some j \<Rightarrow>
                      rbind (handle D s (take (j - (i + 1)) (drop (i + 1) buf))) (\<lambda>(reply, s).
                      rbind (serve_buf D s (drop (j + 3) buf)) (\<lambda>(out, rest, s).
                        Inr (''+'' @ frame reply @ out, rest, s))))))"
  by pat_completeness auto

termination
  by (relation "measure (\<lambda>(D, s, buf). length buf)")
     (auto dest!: index_of_Some simp: index_from_def)

declare serve_buf.simps [simp del]

text \<open>The outer loop over the chunks \<open>recv\<close> returns; it ends when the connection closes.\<close>

fun serve :: "'d dmi_ops \<Rightarrow> 'd stub \<Rightarrow> string \<Rightarrow> string list \<Rightarrow> (string \<times> string \<times> 'd stub) res" where
  "serve D s buf [] = Inr ([], buf, s)"
| "serve D s buf (data # chunks) =
     rbind (serve_buf D s (buf @ data)) (\<lambda>(out, buf, s).
     rbind (serve D s buf chunks) (\<lambda>(out', buf, s). Inr (out @ out', buf, s)))"

subsection \<open>The self-test\<close>

text \<open>
  The checks of \<open>selftest\<close>, in order. \<open>selftest_a\<close> runs the checks before the first step and gives the
  conjunction of their results with the program counter \<open>pc0\<close>.
\<close>

definition selftest_a :: "((bool \<times> int) \<times> mock stub) res" where
  "selftest_a =
     (let D = mock_ops; s = stub_init mock_init in
      rbind (handle D s ''qSupported'') (\<lambda>(r1, s).
      rbind (handle D s ''?'') (\<lambda>(r2, s).
      rbind (is_halted D s) (\<lambda>(r3, s).
      rbind (handle D s ''pf'') (\<lambda>(r4, s).
      rbind (handle D s ''P6=efbeadde'') (\<lambda>(_, s).
      rbind (handle D s ''p6'') (\<lambda>(r5, s).
      rbind (handle D s ''M300,4:78563412'') (\<lambda>(_, s).
      rbind (handle D s ''m300,4'') (\<lambda>(r6, s).
      rbind (handle D s ''g'') (\<lambda>(g, s).
      rbind (rd_reg D s 32) (\<lambda>(pc0, s).
        Inr ((sublist ''hwbreak+'' r1 \<and> r2 = ''S05'' \<and> r3 = 1 \<and> r4 = hexreg 42 \<and> r5 = hexreg 0xDEADBEEF \<and>
              r6 = ''78563412'' \<and> length g = 33 * 8, pc0), s))))))))))))"

definition selftest :: "int res" where
  "selftest =
     rbind selftest_a (\<lambda>((ok, pc0), s).
     rbind (handle mock_ops s ''s'') (\<lambda>(_, s).
     rbind (rd_reg mock_ops s 32) (\<lambda>(pc1, s).
     rbind (handle mock_ops s ''Z1,200,4'') (\<lambda>(_, s).
     rbind (handle mock_ops s ''c'') (\<lambda>(_, s).
     rbind (rd_reg mock_ops s 32) (\<lambda>(v, s).
       Inr (if ok \<and> pc1 \<noteq> pc0 \<and> v = 0x200 then 0 else 1)))))))"

end
