(* ===== verification/Gdb_Debug.thy ===== *)
theory Gdb_Debug
  imports Gdb_Model
begin

text \<open>
  The debug module as the stub sees it. The locale \<open>debug_module\<close> states the contract of the DMI
  register map (select a register or a memory word, then read or write it) over an abstract core;
  the operations of \<open>GdbStub\<close> are proved against the contract once and \<open>MockDMI\<close> is shown to keep
  it. The contract says of breakpoints only that no register or memory access touches them; setting
  them and running are concrete in the mock.
\<close>

record core =
  c_regs :: "nat \<Rightarrow> int"
  c_pc :: int
  c_mem :: "int \<Rightarrow> int"
  c_bps :: "int option list"

definition regval :: "core \<Rightarrow> nat \<Rightarrow> int" where
  "regval c i = (if i = 32 then c_pc c else c_regs c i)"

definition set_regval :: "nat \<Rightarrow> int \<Rightarrow> core \<Rightarrow> core" where
  "set_regval i v c = (if i = 32 then c\<lparr>c_pc := v\<rparr> else c\<lparr>c_regs := (c_regs c)(i := v)\<rparr>)"

subsection \<open>Byte lanes of a word\<close>

definition lane :: "int \<Rightarrow> nat \<Rightarrow> byte" where
  "lane w l = word_of_int (drop_bit (8 * l) w)"

definition memb :: "core \<Rightarrow> int \<Rightarrow> byte" where
  "memb c a = lane (c_mem c (a AND NOT 3)) (nat (a AND 3))"

lemma and_3_mod: "(a :: int) AND 3 = a mod 4"
proof -
  have "a AND mask 2 = take_bit 2 a" by (simp add: take_bit_eq_mask)
  then show ?thesis by (simp add: take_bit_eq_mod mask_eq_exp_minus_1)
qed

lemma and_not_3_div: "(a :: int) AND NOT 3 = 4 * (a div 4)"
proof -
  have "a AND NOT (mask 2) = push_bit 2 (drop_bit 2 a)"
  proof (rule bit_eqI)
    fix n
    show "bit (a AND NOT (mask 2)) n = bit (push_bit 2 (drop_bit 2 a)) n"
      by (cases "2 \<le> n") (auto simp: bit_simps dest!: le_Suc_ex)
  qed
  then show ?thesis by (simp add: push_bit_eq_mult drop_bit_eq_div mask_eq_exp_minus_1 mult.commute)
qed

lemma aligned:
  fixes a :: int
  assumes "0 \<le> a" "a < 2 ^ 32"
  shows "0 \<le> a AND NOT 3 \<and> a AND NOT 3 < 2 ^ 32 \<and> (a AND NOT 3) AND NOT 3 = a AND NOT 3"
proof -
  have "(a AND NOT 3) AND NOT 3 = a AND NOT 3" by (simp only: and.assoc and.idem)
  moreover have "0 \<le> a AND NOT 3" "a AND NOT 3 < 2 ^ 32"
    unfolding and_not_3_div using assms by presburger+
  ultimately show ?thesis by blast
qed

lemma lane_of_bits: "k < 8 \<Longrightarrow> bit (lane w l) k = bit w (8 * l + k)"
  by (simp add: lane_def bit_simps)

lemma lane_update:
  assumes "l < 4" "l' < 4"
  shows "lane (py_mask 32 ((w AND NOT (push_bit (8 * l) 0xff)) OR push_bit (8 * l) (uint b))) l' =
    (if l' = l then b else lane w l')"
proof (rule bit_word_eqI)
  fix k assume k: "k < LENGTH(8)"
  have m: "(0xff :: int) = mask 8" by (simp add: mask_eq_exp_minus_1)
  have p: "8 * l' + k < 32" using assms k by simp
  have "8 * l \<le> 8 * l' + k \<and> 8 * l' + k - 8 * l < 8 \<longleftrightarrow> l' = l" using k by auto
  then show "bit (lane (py_mask 32 ((w AND NOT (push_bit (8 * l) 0xff)) OR push_bit (8 * l) (uint b))) l') k =
      bit (if l' = l then b else lane w l') k"
    unfolding m using k p
    by (cases "l' = l") (auto simp: lane_of_bits py_mask_take_bit bit_simps bit_uint_iff dest: bit_imp_le_length)
qed

lemma same_addr: "a = x \<longleftrightarrow> a AND NOT 3 = x AND NOT 3 \<and> nat (a AND 3) = nat ((x :: int) AND 3)"
proof -
  have "a = 4 * (a div 4) + a mod 4" "x = 4 * (x div 4) + x mod 4" by simp_all
  then show ?thesis unfolding and_3_mod and_not_3_div
    by (metis nat_eq_iff pos_mod_sign zero_less_numeral)
qed

lemma memb_upd:
  "memb (c\<lparr>c_mem := (c_mem c)(a AND NOT 3 := py_mask 32 ((c_mem c (a AND NOT 3) AND NOT (push_bit (8 * nat (a AND 3)) 0xff))
      OR push_bit (8 * nat (a AND 3)) (uint b)))\<rparr>) x = (if x = a then b else memb c x)"
proof -
  have l: "nat (y AND 3) < 4" for y :: int
  proof -
    have "y mod 4 < 4" by simp
    then show ?thesis unfolding and_3_mod by linarith
  qed
  show ?thesis
    using lane_update [OF l [of a] l [of x]] same_addr [of x a] by (auto simp: memb_def)
qed

subsection \<open>Registers in hexadecimal\<close>

lemma hexreg_bytes: "hexreg v = bytes_hex (to_bytes_le 4 v)"
proof -
  have b: "nat (py_mask 8 x) = unat (word_of_int x :: byte)" for x
    by (simp add: py_mask_take_bit unsigned_of_int)
  have "to_bytes_le 4 v = map (\<lambda>i. word_of_int (drop_bit (8 * i) v)) [0..<4]"
    by (simp add: numeral_eq_Suc upt_rec drop_bit_eq_div zdiv_zmult2_eq [symmetric])
  then show ?thesis by (simp add: hexreg_def bytes_hex_def b o_def)
qed

lemma length_hexreg: "length (hexreg v) = 8"
  by (simp add: hexreg_bytes length_bytes_hex)

lemma unhex_hexreg: "unhex (hexreg v) = Inr (to_bytes_le 4 v)"
  by (simp add: unhex_def hexreg_bytes fromhex_hex)

lemma hexreg_mask: "hexreg (py_mask 32 v) = hexreg v"
proof -
  have "v mod 2 ^ 32 = v mod 256 ^ 4" by simp
  then show ?thesis by (metis hexreg_bytes py_mask_mod to_bytes_le_mod)
qed

lemma from_bytes_hexreg: "from_bytes_le (to_bytes_le 4 v) = py_mask 32 v"
  by (simp add: from_to_bytes_le py_mask_mod)

lemma drop_hexregs:
  "i < length vs \<Longrightarrow> take 8 (drop (i * 8) (concat (map hexreg vs))) = hexreg (vs ! i)"
proof (induction vs arbitrary: i)
  case (Cons v vs)
  then show ?case by (cases i) (simp_all add: length_hexreg)
qed simp

subsection \<open>Parsing the packets of the protocol\<close>

lemma hex_no_sep:
  "c \<notin> set hex_chars \<Longrightarrow> c \<notin> set (str_base 16 n)" "c \<notin> set hex_chars \<Longrightarrow> c \<notin> set (bytes_hex bs)"
  using str_base_hex [of 16 n] fmt_0x_hex by (auto simp: bytes_hex_def)

lemma seps_not_hex: "CHR ''='' \<notin> set hex_chars" "CHR '','' \<notin> set hex_chars" "CHR '':'' \<notin> set hex_chars"
  "CHR ''#'' \<notin> set hex_chars" "CHR ''$'' \<notin> set hex_chars"
  by (simp_all add: hex_chars_def)

lemma int16_str [simp]: "int16 (str_base 16 n) = Inr (int n)"
  by (simp add: int16_def py_int_str_base)

lemma unhex_hex [simp]: "unhex (bytes_hex bs) = Inr bs"
  by (simp add: unhex_def fromhex_hex)

lemma split2_hex:
  "c \<notin> set a \<Longrightarrow> c \<notin> set b \<Longrightarrow> split2 c (a @ c # b) = Inr (a, b)"
  by (simp add: split2_def split_on_append split_on_plain)

lemma split2_fields [simp]:
  "split2 (CHR ''='') (str_base 16 n @ CHR ''='' # bytes_hex bs) = Inr (str_base 16 n, bytes_hex bs)"
  "split2 (CHR '','') (str_base 16 n @ CHR '','' # str_base 16 k) = Inr (str_base 16 n, str_base 16 k)"
  "split2 (CHR '':'') (str_base 16 n @ CHR '','' # str_base 16 k @ CHR '':'' # bytes_hex bs) =
     Inr (str_base 16 n @ CHR '','' # str_base 16 k, bytes_hex bs)"
  using split2_hex [of "CHR '':''" "str_base 16 n @ CHR '','' # str_base 16 k" "bytes_hex bs"]
  by (simp_all add: split2_hex hex_no_sep seps_not_hex)

subsection \<open>The contract\<close>

locale debug_module =
  fixes D :: "'d dmi_ops" and ok :: "'d \<Rightarrow> bool" and abs :: "'d \<Rightarrow> core"
  assumes regsel_law: "ok d \<Longrightarrow> i < 32 \<Longrightarrow>
      \<exists>d'. w32 D d REGSEL (int i) = Inr d' \<and> ok d' \<and> abs d' = abs d \<and>
        r32 D d' REGDATA = Inr (c_regs (abs d) i, d') \<and>
        (\<forall>v. \<exists>d''. w32 D d' REGDATA v = Inr d'' \<and> ok d'' \<and>
           abs d'' = (abs d)\<lparr>c_regs := (c_regs (abs d))(i := py_mask 32 v)\<rparr>)"
    and dpc_law: "ok d \<Longrightarrow> r32 D d DPC = Inr (c_pc (abs d), d) \<and>
        (\<exists>d'. w32 D d DPC v = Inr d' \<and> ok d' \<and> abs d' = (abs d)\<lparr>c_pc := py_mask 32 v\<rparr>)"
    and mem_law: "ok d \<Longrightarrow> 0 \<le> a \<Longrightarrow> a < 2 ^ 32 \<Longrightarrow> a AND NOT 3 = a \<Longrightarrow>
      \<exists>d'. w32 D d MEMADDR a = Inr d' \<and> ok d' \<and> abs d' = abs d \<and>
        r32 D d' MEMDATA = Inr (c_mem (abs d) a, d') \<and>
        (\<forall>v. \<exists>d''. w32 D d' MEMDATA v = Inr d'' \<and> ok d'' \<and>
           abs d'' = (abs d)\<lparr>c_mem := (c_mem (abs d))(a := py_mask 32 v)\<rparr>)"
begin

definition good :: "'d stub \<Rightarrow> core \<Rightarrow> 'd stub \<Rightarrow> bool" where
  "good s c s' \<longleftrightarrow> ok (dmi s') \<and> abs (dmi s') = c \<and> bp_slots s' = bp_slots s"

lemma good_trans: "good s c s' \<Longrightarrow> good s' c' s'' \<Longrightarrow> good s c' s''"
  by (simp add: good_def)

lemma good_self: "good s c s' \<Longrightarrow> good s' c s'"
  by (simp add: good_def)

lemma rd_reg_ok:
  "good s0 c s \<Longrightarrow> i \<le> 32 \<Longrightarrow> \<exists>s'. rd_reg D s (int i) = Inr (regval c i, s') \<and> good s0 c s'"
  using regsel_law [of "dmi s" i] dpc_law [of "dmi s"]
  by (cases "i = 32") (auto simp: rd_reg_def dmi_w_def dmi_r_def good_def regval_def)

lemma wr_reg_ok:
  assumes g: "good s0 c s" and i: "i \<le> 32"
  shows "\<exists>s'. wr_reg D s (int i) v = Inr s' \<and> good s0 (set_regval i (py_mask 32 v) c) s'"
proof (cases "i = 32")
  case True
  then show ?thesis using g dpc_law [of "dmi s" v]
    by (auto simp: wr_reg_def dmi_w_def good_def set_regval_def)
next
  case False
  then obtain d where d: "w32 D (dmi s) REGSEL (int i) = Inr d"
    "\<forall>v. \<exists>d''. w32 D d REGDATA v = Inr d'' \<and> ok d'' \<and>
       abs d'' = (abs (dmi s))\<lparr>c_regs := (c_regs (abs (dmi s)))(i := py_mask 32 v)\<rparr>"
    using g i regsel_law [of "dmi s" i] by (auto simp: good_def)
  from d(2) obtain d' where "w32 D d REGDATA v = Inr d'" "ok d'"
    "abs d' = (abs (dmi s))\<lparr>c_regs := (c_regs (abs (dmi s)))(i := py_mask 32 v)\<rparr>" by blast
  with d(1) g False show ?thesis by (auto simp: wr_reg_def dmi_w_def good_def set_regval_def)
qed

lemma rd_regs_ok:
  "good s0 c s \<Longrightarrow> \<forall>i \<in> set is. i \<le> 32 \<Longrightarrow>
    \<exists>s'. rd_regs D s is = Inr (concat (map (\<lambda>i. hexreg (regval c i)) is), s') \<and> good s0 c s'"
proof (induction "is" arbitrary: s)
  case (Cons i "is")
  obtain s1 where "rd_reg D s (int i) = Inr (regval c i, s1)" "good s0 c s1"
    using rd_reg_ok [OF Cons.prems(1)] Cons.prems(2) by auto
  with Cons.IH [of s1] Cons.prems(2) show ?case by auto
qed simp

lemma wr_regs_ok:
  "good s0 c s \<Longrightarrow> \<forall>i \<in> set is. i \<le> 32 \<and> i < length vs \<Longrightarrow>
    \<exists>s'. wr_regs D s (concat (map hexreg vs)) is = Inr s' \<and>
      good s0 (foldl (\<lambda>c i. set_regval i (py_mask 32 (vs ! i)) c) c is) s'"
proof (induction "is" arbitrary: s c)
  case (Cons i "is")
  obtain s1 where "wr_reg D s (int i) (py_mask 32 (vs ! i)) = Inr s1"
    "good s0 (set_regval i (py_mask 32 (py_mask 32 (vs ! i))) c) s1"
    using wr_reg_ok [OF Cons.prems(1), of i "py_mask 32 (vs ! i)"] Cons.prems(2) by auto
  moreover have "py_mask 32 (py_mask 32 (vs ! i)) = py_mask 32 (vs ! i)" by (simp add: py_mask_mod)
  ultimately show ?case using Cons.IH [of _ s1] Cons.prems(2)
    by (auto simp: wr_regs_def drop_hexregs unhex_hexreg from_bytes_hexreg)
qed (simp add: wr_regs_def)

lemma rd_word_ok:
  assumes g: "good s0 c s" and a: "0 \<le> a" "a < 2 ^ 32"
  shows "\<exists>s'. rd_word D s a = Inr (c_mem c (a AND NOT 3), s') \<and> good s0 c s'"
proof -
  have al: "0 \<le> a AND NOT 3" "a AND NOT 3 < 2 ^ 32" "(a AND NOT 3) AND NOT 3 = a AND NOT 3"
    using aligned [OF a] by blast+
  show ?thesis using g mem_law [OF _ al, of "dmi s"] by (auto simp: rd_word_def dmi_w_def dmi_r_def good_def)
qed

lemma wr_word_ok:
  assumes g: "good s0 c s" and a: "0 \<le> a" "a < 2 ^ 32"
  shows "\<exists>s'. wr_word D s a v = Inr s' \<and> good s0 (c\<lparr>c_mem := (c_mem c)(a AND NOT 3 := py_mask 32 v)\<rparr>) s'"
proof -
  have al: "0 \<le> a AND NOT 3" "a AND NOT 3 < 2 ^ 32" "(a AND NOT 3) AND NOT 3 = a AND NOT 3"
    using aligned [OF a] by blast+
  obtain d where d: "w32 D (dmi s) MEMADDR (a AND NOT 3) = Inr d"
    "\<forall>v. \<exists>d''. w32 D d MEMDATA v = Inr d'' \<and> ok d'' \<and>
       abs d'' = (abs (dmi s))\<lparr>c_mem := (c_mem (abs (dmi s)))(a AND NOT 3 := py_mask 32 v)\<rparr>"
    using g mem_law [OF _ al, of "dmi s"] by (auto simp: good_def)
  from d(2) obtain d' where "w32 D d MEMDATA v = Inr d'" "ok d'"
    "abs d' = (abs (dmi s))\<lparr>c_mem := (c_mem (abs (dmi s)))(a AND NOT 3 := py_mask 32 v)\<rparr>" by blast
  with d(1) g show ?thesis by (auto simp: wr_word_def dmi_w_def good_def)
qed

lemma rd_mem_ok:
  "good s0 c s \<Longrightarrow> 0 \<le> a \<Longrightarrow> a + int n \<le> 2 ^ 32 \<Longrightarrow>
    \<exists>s'. rd_mem D s a n = Inr (map (\<lambda>k. memb c (a + int k)) [0..<n], s') \<and> good s0 c s'"
proof (induction n arbitrary: s a)
  case (Suc n)
  obtain s1 where s1: "rd_word D s a = Inr (c_mem c (a AND NOT 3), s1)" "good s0 c s1"
    using rd_word_ok [OF Suc.prems(1,2)] Suc.prems(3) by auto
  obtain s2 where s2: "rd_mem D s1 (a + 1) n = Inr (map (\<lambda>k. memb c (a + 1 + int k)) [0..<n], s2)" "good s0 c s2"
    using Suc.IH [OF s1(2), of "a + 1"] Suc.prems by auto
  have "map (\<lambda>k. memb c (a + int k)) [0..<Suc n] = memb c a # map (\<lambda>k. memb c (a + 1 + int k)) [0..<n]"
    by (subst upt_conv_Cons) (auto simp: map_Suc_upt [symmetric] o_def ac_simps simp del: upt_Suc)
  then show ?case using s1 s2 by (simp add: memb_def lane_def del: upt_Suc)
qed simp

lemma wr_mem_ok:
  "good s0 c s \<Longrightarrow> 0 \<le> a \<Longrightarrow> a + int (length bs) \<le> 2 ^ 32 \<Longrightarrow>
    \<exists>s' c'. wr_mem D s a bs = Inr s' \<and> good s0 c' s' \<and> c_regs c' = c_regs c \<and> c_pc c' = c_pc c \<and> c_bps c' = c_bps c \<and>
      (\<forall>x. memb c' x = (if a \<le> x \<and> x < a + int (length bs) then bs ! nat (x - a) else memb c x))"
proof (induction bs arbitrary: s c a)
  case Nil
  then show ?case by auto
next
  case (Cons b bs)
  let ?w = "(c_mem c (a AND NOT 3) AND NOT (push_bit (8 * nat (a AND 3)) 0xff)) OR push_bit (8 * nat (a AND 3)) (uint b)"
  let ?c = "c\<lparr>c_mem := (c_mem c)(a AND NOT 3 := py_mask 32 ?w)\<rparr>"
  obtain s1 where s1: "rd_word D s a = Inr (c_mem c (a AND NOT 3), s1)" "good s0 c s1"
    using rd_word_ok [OF Cons.prems(1,2)] Cons.prems(3) by auto
  obtain s2 where s2: "wr_word D s1 a ?w = Inr s2" "good s0 ?c s2"
    using wr_word_ok [OF s1(2) Cons.prems(2)] Cons.prems(3) by fastforce
  obtain s3 c3 where s3: "wr_mem D s2 (a + 1) bs = Inr s3" "good s0 c3 s3" "c_regs c3 = c_regs c" "c_pc c3 = c_pc c" "c_bps c3 = c_bps c"
    "\<forall>x. memb c3 x = (if a + 1 \<le> x \<and> x < a + 1 + int (length bs) then bs ! nat (x - (a + 1)) else memb ?c x)"
    using Cons.IH [OF s2(2), of "a + 1"] Cons.prems by auto
  have "memb c3 x = (if a \<le> x \<and> x < a + int (length (b # bs)) then (b # bs) ! nat (x - a) else memb c x)" for x
  proof (cases "a + 1 \<le> x \<and> x < a + 1 + int (length bs)")
    case True
    then have "nat (x - a) = Suc (nat (x - (a + 1)))" by linarith
    then show ?thesis using True s3(6) by simp
  next
    case False
    then show ?thesis using s3(6) memb_upd [of c a b x] by auto
  qed
  then show ?case using s1 s2 s3 by (auto simp: Let_def)
qed

lemma handle_P:
  assumes "good s0 c s" "r \<le> 32"
  shows "\<exists>s'. handle D s (''P'' @ str_base 16 r @ ''='' @ hexreg v) = Inr (''OK'', s') \<and>
    good s0 (set_regval r (py_mask 32 v) c) s'"
proof -
  obtain s' where "wr_reg D s (int r) (py_mask 32 v) = Inr s'"
    "good s0 (set_regval r (py_mask 32 (py_mask 32 v)) c) s'"
    using wr_reg_ok [OF assms, of "py_mask 32 v"] by blast
  moreover have "py_mask 32 (py_mask 32 v) = py_mask 32 v" by (simp add: py_mask_mod)
  ultimately show ?thesis
    by (simp add: handle_def startswith_def okay_def from_bytes_hexreg hexreg_bytes)
qed

lemma handle_p:
  assumes "good s0 c s" "r \<le> 32"
  shows "\<exists>s'. handle D s (''p'' @ str_base 16 r) = Inr (hexreg (regval c r), s') \<and> good s0 c s'"
  using rd_reg_ok [OF assms] by (auto simp: handle_def startswith_def)

lemma handle_G:
  assumes "good s0 c s" "length vs = 33"
  shows "\<exists>s'. handle D s (''G'' @ concat (map hexreg vs)) = Inr (''OK'', s') \<and>
    good s0 (foldl (\<lambda>c i. set_regval i (py_mask 32 (vs ! i)) c) c [0..<33]) s'"
  using wr_regs_ok [OF assms(1), of "[0..<33]" vs] assms(2)
  by (auto simp: handle_def startswith_def okay_def simp del: upt_rec_numeral)

lemma handle_g:
  assumes "good s0 c s"
  shows "\<exists>s'. handle D s ''g'' = Inr (concat (map (\<lambda>i. hexreg (regval c i)) [0..<33]), s') \<and> good s0 c s'"
  using rd_regs_ok [OF assms, of "[0..<33]"]
  by (auto simp: handle_def startswith_def simp del: upt_rec_numeral)

lemma handle_M:
  assumes "good s0 c s" "int a + int (length bs) \<le> 2 ^ 32"
  shows "\<exists>s' c'. handle D s (''M'' @ str_base 16 a @ '','' @ str_base 16 n @ '':'' @ bytes_hex bs) = Inr (''OK'', s') \<and>
    good s0 c' s' \<and> c_regs c' = c_regs c \<and> c_pc c' = c_pc c \<and> c_bps c' = c_bps c \<and>
    (\<forall>x. memb c' x = (if int a \<le> x \<and> x < int a + int (length bs) then bs ! nat (x - int a) else memb c x))"
  using wr_mem_ok [OF assms(1) _ assms(2)] by (fastforce simp: handle_def startswith_def okay_def)

lemma handle_m:
  assumes "good s0 c s" "int a + int n \<le> 2 ^ 32"
  shows "\<exists>s'. handle D s (''m'' @ str_base 16 a @ '','' @ str_base 16 n) =
    Inr (bytes_hex (map (\<lambda>k. memb c (int a + int k)) [0..<n]), s') \<and> good s0 c s'"
  using rd_mem_ok [OF assms(1) _ assms(2)] by (fastforce simp: handle_def startswith_def)

end

subsection \<open>\<open>MockDMI\<close> keeps the contract\<close>

definition mock_ok :: "mock \<Rightarrow> bool" where
  "mock_ok d \<longleftrightarrow> length (regs d) = 32 \<and> length (bp d) = NBP \<and> regsel d < 32 \<and> bpsel d < NBP"

definition mock_abs :: "mock \<Rightarrow> core" where
  "mock_abs d = \<lparr>c_regs = (\<lambda>i. regs d ! i), c_pc = pc d,
     c_mem = (\<lambda>a. case mmem d a of None \<Rightarrow> 0 | Some v \<Rightarrow> v), c_bps = bp d\<rparr>"

lemma mock_init_ok: "mock_ok mock_init"
  by (simp add: mock_ok_def mock_init_def NBP_def)

lemma and_31: "i < 32 \<Longrightarrow> nat (py_mask 32 (int i) AND 31) = i"
proof -
  assume "i < 32"
  then have "py_mask 32 (int i) = int i" "int i AND mask 5 = int i"
    by (simp_all add: py_mask_id take_bit_int_eq_self_iff flip: take_bit_eq_mask)
  then show ?thesis by (simp add: mask_eq_exp_minus_1)
qed

interpretation mockdm: debug_module mock_ops mock_ok mock_abs
proof unfold_locales
  fix d :: mock and i :: nat assume d: "mock_ok d" "i < 32"
  let ?d = "d\<lparr>regsel := i\<rparr>"
  have "w32 mock_ops d REGSEL (int i) = Inr ?d"
    using and_31 [OF d(2)] by (simp add: mock_ops_def mock_w32_def dmi_map Let_def)
  moreover have "r32 mock_ops ?d REGDATA = Inr (c_regs (mock_abs d) i, ?d)"
    using d by (simp add: mock_ops_def mock_r32_def dmi_map mock_ok_def mock_abs_def)
  moreover have "w32 mock_ops ?d REGDATA v = Inr (?d\<lparr>regs := (regs d)[i := py_mask 32 v]\<rparr>)" for v
    using d by (simp add: mock_ops_def mock_w32_def dmi_map mock_ok_def Let_def)
  moreover have "(\<lambda>j. (regs d)[i := py_mask 32 v] ! j) = (\<lambda>j. regs d ! j)(i := py_mask 32 v)" for v
    using d by (auto simp: fun_eq_iff nth_list_update mock_ok_def)
  ultimately show "\<exists>d'. w32 mock_ops d REGSEL (int i) = Inr d' \<and> mock_ok d' \<and> mock_abs d' = mock_abs d \<and>
      r32 mock_ops d' REGDATA = Inr (c_regs (mock_abs d) i, d') \<and>
      (\<forall>v. \<exists>d''. w32 mock_ops d' REGDATA v = Inr d'' \<and> mock_ok d'' \<and>
         mock_abs d'' = (mock_abs d)\<lparr>c_regs := (c_regs (mock_abs d))(i := py_mask 32 v)\<rparr>)"
    using d by (auto simp: mock_ok_def mock_abs_def)
next
  fix d :: mock and v assume "mock_ok d"
  then show "r32 mock_ops d DPC = Inr (c_pc (mock_abs d), d) \<and>
      (\<exists>d'. w32 mock_ops d DPC v = Inr d' \<and> mock_ok d' \<and> mock_abs d' = (mock_abs d)\<lparr>c_pc := py_mask 32 v\<rparr>)"
    by (auto simp: mock_ops_def mock_r32_def mock_w32_def dmi_map mock_abs_def mock_ok_def Let_def)
next
  fix d :: mock and a :: int assume d: "mock_ok d" and a: "0 \<le> a" "a < 2 ^ 32" "a AND NOT 3 = a"
  let ?d = "d\<lparr>memaddr := a\<rparr>"
  have "w32 mock_ops d MEMADDR a = Inr ?d"
    using a by (simp add: mock_ops_def mock_w32_def dmi_map py_mask_id)
  moreover have "r32 mock_ops ?d MEMDATA = Inr (c_mem (mock_abs d) a, ?d)"
    using a(3) by (simp add: mock_ops_def mock_r32_def dmi_map mock_abs_def)
  moreover have "w32 mock_ops ?d MEMDATA v = Inr (?d\<lparr>mmem := (mmem d)(a \<mapsto> py_mask 32 v)\<rparr>)" for v
    using a(3) by (simp add: mock_ops_def mock_w32_def dmi_map Let_def)
  ultimately show "\<exists>d'. w32 mock_ops d MEMADDR a = Inr d' \<and> mock_ok d' \<and> mock_abs d' = mock_abs d \<and>
      r32 mock_ops d' MEMDATA = Inr (c_mem (mock_abs d) a, d') \<and>
      (\<forall>v. \<exists>d''. w32 mock_ops d' MEMDATA v = Inr d'' \<and> mock_ok d'' \<and>
         mock_abs d'' = (mock_abs d)\<lparr>c_mem := (c_mem (mock_abs d))(a := py_mask 32 v)\<rparr>)"
    using d by (auto simp: mock_ok_def mock_abs_def fun_eq_iff)
qed

end
