(* ===== verification/Gdb_Serve.thy ===== *)
theory Gdb_Serve
  imports Gdb_Debug
begin

text \<open>
  The socket loop of \<^verbatim>\<open>sw/gdbstub.py\<close> against its specification: a session handles the packets of
  the stream one after the other. However the network cuts the stream into chunks, the server sends
  the same bytes and ends in the same state.
\<close>

fun session :: "'d dmi_ops \<Rightarrow> 'd stub \<Rightarrow> string list \<Rightarrow> (string \<times> 'd stub) res" where
  "session D s [] = Inr ([], s)"
| "session D s (b # bs) =
     rbind (handle D s b) (\<lambda>(r, s). rbind (session D s bs) (\<lambda>(out, s). Inr (''+'' @ frame r @ out, s)))"

text \<open>A packet on the wire, after acknowledgements or other characters the server skips.\<close>

definition wire :: "string \<times> string \<Rightarrow> string" where
  "wire p = fst p @ frame (snd p)"

definition wire_ok :: "string \<times> string \<Rightarrow> bool" where
  "wire_ok p \<longleftrightarrow> CHR ''#'' \<notin> set (fst p) \<and> CHR ''$'' \<notin> set (fst p) \<and> ctrl_c \<notin> set (fst p) \<and> CHR ''#'' \<notin> set (snd p)"

definition pending :: "string \<Rightarrow> bool" where
  "pending buf \<longleftrightarrow> (case index_of (CHR ''#'') buf of None \<Rightarrow> True | Some k \<Rightarrow> length buf \<le> k + 2)"

lemma serve_buf_pending: "pending buf \<Longrightarrow> serve_buf D s buf = Inr ([], buf, s)"
  by (subst serve_buf.simps) (auto simp: pending_def split: option.splits)

lemma length_checksum: "length (fmt_0x 2 (checksum b)) = 2"
  by (rule length_fmt_0x) (simp_all add: checksum_def)

lemma wire_shape: "\<exists>x y. wire (pre, body) = pre @ CHR ''$'' # body @ [CHR ''#'', x, y]"
  using length_checksum [of body] by (auto simp: wire_def frame_def numeral_2_eq_2 length_Suc_conv)

lemma take_1_append: "xs \<noteq> [] \<Longrightarrow> take 1 (xs @ ys) = [hd xs]"
  by (cases xs) simp_all

lemma serve_buf_packet:
  assumes "wire_ok (pre, body)"
  shows "serve_buf D s (wire (pre, body) @ t) =
    rbind (handle D s body) (\<lambda>(r, s). rbind (serve_buf D s t) (\<lambda>(out, rest, s).
      Inr (''+'' @ frame r @ out, rest, s)))"
proof -
  obtain x y where w: "wire (pre, body) = pre @ CHR ''$'' # body @ [CHR ''#'', x, y]" using wire_shape by blast
  let ?buf = "wire (pre, body) @ t" and ?k = "length pre + 1 + length body"
  have c: "ctrl_c \<noteq> CHR ''$''" by code_simp
  have h: "index_of (CHR ''#'') ?buf = Some ?k"
    using assms index_of_append [of "CHR ''#''" "pre @ CHR ''$'' # body" "[x, y] @ t"] by (simp add: w wire_ok_def)
  have d: "index_of (CHR ''$'') ?buf = Some (length pre)"
    using assms index_of_append [of "CHR ''$''" pre "body @ [CHR ''#'', x, y] @ t"] by (simp add: w wire_ok_def)
  have j: "index_from (CHR ''#'') ?buf (length pre) = Some ?k"
    using assms index_of_append [of "CHR ''#''" "CHR ''$'' # body" "[x, y] @ t"]
    by (simp add: w wire_ok_def index_from_def)
  have "take 1 ?buf = [hd (pre @ [CHR ''$''])]"
    unfolding w by (cases pre) simp_all
  moreover have "hd (pre @ [CHR ''$'']) \<noteq> ctrl_c" using assms c by (cases pre) (auto simp: wire_ok_def)
  ultimately have n: "take 1 ?buf \<noteq> [ctrl_c]" by simp
  have len: "?k + 2 < length ?buf" by (simp add: w)
  have body: "take (?k - (length pre + 1)) (drop (length pre + 1) ?buf) = body" by (simp add: w)
  have rest: "drop (?k + 3) ?buf = t"
  proof -
    have "length (wire (pre, body)) = ?k + 3" by (simp add: w)
    then show ?thesis by (metis append_eq_conv_conj)
  qed
  show ?thesis
    by (subst serve_buf.simps) (simp only: h d j option.case len n body rest not_True_eq_False if_False simp_thms)
qed

lemma index_of_prefix: "index_of c buf = Some k \<Longrightarrow> index_of c (buf @ t) = Some k"
  by (induction buf arbitrary: k) (auto split: if_splits)

lemma packet_in_buffer:
  assumes "buf @ rest = wire (pre, body) @ t" "wire_ok (pre, body)" "\<not> pending buf"
  shows "\<exists>buf'. buf = wire (pre, body) @ buf' \<and> buf' @ rest = t"
proof -
  obtain x y where w: "wire (pre, body) = pre @ CHR ''$'' # body @ [CHR ''#'', x, y]" using wire_shape by blast
  have h: "index_of (CHR ''#'') (wire (pre, body) @ t) = Some (length pre + 1 + length body)"
    using assms(2) index_of_append [of "CHR ''#''" "pre @ CHR ''$'' # body" "[x, y] @ t"] by (simp add: w wire_ok_def)
  from assms(3) obtain k where k: "index_of (CHR ''#'') buf = Some k" "k + 2 < length buf"
    by (auto simp: pending_def split: option.splits)
  have "k = length pre + 1 + length body" using index_of_prefix [OF k(1), of rest] h assms(1) by simp
  then have "length (wire (pre, body)) \<le> length buf" using k(2) by (simp add: w)
  moreover have "us = []" if "buf @ us = wire (pre, body)" for us
    using that calculation by (metis append_Nil2 append_eq_append_conv length_append le_add1 le_antisym)
  ultimately show ?thesis using assms(1) by (fastforce simp: append_eq_append_conv2)
qed

lemma serve_buf_session:
  "\<forall>p \<in> set items. wire_ok p \<Longrightarrow> buf @ rest = concat (map wire items) \<Longrightarrow>
    \<exists>done todo buf'. items = done @ todo \<and> pending buf' \<and> buf' @ rest = concat (map wire todo) \<and>
      (\<forall>s. serve_buf D s buf = rbind (session D s (map snd done)) (\<lambda>(out, s). Inr (out, buf', s)))"
proof (induction items arbitrary: buf)
  case Nil
  then have "pending buf" by (simp add: pending_def)
  then show ?case using Nil serve_buf_pending [of buf D] by (intro exI [of _ "[]"] exI [of _ buf]) simp
next
  case (Cons p items)
  obtain pre body where p: "p = (pre, body)" by force
  show ?case
  proof (cases "pending buf")
    case True
    then show ?thesis using Cons.prems serve_buf_pending [of buf D]
      by (intro exI [of _ "[]"] exI [of _ "p # items"] exI [of _ buf]) simp
  next
    case False
    have ok: "wire_ok (pre, body)" using Cons.prems by (simp add: p)
    obtain buf1 where b: "buf = wire (pre, body) @ buf1" "buf1 @ rest = concat (map wire items)"
      using packet_in_buffer [OF _ ok False] Cons.prems(2) by (auto simp: p)
    obtain don todo buf' where d: "items = don @ todo" "pending buf'" "buf' @ rest = concat (map wire todo)"
      "\<forall>s. serve_buf D s buf1 = rbind (session D s (map snd don)) (\<lambda>(out, s). Inr (out, buf', s))"
      using Cons.IH [OF _ b(2)] Cons.prems(1) by auto
    have "serve_buf D s buf = rbind (session D s (map snd (p # don))) (\<lambda>(out, s). Inr (out, buf', s))" for s
    proof (cases "handle D s body")
      case (Inr r)
      obtain t s1 where r: "r = (t, s1)" by force
      show ?thesis using Inr d(4)
        by (cases "session D s1 (map snd don)") (auto simp: b serve_buf_packet [OF ok] p r)
    qed (simp add: b serve_buf_packet [OF ok] p)
    then show ?thesis using d by (intro exI [of _ "p # don"] exI [of _ todo] exI [of _ buf']) simp
  qed
qed

lemma session_append:
  "session D s (a @ b) = rbind (session D s a) (\<lambda>(o1, s). rbind (session D s b) (\<lambda>(o2, s). Inr (o1 @ o2, s)))"
proof (induction a arbitrary: s)
  case Nil
  show ?case by (cases "session D s b") auto
next
  case (Cons x a)
  show ?case
  proof (cases "handle D s x")
    case (Inr r)
    obtain t s1 where r: "r = (t, s1)" by force
    show ?thesis
    proof (cases "session D s1 a")
      case I: (Inr q)
      obtain o1 s2 where "q = (o1, s2)" by force
      then show ?thesis using Inr r I Cons [of s1] by (cases "session D s2 b") auto
    qed (use Inr r Cons [of s1] in simp)
  qed simp
qed

lemma serve_session:
  "\<forall>p \<in> set items. wire_ok p \<Longrightarrow> pending buf \<Longrightarrow> buf @ concat chunks = concat (map wire items) \<Longrightarrow>
    serve D s buf chunks = rbind (session D s (map snd items)) (\<lambda>(out, s). Inr (out, [], s))"
proof (induction chunks arbitrary: s buf items)
  case Nil
  have "items = []"
  proof (rule ccontr)
    assume "items \<noteq> []"
    then obtain pre body items' where i: "items = (pre, body) # items'" by (cases items) auto
    obtain x y where w: "wire (pre, body) = pre @ CHR ''$'' # body @ [CHR ''#'', x, y]" using wire_shape by blast
    have "index_of (CHR ''#'') buf = Some (length pre + 1 + length body)"
      using Nil index_of_append [of "CHR ''#''" "pre @ CHR ''$'' # body" "[x, y] @ concat (map wire items')"]
      by (simp add: i w wire_ok_def)
    then show False using Nil by (simp add: pending_def i w)
  qed
  then show ?case using Nil by simp
next
  case (Cons data chunks)
  have "(buf @ data) @ concat chunks = concat (map wire items)" using Cons.prems(3) by simp
  from serve_buf_session [OF Cons.prems(1) this, of D] obtain don todo buf' where
    d: "items = don @ todo" "pending buf'" "buf' @ concat chunks = concat (map wire todo)"
    "serve_buf D s (buf @ data) = rbind (session D s (map snd don)) (\<lambda>(out, s). Inr (out, buf', s))"
    by blast
  show ?case
  proof (cases "session D s (map snd don)")
    case (Inr q)
    obtain o1 s1 where q: "q = (o1, s1)" by force
    have "serve D s1 buf' chunks = rbind (session D s1 (map snd todo)) (\<lambda>(out, s). Inr (out, [], s))"
      using Cons.IH [OF _ d(2,3)] Cons.prems(1) d(1) by auto
    then show ?thesis using Inr q d
      by (cases "session D s1 (map snd todo)") (auto simp: session_append)
  qed (simp add: d session_append)
qed

end
