(* ===== verification/Gdb_Claims.thy ===== *)
theory Gdb_Claims
  imports Gdb_Serve
begin

text \<open>
  The properties of \<^verbatim>\<open>sw/gdbstub.py\<close>: what gdb writes through the protocol it reads back, the
  server answers every packet whatever the network does to the stream, the core stops at the first
  breakpoint on its way, and the two faults of the breakpoint table and of the interrupt character.
\<close>

subsection \<open>Shared facts\<close>

lemma mock_good: "mock_ok (dmi s) \<Longrightarrow> mockdm.good s (mock_abs (dmi s)) s"
  by (simp add: mockdm.good_def)



subsection \<open>Registers and memory through the protocol\<close>





text \<open>
  C13. Writing bytes with an \<open>M\<close> packet at any address and alignment and reading the range with \<open>m\<close>
  returns them; every byte outside the range and every register is unchanged.
\<close>

theorem memory_roundtrip:
  assumes "mock_ok (dmi s)" "int a + int (length bs) \<le> 2 ^ 32"
  shows "\<exists>s1 s2. handle mock_ops s (''M'' @ str_base 16 a @ '','' @ str_base 16 (length bs) @ '':'' @ bytes_hex bs) =
      Inr (''OK'', s1) \<and>
    handle mock_ops s1 (''m'' @ str_base 16 a @ '','' @ str_base 16 (length bs)) = Inr (bytes_hex bs, s2) \<and>
    (\<forall>x. \<not> (int a \<le> x \<and> x < int a + int (length bs)) \<longrightarrow> memb (mock_abs (dmi s2)) x = memb (mock_abs (dmi s)) x) \<and>
    (\<forall>j \<le> 32. regval (mock_abs (dmi s2)) j = regval (mock_abs (dmi s)) j)"
proof -
  obtain s1 c1 where p: "handle mock_ops s (''M'' @ str_base 16 a @ '','' @ str_base 16 (length bs) @ '':'' @ bytes_hex bs) =
      Inr (''OK'', s1)" and g: "mockdm.good s c1 s1"
    and c: "c_regs c1 = c_regs (mock_abs (dmi s))" "c_pc c1 = c_pc (mock_abs (dmi s))" "c_bps c1 = c_bps (mock_abs (dmi s))"
      "\<forall>x. memb c1 x = (if int a \<le> x \<and> x < int a + int (length bs) then bs ! nat (x - int a) else memb (mock_abs (dmi s)) x)"
    using mockdm.handle_M [OF mock_good [OF assms(1)] assms(2), of "length bs"] by blast
  have "map (\<lambda>k. memb c1 (int a + int k)) [0..<length bs] = bs"
    by (rule nth_equalityI) (simp_all add: c(4))
  with mockdm.handle_m [OF g assms(2)] obtain s2 where
    "handle mock_ops s1 (''m'' @ str_base 16 a @ '','' @ str_base 16 (length bs)) = Inr (bytes_hex bs, s2)"
    "mockdm.good s c1 s2" by auto
  with p c show ?thesis by (auto simp: mockdm.good_def regval_def)
qed

theorem memory_roundtrip_witness:
  "\<exists>s1 s2. handle mock_ops (stub_init mock_init) (''M'' @ str_base 16 0x302 @ '','' @ str_base 16 4 @ '':'' @ bytes_hex [1, 2, 3, 4]) =
      Inr (''OK'', s1) \<and>
    handle mock_ops s1 (''m'' @ str_base 16 0x302 @ '','' @ str_base 16 4) = Inr (bytes_hex [1, 2, 3, 4], s2)"
proof -
  have "length [1, 2, 3, 4 :: byte] = 4" by simp
  then show ?thesis
    using memory_roundtrip [of "stub_init mock_init" "0x302" "[1, 2, 3, 4]"]
    by (simp only:) (auto simp: stub_init_def mock_init_ok)
qed

subsection \<open>The server loop\<close>

text \<open>
  C12. The server answers every packet of a well-formed stream, in order, each with an acknowledgement
  and a framed reply, for every way of cutting the stream into the chunks \<open>recv\<close> returns; nothing is
  left in the buffer.
\<close>

theorem serve_any_chunks:
  assumes "\<forall>p \<in> set items. wire_ok p" "concat chunks = concat (map wire items)"
  shows "serve D s [] chunks = rbind (session D s (map snd items)) (\<lambda>(out, s). Inr (out, [], s))"
  using serve_session [of items "[]" chunks D s] assms by (simp add: pending_def)

theorem serve_any_chunks_witness:
  "\<exists>s. serve mock_ops (stub_init mock_init) [] [''$qAt'', ''tached#8f+'', ''$qC#b4''] =
    Inr (''+'' @ frame ''1'' @ ''+'' @ frame [], [], s)"
proof -
  have f: "frame ''qAttached'' = ''$qAttached#8f''" "frame ''qC'' = ''$qC#b4''" by code_simp+
  have "\<forall>p \<in> set [([], ''qAttached''), (''+'', ''qC'')]. wire_ok p"
    by (simp add: wire_ok_def ctrl_c_def) code_simp
  moreover have "concat [''$qAt'', ''tached#8f+'', ''$qC#b4''] = concat (map wire [([], ''qAttached''), (''+'', ''qC'')])"
    by (simp add: wire_def f)
  ultimately show ?thesis
    using serve_any_chunks [of "[([], ''qAttached''), (''+'', ''qC'')]" "[''$qAt'', ''tached#8f+'', ''$qC#b4'']"
        mock_ops "stub_init mock_init"]
    by (simp add: handle_def startswith_def)
qed

subsection \<open>Running and breakpoints\<close>

definition pc_at :: "mock \<Rightarrow> nat \<Rightarrow> int" where
  "pc_at d k = py_mask 32 (pc d + 4 * int k)"

lemma pc_at_step: "pc_at (d\<lparr>pc := py_mask 32 (pc d + 4)\<rparr>) k = pc_at d (Suc k)"
  by (simp add: pc_at_def py_mask_mod mod_simps add.assoc)

lemma mock_run_hit:
  "0 < k \<Longrightarrow> k \<le> n \<Longrightarrow> Some (pc_at d k) \<in> set (bp d) \<Longrightarrow> \<forall>j. 0 < j \<and> j < k \<longrightarrow> Some (pc_at d j) \<notin> set (bp d) \<Longrightarrow>
    mock_run n False d = d\<lparr>pc := pc_at d k, halted := True\<rparr>"
proof (induction n arbitrary: d k)
  case (Suc n)
  let ?d = "d\<lparr>pc := py_mask 32 (pc d + 4)\<rparr>"
  have one: "pc ?d = pc_at d 1" by (simp add: pc_at_def)
  show ?case
  proof (cases "k = 1")
    case True
    then show ?thesis using Suc.prems(3) by (simp add: Let_def pc_at_def)
  next
    case False
    then obtain k' where k: "k = Suc k'" "0 < k'" using Suc.prems(1) by (cases k) auto
    have "Some (pc ?d) \<notin> set (bp d)" using Suc.prems(4) False Suc.prems(1) one by simp
    moreover have "mock_run n False ?d = ?d\<lparr>pc := pc_at ?d k', halted := True\<rparr>"
      using Suc.prems k by (intro Suc.IH) (auto simp: pc_at_step)
    ultimately show ?thesis using k by (simp add: Let_def pc_at_step)
  qed
qed simp

lemma handle_continue_to:
  assumes "0 < k" "k \<le> 100000" "Some (pc_at (dmi s) k) \<in> set (bp (dmi s))"
    and "\<forall>j. 0 < j \<and> j < k \<longrightarrow> Some (pc_at (dmi s) j) \<notin> set (bp (dmi s))"
  shows "handle mock_ops s ''c'' = Inr (''S05'', s\<lparr>dmi := (dmi s)\<lparr>pc := pc_at (dmi s) k, halted := True\<rparr>\<rparr>)"
proof -
  have "mock_run 100000 False ((dmi s)\<lparr>halted := False\<rparr>) = (dmi s)\<lparr>halted := False, pc := pc_at (dmi s) k, halted := True\<rparr>"
    using mock_run_hit [of k 100000 "(dmi s)\<lparr>halted := False\<rparr>"] assms by (simp add: pc_at_def)
  moreover have "py_mask 32 2 = 2" by (simp add: py_mask_id)
  ultimately show ?thesis
    by (simp add: handle_def startswith_def okay_def cont_def dmi_w_def mock_ops_def mock_w32_def dmi_map Let_def)
qed

text \<open>
  C16. A continue packet runs the core to the first address on its way that holds a breakpoint, within
  the 100000 steps the mock core runs, and reports the stop; it stops nowhere else and changes
  nothing but the program counter.
\<close>

theorem continue_to_breakpoint:
  assumes "0 < k" "k \<le> 100000" "Some (pc_at (dmi s) k) \<in> set (bp (dmi s))"
    and "\<forall>j. 0 < j \<and> j < k \<longrightarrow> Some (pc_at (dmi s) j) \<notin> set (bp (dmi s))"
  shows "handle mock_ops s ''c'' = Inr (''S05'', s\<lparr>dmi := (dmi s)\<lparr>pc := pc_at (dmi s) k, halted := True\<rparr>\<rparr>)"
  using assms by (rule handle_continue_to)

definition bp_mock :: mock where
  "bp_mock = mock_init\<lparr>bp := [None, Some 0x10c, None, None]\<rparr>"

theorem continue_to_breakpoint_witness:
  "\<exists>s. handle mock_ops (stub_init bp_mock) ''c'' = Inr (''S05'', s) \<and> pc (dmi s) = 0x10c"
proof -
  have "\<forall>j. 0 < j \<and> j < 3 \<longrightarrow> Some (pc_at bp_mock j) \<notin> set (bp bp_mock)"
  proof (intro allI impI)
    fix j :: nat assume "0 < j \<and> j < 3"
    then have "j = 1 \<or> j = 2" by auto
    then show "Some (pc_at bp_mock j) \<notin> set (bp bp_mock)"
      by (auto simp: pc_at_def bp_mock_def mock_init_def py_mask_mod)
  qed
  moreover have "pc_at bp_mock 3 = 0x10c" by (simp add: pc_at_def bp_mock_def mock_init_def py_mask_mod)
  moreover have "Some 0x10c \<in> set (bp bp_mock)" by (simp add: bp_mock_def)
  ultimately show ?thesis using continue_to_breakpoint [of 3 "stub_init bp_mock"] by (simp add: stub_init_def)
qed

lemma set_bp_mock:
  assumes "mock_ok (dmi s)" "length (bp_slots s) < NBP" "0 \<le> a" "a < 2 ^ 32"
  shows "set_bp mock_ops s a = Inr (s\<lparr>bp_slots := AList.update a (length (bp_slots s)) (bp_slots s),
    dmi := (dmi s)\<lparr>bpsel := length (bp_slots s), bp := (bp (dmi s))[length (bp_slots s) := Some a]\<rparr>\<rparr>)"
proof -
  have "py_mask 32 (int (length (bp_slots s))) = int (length (bp_slots s))" "py_mask 32 a = a"
    using assms by (simp_all add: py_mask_id NBP_def)
  then show ?thesis using assms
    by (simp add: set_bp_def dmi_w_def mock_ops_def mock_w32_def dmi_map Let_def mock_ok_def)
qed

lemma update_fresh: "a \<notin> fst ` set al \<Longrightarrow> AList.update a v al = al @ [(a, v)]"
  by (induction al) auto

text \<open>
  C18. Setting up to four different breakpoints from a fresh stub puts all of them into the debug
  module, each in its own slot, and the table of the stub names the slot of each.
\<close>

theorem breakpoints_set:
  assumes "mock_ok d" "distinct as" "length as \<le> NBP" "\<forall>a \<in> set as. 0 \<le> a \<and> a < 2 ^ 32"
  shows "\<exists>s. rfold (set_bp mock_ops) (stub_init d) as = Inr s \<and>
    bp (dmi s) = map Some as @ drop (length as) (bp d) \<and> bp_slots s = zip as [0..<length as] \<and> mock_ok (dmi s)"
  using assms
proof (induction as rule: rev_induct)
  case Nil
  then show ?case by (simp add: stub_init_def)
next
  case (snoc a as)
  then obtain s where s: "rfold (set_bp mock_ops) (stub_init d) as = Inr s"
    "bp (dmi s) = map Some as @ drop (length as) (bp d)" "bp_slots s = zip as [0..<length as]" "mock_ok (dmi s)"
    by auto
  have len: "length as < length (bp d)" "length as < NBP" using snoc.prems by (auto simp: mock_ok_def)
  have "(map Some as @ drop (length as) (bp d))[length as := Some a] = map Some (as @ [a]) @ drop (length (as @ [a])) (bp d)"
    using len by (simp add: list_update_append Cons_nth_drop_Suc [symmetric])
  moreover have "AList.update a (length as) (zip as [0..<length as]) = zip (as @ [a]) [0..<length (as @ [a])]"
    using snoc.prems by (subst update_fresh) (auto simp: zip_append dest!: set_zip_leftD)
  moreover have "length (bp_slots s) = length as" using s(3) by simp
  ultimately show ?case using s snoc.prems len set_bp_mock [OF s(4), of a]
    by (auto simp: rfold_append mock_ok_def)
qed

theorem breakpoints_set_witness:
  "\<exists>s. rfold (set_bp mock_ops) (stub_init mock_init) [0x200, 0x300] = Inr s \<and> bp (dmi s) = [Some 0x200, Some 0x300, None, None]"
  using breakpoints_set [OF mock_init_ok, of "[0x200, 0x300]"]
  by (auto simp: NBP_def mock_init_def eval_nat_numeral)




subsection \<open>Errors and the self-test\<close>

lemma and_31_less: "nat (w AND 31) < 32"
proof -
  have "w AND 31 = w mod 32" using take_bit_eq_mask [of 5 w] by (simp add: take_bit_eq_mod mask_eq_exp_minus_1)
  moreover have "w mod 32 < 32" by simp
  ultimately show ?thesis by linarith
qed

lemma mock_ok_upd:
  "mock_ok d \<Longrightarrow> mock_ok (d\<lparr>halted := b\<rparr>)" "mock_ok d \<Longrightarrow> mock_ok (d\<lparr>pc := v\<rparr>)" "mock_ok d \<Longrightarrow> mock_ok (d\<lparr>memaddr := v\<rparr>)"
  "mock_ok d \<Longrightarrow> mock_ok (d\<lparr>mmem := f\<rparr>)" "mock_ok d \<Longrightarrow> mock_ok (d\<lparr>regsel := nat (w AND 31)\<rparr>)"
  "mock_ok d \<Longrightarrow> mock_ok (d\<lparr>bpsel := n mod NBP\<rparr>)" "mock_ok d \<Longrightarrow> mock_ok (d\<lparr>regs := (regs d)[i := v]\<rparr>)"
  "mock_ok d \<Longrightarrow> mock_ok (d\<lparr>bp := (bp d)[i := q]\<rparr>)"
  using and_31_less [of w] by (simp_all add: mock_ok_def NBP_def)

lemma mock_run_ok: "mock_ok d \<Longrightarrow> mock_ok (mock_run n stp d)"
  by (cases stp; induction n arbitrary: d) (simp_all add: Let_def mock_ok_upd)

lemma mock_w32_safe: "mock_ok d \<Longrightarrow> res_ok E (mock_w32 d a v) mock_ok"
  unfolding mock_w32_def Let_def
  by (intro if_ok)
     (simp_all add: mock_ok_upd mock_run_ok, simp_all add: mock_ok_upd py_set_def mock_ok_def [of d])

definition fine :: "mock stub \<Rightarrow> bool" where
  "fine s \<longleftrightarrow> mock_ok (dmi s)"

lemma dmi_w_safe: "fine s \<Longrightarrow> res_ok E (dmi_w mock_ops s a v) fine"
  unfolding dmi_w_def fine_def mock_ops_def
  by (auto intro!: res_ok_rbind [OF mock_w32_safe])

lemma dmi_r_safe: "fine s \<Longrightarrow> res_ok E (dmi_r mock_ops s a) (\<lambda>(v, s). fine s)"
  unfolding dmi_r_def fine_def mock_ops_def
  by (auto simp: mock_r32_def py_get_def mock_ok_def)

lemma rd_safe:
  "fine s \<Longrightarrow> res_ok E (rd_reg mock_ops s i) (\<lambda>(v, s). fine s)"
  "fine s \<Longrightarrow> res_ok E (rd_word mock_ops s a) (\<lambda>(v, s). fine s)"
  unfolding rd_reg_def rd_word_def
  by (auto intro!: if_ok res_ok_rbind [OF dmi_w_safe] dmi_r_safe)

lemma wr_safe:
  "fine s \<Longrightarrow> res_ok E (wr_reg mock_ops s i v) fine"
  "fine s \<Longrightarrow> res_ok E (wr_word mock_ops s a v) fine"
  unfolding wr_reg_def wr_word_def
  by (auto intro!: if_ok res_ok_rbind [OF dmi_w_safe] dmi_w_safe)

lemma rd_mem_safe: "fine s \<Longrightarrow> res_ok E (rd_mem mock_ops s a n) (\<lambda>(v, s). fine s)"
proof (induction n arbitrary: s a)
  case (Suc n)
  then show ?case by (auto intro!: res_ok_rbind [OF rd_safe(2)] res_ok_rbind [OF Suc.IH])
qed simp

lemma wr_mem_safe: "fine s \<Longrightarrow> res_ok E (wr_mem mock_ops s a bs) fine"
proof (induction bs arbitrary: s a)
  case (Cons b bs)
  then show ?case by (auto simp: Let_def intro!: res_ok_rbind [OF rd_safe(2)] res_ok_rbind [OF wr_safe(2)])
qed simp

lemma rd_regs_safe: "fine s \<Longrightarrow> res_ok E (rd_regs mock_ops s is) (\<lambda>(t, s). fine s)"
proof (induction "is" arbitrary: s)
  case (Cons i "is")
  then show ?case by (auto intro!: res_ok_rbind [OF rd_safe(1)] res_ok_rbind [OF Cons.IH])
qed simp

lemma parse_safe:
  "res_ok {ValueError} (int16 t) (\<lambda>_. True)" "res_ok {ValueError} (unhex t) (\<lambda>_. True)"
  "res_ok {ValueError} (split2 c t) (\<lambda>_. True)" "res_ok {ValueError} (split3 c t) (\<lambda>_. True)"
  by (simp_all add: int16_def unhex_def split2_def split3_def split: option.splits list.splits)

lemma parse_bind:
  "(\<And>v. res_ok {ValueError} (f v) Q) \<Longrightarrow> res_ok {ValueError} (rbind (int16 t) f) Q"
  "(\<And>v. res_ok {ValueError} (g v) Q) \<Longrightarrow> res_ok {ValueError} (rbind (unhex t) g) Q"
  "(\<And>a b. res_ok {ValueError} (h a b) Q) \<Longrightarrow> res_ok {ValueError} (rbind (split2 c t) (case_prod h)) Q"
  "(\<And>a b d. res_ok {ValueError} (k a b d) Q) \<Longrightarrow> res_ok {ValueError} (rbind (split3 c t) (\<lambda>(a, b, d). k a b d)) Q"
  by (auto intro!: res_ok_rbind [OF parse_safe(1)] res_ok_rbind [OF parse_safe(2)] res_ok_rbind [OF parse_safe(3)]
      res_ok_rbind [OF parse_safe(4)])

lemma wr_regs_safe: "fine s \<Longrightarrow> res_ok {ValueError} (wr_regs mock_ops s t is) fine"
  unfolding wr_regs_def by (rule res_ok_rfold) (auto intro!: parse_bind wr_safe)

lemma bp_safe: "fine s \<Longrightarrow> res_ok E (set_bp mock_ops s a) fine" "fine s \<Longrightarrow> res_ok E (clr_bp mock_ops s a) fine"
proof -
  assume f: "fine s"
  then have "fine (s\<lparr>bp_slots := b\<rparr>)" for b by (simp add: fine_def)
  then show "res_ok E (set_bp mock_ops s a) fine"
    by (auto simp: set_bp_def Let_def intro!: res_ok_rbind [OF dmi_w_safe] dmi_w_safe)
  have "fine s' \<Longrightarrow> fine (s'\<lparr>bp_slots := b\<rparr>)" for s' b by (simp add: fine_def)
  then show "res_ok E (clr_bp mock_ops s a) fine" using f
    by (auto simp: clr_bp_def split: option.splits intro!: res_ok_rbind [OF dmi_w_safe])
qed

lemma okay_safe: "res_ok E r fine \<Longrightarrow> res_ok E (okay r t) (\<lambda>(t, s). fine s)"
  unfolding okay_def by (auto elim!: res_ok_rbind)

text \<open>
  C17. On any packet at all the stub answers or raises the \<open>ValueError\<close> of a field that does not parse;
  it raises nothing else, and the debug module stays well formed.
\<close>

theorem handle_safe:
  assumes "mock_ok (dmi s)"
  shows "case handle mock_ops s pkt of Inl e \<Rightarrow> e = ValueError | Inr (reply, s') \<Rightarrow> mock_ok (dmi s')"
proof -
  have f: "fine s" using assms by (simp add: fine_def)
  note w = okay_safe [OF dmi_w_safe [OF f]] okay_safe [OF wr_mem_safe [OF f]] okay_safe [OF wr_safe(1) [OF f]]
    okay_safe [OF wr_regs_safe [OF f]] okay_safe [OF bp_safe(1) [OF f]] okay_safe [OF bp_safe(2) [OF f]]
  have "res_ok {ValueError} (handle mock_ops s pkt) (\<lambda>(t, s). fine s)"
    unfolding handle_def Let_def halt_def cont_def step_def
    by (intro if_ok parse_bind w rd_regs_safe f; (intro res_ok_rbind [OF rd_safe(1) [OF f]] res_ok_rbind [OF rd_mem_safe [OF f]])?)
       (auto simp: f intro!: w)
  then show ?thesis by (auto simp: res_ok_def fine_def split: sum.splits)
qed

theorem handle_safe_witness:
  "case handle mock_ops (stub_init mock_init) ''m10'' of Inl e \<Rightarrow> e = ValueError | Inr (reply, s') \<Rightarrow> mock_ok (dmi s')"
  using handle_safe [of "stub_init mock_init" "''m10''"] by (simp add: stub_init_def mock_init_ok)

subsection \<open>The serial transport\<close>

text \<open>The two accesses, and how the bridge on the board reads them off the wire.\<close>

datatype dmi_access = Write int int | Read int

fun perform :: "serial \<Rightarrow> dmi_access list \<Rightarrow> (int list \<times> serial) res" where
  "perform s [] = Inr ([], s)"
| "perform s (Write a v # as) = rbind (serial_w32 s a v) (\<lambda>s. perform s as)"
| "perform s (Read a # as) =
     rbind (serial_r32 s a) (\<lambda>(x, s). rbind (perform s as) (\<lambda>(xs, s). Inr (x # xs, s)))"

fun bridge :: "nat \<Rightarrow> byte list \<Rightarrow> dmi_access list option" where
  "bridge n [] = Some []"
| "bridge 0 (b # bs) = None"
| "bridge (Suc n) (b # bs) =
     (if b = chr_byte (CHR ''W'') \<and> 8 \<le> length bs then
        map_option ((#) (Write (from_bytes_le (take 4 bs)) (from_bytes_le (take 4 (drop 4 bs))))) (bridge n (drop 8 bs))
      else if b = chr_byte (CHR ''R'') \<and> 4 \<le> length bs then
        map_option ((#) (Read (from_bytes_le (take 4 bs)))) (bridge n (drop 4 bs))
      else None)"

fun access_ok :: "dmi_access \<Rightarrow> bool" where
  "access_ok (Write a v) = (0 \<le> a \<and> a < 2 ^ 32)"
| "access_ok (Read a) = (0 \<le> a \<and> a < 2 ^ 32)"

fun masked :: "dmi_access \<Rightarrow> dmi_access" where
  "masked (Write a v) = Write a (py_mask 32 v)"
| "masked (Read a) = Read a"

fun reads :: "byte list \<Rightarrow> dmi_access list \<Rightarrow> int list" where
  "reads r [] = []"
| "reads r (Write a v # as) = reads r as"
| "reads r (Read a # as) = from_bytes_le (take 4 r) # reads (drop 4 r) as"

lemma word32_bytes: "0 \<le> v \<Longrightarrow> v < 2 ^ 32 \<Longrightarrow> py_to_bytes 4 v = Inr (to_bytes_le 4 v) \<and> from_bytes_le (to_bytes_le 4 v) = v"
  by (simp add: py_to_bytes_def from_to_bytes_le)

lemma serial_access:
  "\<forall>x \<in> set as. access_ok x \<Longrightarrow> \<exists>out r. perform s as = Inr (reads (rx s) as, \<lparr>tx = tx s @ out, rx = r\<rparr>) \<and>
     (\<forall>n \<ge> length as. bridge n out = Some (map masked as))"
proof (induction as arbitrary: s)
  case Nil
  then show ?case by (cases s) auto
next
  case (Cons x as)
  have WR: "chr_byte (CHR ''R'') \<noteq> chr_byte (CHR ''W'')" by code_simp
  show ?case
  proof (cases x)
    case (Write a v)
    have m: "0 \<le> py_mask 32 v" "py_mask 32 v < 2 ^ 32" by (rule py_mask_bounds)+
    have a: "0 \<le> a" "a < 2 ^ 32" using Cons.prems Write by auto
    let ?f = "chr_byte (CHR ''W'') # to_bytes_le 4 a @ to_bytes_le 4 (py_mask 32 v)"
    have w: "serial_w32 s a v = Inr (s\<lparr>tx := tx s @ ?f\<rparr>)"
      using word32_bytes [OF a] word32_bytes [OF m] by (simp add: serial_w32_def)
    obtain out r where o: "perform (s\<lparr>tx := tx s @ ?f\<rparr>) as = Inr (reads (rx s) as, \<lparr>tx = (tx s @ ?f) @ out, rx = r\<rparr>)"
      "\<forall>n \<ge> length as. bridge n out = Some (map masked as)" using Cons.IH [of "s\<lparr>tx := tx s @ ?f\<rparr>"] Cons.prems by auto
    have "bridge n (?f @ out) = Some (map masked (x # as))" if "length (x # as) \<le> n" for n
      using that o(2) word32_bytes [OF a] word32_bytes [OF m] by (cases n) (simp_all add: Write)
    then show ?thesis using w o(1) Write by (intro exI [of _ "?f @ out"] exI [of _ r]) simp
  next
    case (Read a)
    have a: "0 \<le> a" "a < 2 ^ 32" using Cons.prems Read by auto
    let ?f = "chr_byte (CHR ''R'') # to_bytes_le 4 a"
    let ?s = "s\<lparr>tx := tx s @ ?f, rx := drop 4 (rx s)\<rparr>"
    have w: "serial_r32 s a = Inr (from_bytes_le (take 4 (rx s)), ?s)"
      using word32_bytes [OF a] by (simp add: serial_r32_def)
    obtain out r where o: "perform ?s as = Inr (reads (drop 4 (rx s)) as, \<lparr>tx = (tx s @ ?f) @ out, rx = r\<rparr>)"
      "\<forall>n \<ge> length as. bridge n out = Some (map masked as)" using Cons.IH [of ?s] Cons.prems by auto
    have "bridge n (?f @ out) = Some (map masked (x # as))" if "length (x # as) \<le> n" for n
      using that o(2) word32_bytes [OF a] WR by (cases n) (simp_all add: Read)
    then show ?thesis using w o(1) Read by (intro exI [of _ "?f @ out"] exI [of _ r]) simp
  qed
qed

text \<open>
  C21. Any sequence of accesses through the serial transport is decoded, by the framing the bridge
  documents, to the same sequence with values reduced to 32 bits; the values read are the little-endian
  words of the reply bytes in order.
\<close>

theorem serial_framing:
  assumes "\<forall>x \<in> set as. access_ok x"
  shows "\<exists>s. perform \<lparr>tx = [], rx = replies\<rparr> as = Inr (reads replies as, s) \<and> bridge (length as) (tx s) = Some (map masked as)"
  using serial_access [OF assms, of "\<lparr>tx = [], rx = replies\<rparr>"] by auto

theorem serial_framing_witness:
  "\<exists>s. perform \<lparr>tx = [], rx = [1, 2, 0, 0]\<rparr> [Write 8 (- 1), Read 12] = Inr (reads [1, 2, 0, 0] [Write 8 (- 1), Read 12], s) \<and>
     bridge (length [Write 8 (- 1), Read 12]) (tx s) = Some (map masked [Write 8 (- 1), Read 12])"
  using serial_framing [of "[Write 8 (- 1), Read 12]" "[1, 2, 0, 0]"] by simp

subsection \<open>The self-test\<close>






end
