(* ===== verification/Kc_Expr.thy ===== *)
theory Kc_Expr
  imports Py_Text "HOL-Library.Char_ord" "HOL-Library.List_Lexorder"
begin

text \<open>
  The data of \<^verbatim>\<open>tools/kconfig/kconfiglib.py\<close> and its pure helper functions. Python objects are
  addressed by numbers: a symbol, a choice and a menu node are an index into a store, and
  \<open>is\<close> compares indices. The symbols \<open>n\<close>, \<open>m\<close> and \<open>y\<close> and the symbol \<open>MODULES\<close> are created
  first, in this order, so they have the indices 0 to 3. An expression is the tuple of the
  source with its operator as the constructor. Strings are escaped and unescaped, numbers
  parsed and expressions printed as the functions of the same name do.
\<close>

named_theorems kc_simps "unfolding rules of the configuration model"

subsection \<open>Types, expressions and objects\<close>

datatype ktype = UNKNOWN | BOOL | TRISTATE | STRING | KINT | HEX

datatype item = Sym nat | Chc nat

datatype rel = EQUAL | UNEQUAL | LESS | LESS_EQUAL | GREATER | GREATER_EQUAL

text \<open>Operands of a relation are symbols, never choices.\<close>

datatype expr =
    EItem item
  | EAnd expr expr
  | EOr expr expr
  | ENot expr
  | ERel rel nat nat

definition sym_n :: nat where "sym_n = 0"
definition sym_m :: nat where "sym_m = 1"
definition sym_y :: nat where "sym_y = 2"
definition sym_MODULES :: nat where "sym_MODULES = 3"

abbreviation e_n :: expr where "e_n \<equiv> EItem (Sym sym_n)"
abbreviation e_m :: expr where "e_m \<equiv> EItem (Sym sym_m)"
abbreviation e_y :: expr where "e_y \<equiv> EItem (Sym sym_y)"

lemmas sym_consts = sym_n_def sym_m_def sym_y_def sym_MODULES_def

text \<open>The item of a menu node; \<open>NIf\<close> is the \<open>None\<close> of an \<open>if\<close> block.\<close>

datatype nitem = NItem item | MENU | COMMENT | NIf

record mnode =
  nd_item :: nitem
  nd_prompt :: "(string \<times> expr) option"
  nd_dep :: expr
  nd_visibility :: expr
  nd_defaults :: "(expr \<times> expr) list"
  nd_selects :: "(nat \<times> expr) list"
  nd_implies :: "(nat \<times> expr) list"
  nd_ranges :: "(nat \<times> nat \<times> expr) list"
  nd_help :: "string option"
  nd_is_menuconfig :: bool
  nd_list :: "nat option"
  nd_next :: "nat option"
  nd_parent :: "nat option"
  nd_filename :: string
  nd_linenr :: nat

record ksym =
  sy_name :: string
  sy_type :: ktype
  sy_choice :: "nat option"
  sy_const :: bool
  sy_nodes :: "nat list"
  sy_defaults :: "(expr \<times> expr) list"
  sy_selects :: "(nat \<times> expr) list"
  sy_implies :: "(nat \<times> expr) list"
  sy_ranges :: "(nat \<times> nat \<times> expr) list"
  sy_rev_dep :: expr
  sy_weak_rev_dep :: expr
  sy_direct_dep :: expr
  sy_env_var :: "string option"
  sy_allnoconfig_y :: bool

record kchoice =
  ch_name :: "string option"
  ch_type :: ktype
  ch_optional :: bool
  ch_nodes :: "nat list"
  ch_syms :: "nat list"
  ch_defaults :: "(expr \<times> expr) list"
  ch_direct_dep :: expr

text \<open>What \<open>Symbol()\<close>, \<open>Choice()\<close> and \<open>MenuNode()\<close> create.\<close>

definition Symbol :: "string \<Rightarrow> bool \<Rightarrow> ksym" where
  "Symbol name const =
     \<lparr> sy_name = name, sy_type = UNKNOWN, sy_choice = None, sy_const = const, sy_nodes = [],
       sy_defaults = [], sy_selects = [], sy_implies = [], sy_ranges = [],
       sy_rev_dep = e_n, sy_weak_rev_dep = e_n, sy_direct_dep = e_n, sy_env_var = None,
       sy_allnoconfig_y = False \<rparr>"

definition Choice :: "string option \<Rightarrow> kchoice" where
  "Choice name =
     \<lparr> ch_name = name, ch_type = UNKNOWN, ch_optional = False, ch_nodes = [], ch_syms = [],
       ch_defaults = [], ch_direct_dep = e_n \<rparr>"

definition MenuNode :: "nitem \<Rightarrow> nat option \<Rightarrow> string \<Rightarrow> nat \<Rightarrow> mnode" where
  "MenuNode item parent filename linenr =
     \<lparr> nd_item = item, nd_prompt = None, nd_dep = e_y, nd_visibility = e_y, nd_defaults = [],
       nd_selects = [], nd_implies = [], nd_ranges = [], nd_help = None, nd_is_menuconfig = False,
       nd_list = None, nd_next = None, nd_parent = parent, nd_filename = filename,
       nd_linenr = linenr \<rparr>"

text \<open>
  The \<open>Kconfig\<close> object after parsing: the stores, \<open>unique_defined_syms\<close>,
  \<open>unique_choices\<close>, the \<open>_dependents\<close> of every item, and the settings read from the
  environment. The part that changes when the user sets values is in \<open>Kc_State\<close>.
\<close>

record kconf =
  k_sym :: "nat \<Rightarrow> ksym"
  k_chc :: "nat \<Rightarrow> kchoice"
  k_node :: "nat \<Rightarrow> mnode"
  k_syms :: "(string \<times> nat) list"
  k_defined :: "nat list"
  k_choices :: "nat list"
  k_deps :: "item \<Rightarrow> item list"
  k_top :: nat
  k_defconfig_list :: "nat option"
  k_prefix :: string
  k_config_header :: string
  k_header_header :: string

subsection \<open>Constants\<close>

definition TRI_TO_STR :: "int \<Rightarrow> string" where
  "TRI_TO_STR v = (if v = 0 then ''n'' else if v = 1 then ''m'' else ''y'')"

definition STR_TO_TRI :: "string \<Rightarrow> int option" where
  "STR_TO_TRI s = map_of [(''n'', 0), (''m'', 1), (''y'', 2)] s"

fun TYPE_TO_STR :: "ktype \<Rightarrow> string" where
  "TYPE_TO_STR UNKNOWN = ''unknown''"
| "TYPE_TO_STR BOOL = ''bool''"
| "TYPE_TO_STR TRISTATE = ''tristate''"
| "TYPE_TO_STR STRING = ''string''"
| "TYPE_TO_STR KINT = ''int''"
| "TYPE_TO_STR HEX = ''hex''"

text \<open>0 stands for a base that is inferred from the string.\<close>

fun TYPE_TO_BASE :: "ktype \<Rightarrow> nat" where
  "TYPE_TO_BASE HEX = 16"
| "TYPE_TO_BASE KINT = 10"
| "TYPE_TO_BASE _ = 0"

fun REL_TO_STR :: "rel \<Rightarrow> string" where
  "REL_TO_STR EQUAL = ''=''"
| "REL_TO_STR UNEQUAL = ''!=''"
| "REL_TO_STR LESS = ''<''"
| "REL_TO_STR LESS_EQUAL = ''<=''"
| "REL_TO_STR GREATER = ''>''"
| "REL_TO_STR GREATER_EQUAL = ''>=''"

definition bool_tristate :: "ktype \<Rightarrow> bool" where
  "bool_tristate t \<longleftrightarrow> t = BOOL \<or> t = TRISTATE"

definition int_hex :: "ktype \<Rightarrow> bool" where
  "int_hex t \<longleftrightarrow> t = KINT \<or> t = HEX"

subsection \<open>Strings and numbers\<close>

definition replace_char :: "char \<Rightarrow> string \<Rightarrow> string \<Rightarrow> string" where
  "replace_char c t s = concat (map (\<lambda>x. if x = c then t else [x]) s)"

abbreviation bslash :: char where "bslash \<equiv> CHR 0x5C"
abbreviation dquote :: char where "dquote \<equiv> CHR 0x22"
abbreviation newline :: char where "newline \<equiv> CHR 0x0A"
abbreviation tab :: char where "tab \<equiv> CHR 0x09"

definition escape :: "string \<Rightarrow> string" where
  "escape s = replace_char dquote [bslash, dquote] (replace_char bslash [bslash, bslash] s)"

text \<open>\<open>re.sub\<close> of a backslash and the character after it; the dot matches no newline.\<close>

fun unescape :: "string \<Rightarrow> string" where
  "unescape (c # c' # cs) =
     (if c = bslash \<and> c' \<noteq> newline then c' # unescape cs else c # unescape (c' # cs))"
| "unescape cs = cs"

text \<open>\<open>int(s, 0)\<close>: the base is read off the prefix, and a leading zero is only for zero.\<close>

definition py_int0 :: "string \<Rightarrow> int option" where
  "py_int0 s =
     (let t = py_strip s;
          t' = (if take 1 t = ''-'' \<or> take 1 t = ''+'' then drop 1 t else t);
          sg = (if take 1 t = ''-'' then - 1 else 1);
          p = take 2 t';
          r = (if take 1 (drop 2 t') = ''_'' then drop 3 t' else drop 2 t')
      in map_option (\<lambda>n. sg * int n)
        (if p = ''0x'' \<or> p = ''0X'' then map_option (\<lambda>ds. undigits 16 ds 0) (int_digits 16 r)
         else if p = ''0o'' \<or> p = ''0O'' then map_option (\<lambda>ds. undigits 8 ds 0) (int_digits 8 r)
         else if p = ''0b'' \<or> p = ''0B'' then map_option (\<lambda>ds. undigits 2 ds 0) (int_digits 2 r)
         else case int_digits 10 t' of
                None \<Rightarrow> None
              | Some ds \<Rightarrow>
                  if take 1 t' = ''0'' \<and> undigits 10 ds 0 \<noteq> 0 then None
                  else Some (undigits 10 ds 0)))"

definition int_base :: "nat \<Rightarrow> string \<Rightarrow> int option" where
  "int_base b s = (if b = 0 then py_int0 s else py_int b s)"

definition is_base_n :: "string \<Rightarrow> nat \<Rightarrow> bool" where
  "is_base_n s n \<longleftrightarrow> int_base n s \<noteq> None"

definition strcmp :: "string \<Rightarrow> string \<Rightarrow> int" where
  "strcmp s1 s2 = of_bool (s1 > s2) - of_bool (s1 < s2)"

definition py_hex :: "int \<Rightarrow> string" where
  "py_hex z = (if z < 0 then ''-0x'' @ str_base 16 (nat (- z)) else ''0x'' @ str_base 16 (nat z))"

definition num2str :: "nat \<Rightarrow> int \<Rightarrow> string" where
  "num2str base z = (if base = 10 then py_str z else py_hex z)"

subsection \<open>Expressions\<close>

definition make_and :: "expr \<Rightarrow> expr \<Rightarrow> expr" where
  "make_and e1 e2 =
     (if e1 = e_y then e2
      else if e2 = e_y then e1
      else if e1 = e_n \<or> e2 = e_n then e_n
      else EAnd e1 e2)"

definition make_or :: "expr \<Rightarrow> expr \<Rightarrow> expr" where
  "make_or e1 e2 =
     (if e1 = e_n then e2
      else if e2 = e_n then e1
      else if e1 = e_y \<or> e2 = e_y then e_y
      else EOr e1 e2)"

definition rel_holds :: "rel \<Rightarrow> int \<Rightarrow> bool" where
  "rel_holds r d =
     (case r of EQUAL \<Rightarrow> d = 0 | UNEQUAL \<Rightarrow> d \<noteq> 0 | LESS \<Rightarrow> d < 0
      | LESS_EQUAL \<Rightarrow> d \<le> 0 | GREATER \<Rightarrow> d > 0 | GREATER_EQUAL \<Rightarrow> d \<ge> 0)"

definition standard_sc_expr_str :: "kconf \<Rightarrow> item \<Rightarrow> string" where
  "standard_sc_expr_str k sc =
     (case sc of
        Sym s \<Rightarrow>
          if sy_const (k_sym k s) \<and> STR_TO_TRI (sy_name (k_sym k s)) = None
          then [dquote] @ escape (sy_name (k_sym k s)) @ [dquote]
          else sy_name (k_sym k s)
      | Chc c \<Rightarrow>
          (case ch_name (k_chc k c) of
             None \<Rightarrow> ''<choice>''
           | Some nm \<Rightarrow> if nm = [] then ''<choice>'' else ''<choice '' @ nm @ ''>''))"

fun is_and :: "expr \<Rightarrow> bool" where "is_and (EAnd _ _) = True" | "is_and _ = False"
fun is_or :: "expr \<Rightarrow> bool" where "is_or (EOr _ _) = True" | "is_or _ = False"

text \<open>The argument is \<open>sc_expr_str_fn\<close>; \<open>parens\<close> is the test of \<open>_parenthesize\<close>.\<close>

definition parens :: "bool \<Rightarrow> string \<Rightarrow> string" where
  "parens b s = (if b then ''('' @ s @ '')'' else s)"

fun expr_str :: "(item \<Rightarrow> string) \<Rightarrow> expr \<Rightarrow> string" where
  "expr_str f (EItem i) = f i"
| "expr_str f (EAnd a b) = parens (is_or a) (expr_str f a) @ '' && '' @ parens (is_or b) (expr_str f b)"
| "expr_str f (EOr a b) = parens (is_and a) (expr_str f a) @ '' || '' @ parens (is_and b) (expr_str f b)"
| "expr_str f (ENot a) =
     (case a of EItem i \<Rightarrow> ''!'' @ f i | _ \<Rightarrow> ''!('' @ expr_str f a @ '')'')"
| "expr_str f (ERel r a b) = f (Sym a) @ '' '' @ REL_TO_STR r @ '' '' @ f (Sym b)"

fun expr_items :: "expr \<Rightarrow> item list" where
  "expr_items (EItem i) = [i]"
| "expr_items (EAnd a b) = expr_items a @ expr_items b"
| "expr_items (EOr a b) = expr_items a @ expr_items b"
| "expr_items (ENot a) = expr_items a"
| "expr_items (ERel _ a b) = [Sym a, Sym b]"

fun split_or :: "expr \<Rightarrow> expr list" where
  "split_or (EOr a b) = split_or a @ split_or b"
| "split_or e = [e]"

fun split_and :: "expr \<Rightarrow> expr list" where
  "split_and (EAnd a b) = split_and a @ split_and b"
| "split_and e = [e]"

definition locs :: "kconf \<Rightarrow> nat list \<Rightarrow> string" where
  "locs k nodes =
     (if nodes = [] then ''(undefined)''
      else ''(defined at '' @
           py_join '', '' (map (\<lambda>n. nd_filename (k_node k n) @ '':'' @ py_str (int (nd_linenr (k_node k n)))) nodes)
           @ '')'')"

definition name_and_loc :: "kconf \<Rightarrow> item \<Rightarrow> string" where
  "name_and_loc k sc =
     (case sc of
        Sym s \<Rightarrow> sy_name (k_sym k s) @ '' '' @ locs k (sy_nodes (k_sym k s))
      | Chc c \<Rightarrow> standard_sc_expr_str k sc @ '' '' @ locs k (ch_nodes (k_chc k c)))"

subsection \<open>Laws\<close>

lemma replace_char_simps [simp]:
  "replace_char c t [] = []"
  "replace_char c t (x # s) = (if x = c then t else [x]) @ replace_char c t s"
  by (simp_all add: replace_char_def)

lemma escape_simps [simp]:
  "escape [] = []"
  "escape (x # s) =
     (if x = bslash then [bslash, bslash] else if x = dquote then [bslash, dquote] else [x]) @ escape s"
  by (auto simp: escape_def)

lemma unescape_plain: "c \<noteq> bslash \<Longrightarrow> unescape (c # s) = c # unescape s"
  by (cases s) simp_all

text \<open>\<open>unescape\<close> undoes \<open>escape\<close> on every string.\<close>

lemma unescape_escape: "unescape (escape s) = s"
  by (induction s) (auto simp: unescape_plain)

lemma strcmp_zero: "strcmp s t = 0 \<longleftrightarrow> s = t"
  by (auto simp: strcmp_def)

lemma split_or_neq_Nil [simp]: "split_or e \<noteq> []"
  by (induction e) auto

lemma split_and_neq_Nil [simp]: "split_and e \<noteq> []"
  by (induction e) auto

end
