(* ===== verification/Memo.thy ===== *)
theory Memo
  imports Py_Text
begin

text \<open>
  Demand-driven evaluation with caches, as \<^verbatim>\<open>kconfiglib.py\<close> uses it for its symbols:
  a computation asks for the values of other quantities (\<^emph>\<open>queries\<close>), some of which are inputs
  set by the user, some of which are kept in a cache once computed. \<open>eval\<close> evaluates without
  a cache, \<open>meval\<close> with one. The lemmas show that the two agree as long as the cache is
  sound, that a rank on the queries makes both return, and that dropping cache entries after
  an input has changed keeps the cache sound when every entry that used a changed value is
  among the dropped ones.
\<close>

subsection \<open>Computations\<close>

text \<open>
  \<open>Warn\<close> adds a message to the list of warnings, \<open>Note\<close> a message that is itself the value of
  a query; \<open>Fail\<close> is an exception.
\<close>

datatype ('q, 'a, 'r) comp =
    Ret 'r
  | Fail
  | Warn string "('q, 'a, 'r) comp"
  | Note 'q "('q, 'a, 'r) comp"
  | Ask 'q "'a \<Rightarrow> ('q, 'a, 'r) comp"

primrec cbind :: "('q, 'a, 'r) comp \<Rightarrow> ('r \<Rightarrow> ('q, 'a, 's) comp) \<Rightarrow> ('q, 'a, 's) comp" where
  "cbind (Ret r) f = f r"
| "cbind Fail f = Fail"
| "cbind (Warn w c) f = Warn w (cbind c f)"
| "cbind (Note q c) f = Note q (cbind c f)"
| "cbind (Ask q k) f = Ask q (\<lambda>a. cbind (k a) f)"

text \<open>A loop that leaves with the first result of its body that is not \<open>None\<close>.\<close>

fun first_c :: "('x \<Rightarrow> ('q, 'a, 'r option) comp) \<Rightarrow> 'x list \<Rightarrow> ('q, 'a, 'r option) comp" where
  "first_c f [] = Ret None"
| "first_c f (x # xs) =
     cbind (f x) (\<lambda>r. case r of None \<Rightarrow> first_c f xs | Some y \<Rightarrow> Ret (Some y))"

text \<open>A loop that threads a value through its body.\<close>

fun fold_c :: "('s \<Rightarrow> 'x \<Rightarrow> ('q, 'a, 's) comp) \<Rightarrow> 's \<Rightarrow> 'x list \<Rightarrow> ('q, 'a, 's) comp" where
  "fold_c f s [] = Ret s"
| "fold_c f s (x # xs) = cbind (f s x) (\<lambda>s'. fold_c f s' xs)"

subsection \<open>Evaluation\<close>

text \<open>Running a computation with given answers; warnings do not change its result.\<close>

primrec interp :: "('q \<Rightarrow> 'a option) \<Rightarrow> ('q, 'a, 'r) comp \<Rightarrow> 'r option" where
  "interp get (Ret r) = Some r"
| "interp get Fail = None"
| "interp get (Warn w c) = interp get c"
| "interp get (Note q c) = interp get c"
| "interp get (Ask q k) = (case get q of None \<Rightarrow> None | Some a \<Rightarrow> interp get (k a))"

text \<open>
  \<open>inp\<close> gives the values of the input queries; every other query is answered by running its
  body. The number bounds the depth of the recursion, and \<open>None\<close> says that it was not enough
  or that an exception was raised.
\<close>

primrec eval :: "('q \<Rightarrow> ('q, 'a, 'a) comp) \<Rightarrow> ('q \<Rightarrow> 'a option) \<Rightarrow> nat \<Rightarrow> 'q \<Rightarrow> 'a option" where
  "eval body inp 0 = inp"
| "eval body inp (Suc n) =
     (\<lambda>q. case inp q of Some a \<Rightarrow> Some a | None \<Rightarrow> interp (eval body inp n) (body q))"

text \<open>With a cache: the state is the cache and the warnings given so far.\<close>

type_synonym ('q, 'a) mstate = "('q \<Rightarrow> 'a option) \<times> string list"

primrec minterp ::
  "('a \<Rightarrow> string) \<Rightarrow> ('q \<Rightarrow> ('q, 'a) mstate \<Rightarrow> ('a \<times> ('q, 'a) mstate) option) \<Rightarrow> ('q, 'a, 'r) comp \<Rightarrow>
     ('q, 'a) mstate \<Rightarrow> ('r \<times> ('q, 'a) mstate) option" where
  "minterp txt get (Ret r) = (\<lambda>st. Some (r, st))"
| "minterp txt get Fail = (\<lambda>st. None)"
| "minterp txt get (Warn w c) = (\<lambda>(m, ws). minterp txt get c (m, ws @ [w]))"
| "minterp txt get (Note q c) =
     (\<lambda>st. case get q st of
             None \<Rightarrow> None
           | Some (a, m, ws) \<Rightarrow> minterp txt get c (m, ws @ [txt a]))"
| "minterp txt get (Ask q k) =
     (\<lambda>st. case get q st of None \<Rightarrow> None | Some (a, st') \<Rightarrow> minterp txt get (k a) st')"

definition known :: "('q \<Rightarrow> 'a option) \<Rightarrow> ('q \<Rightarrow> 'a option) \<Rightarrow> 'q \<Rightarrow> 'a option" where
  "known inp m q = (case inp q of Some a \<Rightarrow> Some a | None \<Rightarrow> m q)"

definition remember :: "('q \<Rightarrow> bool) \<Rightarrow> 'q \<Rightarrow> 'a \<times> ('q, 'a) mstate \<Rightarrow> 'a \<times> ('q, 'a) mstate" where
  "remember stored q r = (case r of (a, m, ws) \<Rightarrow> (a, if stored q then m(q \<mapsto> a) else m, ws))"

primrec meval ::
  "('q \<Rightarrow> ('q, 'a, 'a) comp) \<Rightarrow> ('q \<Rightarrow> bool) \<Rightarrow> ('a \<Rightarrow> string) \<Rightarrow> ('q \<Rightarrow> 'a option) \<Rightarrow> nat \<Rightarrow> 'q \<Rightarrow>
     ('q, 'a) mstate \<Rightarrow> ('a \<times> ('q, 'a) mstate) option" where
  "meval body stored txt inp 0 = (\<lambda>q st. map_option (\<lambda>a. (a, st)) (known inp (fst st) q))"
| "meval body stored txt inp (Suc n) =
     (\<lambda>q st. case known inp (fst st) q of
               Some a \<Rightarrow> Some (a, st)
             | None \<Rightarrow> map_option (remember stored q)
                         (minterp txt (meval body stored txt inp n) (body q) st))"

definition has ::
  "('q \<Rightarrow> ('q, 'a, 'a) comp) \<Rightarrow> ('q \<Rightarrow> 'a option) \<Rightarrow> 'q \<Rightarrow> 'a \<Rightarrow> bool" where
  "has body inp q a \<longleftrightarrow> (\<exists>n. eval body inp n q = Some a)"

definition sem ::
  "('q \<Rightarrow> ('q, 'a, 'a) comp) \<Rightarrow> ('q \<Rightarrow> 'a option) \<Rightarrow> ('q, 'a, 'r) comp \<Rightarrow> 'r \<Rightarrow> bool" where
  "sem body inp c r \<longleftrightarrow> (\<exists>n. interp (eval body inp n) c = Some r)"

subsection \<open>Laws of the evaluation without a cache\<close>

lemma interp_cbind: "interp get (cbind c f) = Option.bind (interp get c) (\<lambda>r. interp get (f r))"
  by (induction c) (auto split: option.splits)

lemma interp_mono:
  assumes "\<And>q a. g q = Some a \<Longrightarrow> h q = Some a"
  shows "interp g c = Some r \<Longrightarrow> interp h c = Some r"
  using assms by (induction c) (fastforce split: option.splits)+

lemma eval_inp [simp]: "inp q = Some a \<Longrightarrow> eval body inp n q = Some a"
  by (cases n) auto

lemma eval_Suc: "eval body inp n q = Some a \<Longrightarrow> eval body inp (Suc n) q = Some a"
proof (induction n arbitrary: q a)
  case (Suc n)
  show ?case
  proof (cases "inp q")
    case None
    with Suc.prems have "interp (eval body inp n) (body q) = Some a" by simp
    then have "interp (eval body inp (Suc n)) (body q) = Some a"
      by (rule interp_mono [rotated]) (rule Suc.IH)
    with None show ?thesis by simp
  qed (use Suc.prems in simp)
qed simp

lemma eval_mono: "n \<le> m \<Longrightarrow> eval body inp n q = Some a \<Longrightarrow> eval body inp m q = Some a"
  by (induction m rule: dec_induct) (auto intro: eval_Suc simp del: eval.simps)

lemma interp_eval_mono:
  "n \<le> m \<Longrightarrow> interp (eval body inp n) c = Some r \<Longrightarrow> interp (eval body inp m) c = Some r"
  by (rule interp_mono [where g = "eval body inp n"]) (auto intro: eval_mono)

lemma has_unique: "has body inp q a \<Longrightarrow> has body inp q b \<Longrightarrow> a = b"
  unfolding has_def by (metis eval_mono nle_le option.inject)

lemma sem_Ret [simp]: "sem body inp (Ret r) s \<longleftrightarrow> s = r"
  by (auto simp: sem_def)

lemma sem_Fail [simp]: "\<not> sem body inp Fail s"
  by (simp add: sem_def)

lemma sem_Warn [simp]: "sem body inp (Warn w c) s \<longleftrightarrow> sem body inp c s"
  by (simp add: sem_def)

lemma sem_Note [simp]: "sem body inp (Note q c) s \<longleftrightarrow> sem body inp c s"
  by (simp add: sem_def)

lemma sem_Ask: "sem body inp (Ask q k) s \<longleftrightarrow> (\<exists>a. has body inp q a \<and> sem body inp (k a) s)"
proof
  assume "sem body inp (Ask q k) s"
  then show "\<exists>a. has body inp q a \<and> sem body inp (k a) s"
    by (auto simp: sem_def has_def split: option.splits)
next
  assume "\<exists>a. has body inp q a \<and> sem body inp (k a) s"
  then obtain a n m where "eval body inp n q = Some a" "interp (eval body inp m) (k a) = Some s"
    by (auto simp: sem_def has_def)
  then have "eval body inp (max n m) q = Some a" "interp (eval body inp (max n m)) (k a) = Some s"
    by (auto intro: eval_mono [rotated] interp_eval_mono [rotated])
  then show "sem body inp (Ask q k) s" by (auto simp: sem_def intro!: exI [of _ "max n m"])
qed

lemma sem_cbind: "sem body inp (cbind c f) s \<longleftrightarrow> (\<exists>r. sem body inp c r \<and> sem body inp (f r) s)"
proof (induction c)
  case (Ask q k)
  then show ?case by (auto simp: sem_Ask)
qed simp_all

lemma sem_unique: "sem body inp c r \<Longrightarrow> sem body inp c s \<Longrightarrow> r = s"
  unfolding sem_def by (metis interp_eval_mono nle_le option.inject)

lemma has_inp: "inp q = Some a \<Longrightarrow> has body inp q b \<longleftrightarrow> b = a"
  by (auto simp: has_def)

lemma has_body: "inp q = None \<Longrightarrow> has body inp q a \<longleftrightarrow> sem body inp (body q) a"
proof
  assume none: "inp q = None" and "has body inp q a"
  then obtain n where "eval body inp n q = Some a" by (auto simp: has_def)
  with none show "sem body inp (body q) a" by (cases n) (auto simp: sem_def)
next
  assume none: "inp q = None" and "sem body inp (body q) a"
  then obtain n where "interp (eval body inp n) (body q) = Some a" by (auto simp: sem_def)
  with none have "eval body inp (Suc n) q = Some a" by simp
  then show "has body inp q a" unfolding has_def by blast
qed

subsection \<open>Laws of computations\<close>

text \<open>
  \<open>asks G P c\<close>: with answers that satisfy \<open>G\<close>, \<open>c\<close> asks only queries that satisfy \<open>P\<close>.
  \<open>runs F P G R c\<close>: with answers that satisfy \<open>G\<close>, \<open>c\<close> asks only for queries in \<open>P\<close>, raises an
  exception only if \<open>F\<close>, and its result satisfies \<open>R\<close>. \<open>path get c\<close>: the queries \<open>c\<close> asks with the
  answers \<open>get\<close>.
\<close>

primrec asks :: "('q \<Rightarrow> 'a \<Rightarrow> bool) \<Rightarrow> ('q \<Rightarrow> bool) \<Rightarrow> ('q, 'a, 'r) comp \<Rightarrow> bool" where
  "asks G P (Ret r) = True"
| "asks G P Fail = True"
| "asks G P (Warn w c) = asks G P c"
| "asks G P (Note q c) = asks G P c"
| "asks G P (Ask q k) = (P q \<and> (\<forall>a. G q a \<longrightarrow> asks G P (k a)))"

abbreviation asks_only :: "('q \<Rightarrow> bool) \<Rightarrow> ('q, 'a, 'r) comp \<Rightarrow> bool" where
  "asks_only \<equiv> asks (\<lambda>_ _. True)"

primrec runs ::
  "bool \<Rightarrow> ('q \<Rightarrow> bool) \<Rightarrow> ('q \<Rightarrow> 'a \<Rightarrow> bool) \<Rightarrow> ('r \<Rightarrow> bool) \<Rightarrow> ('q, 'a, 'r) comp \<Rightarrow> bool" where
  "runs F P G R (Ret r) = R r"
| "runs F P G R Fail = F"
| "runs F P G R (Warn w c) = runs F P G R c"
| "runs F P G R (Note q c) = (P q \<and> runs F P G R c)"
| "runs F P G R (Ask q k) = (P q \<and> (\<forall>a. G q a \<longrightarrow> runs F P G R (k a)))"

primrec path :: "('q \<Rightarrow> 'a option) \<Rightarrow> ('q, 'a, 'r) comp \<Rightarrow> 'q set" where
  "path get (Ret r) = {}"
| "path get Fail = {}"
| "path get (Warn w c) = path get c"
| "path get (Note q c) = path get c"
| "path get (Ask q k) = insert q (case get q of None \<Rightarrow> {} | Some a \<Rightarrow> path get (k a))"

lemma asks_cbind: "asks G P c \<Longrightarrow> (\<And>r. asks G P (f r)) \<Longrightarrow> asks G P (cbind c f)"
  by (induction c) auto

lemma asks_mono: "asks G P c \<Longrightarrow> (\<And>q. P q \<Longrightarrow> Q q) \<Longrightarrow> asks G Q c"
  by (induction c) auto

lemma asks_first_c:
  "(\<And>x. x \<in> set xs \<Longrightarrow> asks G P (f x)) \<Longrightarrow> asks G P (first_c f xs)"
  by (induction xs) (auto intro!: asks_cbind split: option.splits)

lemma asks_fold_c:
  "(\<And>s x. x \<in> set xs \<Longrightarrow> asks G P (f s x)) \<Longrightarrow> asks G P (fold_c f s xs)"
  by (induction xs arbitrary: s) (auto intro!: asks_cbind)

lemma runs_cbind:
  "runs F P G R c \<Longrightarrow> (\<And>r. R r \<Longrightarrow> runs F P G S (f r)) \<Longrightarrow> runs F P G S (cbind c f)"
  by (induction c) auto

lemma runs_mono: "runs F P G R c \<Longrightarrow> (\<And>r. R r \<Longrightarrow> S r) \<Longrightarrow> runs F P G S c"
  by (induction c) auto

lemma runs_first_c:
  assumes "\<And>x. x \<in> set xs \<Longrightarrow> runs F P G (\<lambda>r. \<forall>y. r = Some y \<longrightarrow> R y) (f x)"
  shows "runs F P G (\<lambda>r. \<forall>y. r = Some y \<longrightarrow> R y) (first_c f xs)"
  using assms
proof (induction xs)
  case (Cons x xs)
  show ?case
    by (simp, rule runs_cbind [OF Cons.prems])
      (use Cons in \<open>auto split: option.splits\<close>)
qed simp

lemma runs_fold_c:
  assumes "\<And>s x. x \<in> set xs \<Longrightarrow> I s \<Longrightarrow> runs F P G I (f s x)" and "I s"
  shows "runs F P G I (fold_c f s xs)"
  using assms by (induction xs arbitrary: s) (auto intro!: runs_cbind)

lemma path_asks: "asks G P c \<Longrightarrow> (\<And>q a. get q = Some a \<Longrightarrow> G q a) \<Longrightarrow> q \<in> path get c \<Longrightarrow> P q"
  by (induction c) (auto split: option.splits)

lemma path_cbind:
  "path g (cbind c f) = path g c \<union> (case interp g c of None \<Rightarrow> {} | Some x \<Rightarrow> path g (f x))"
  by (induction c) (auto split: option.splits)

lemma interp_path:
  "(\<And>q. q \<in> path g c \<Longrightarrow> h q = g q) \<Longrightarrow> interp h c = interp g c \<and> path h c = path g c"
  by (induction c) (auto split: option.splits)

lemma path_agree:
  assumes "\<And>q a b. g q = Some a \<Longrightarrow> h q = Some b \<Longrightarrow> a = b"
  shows "interp g c = Some r \<Longrightarrow> interp h c = Some s \<Longrightarrow> q \<in> path g c \<Longrightarrow> \<exists>a. g q = Some a \<and> h q = Some a"
  using assms by (induction c) (fastforce split: option.splits)+

subsection \<open>Cached evaluation agrees with evaluation\<close>

definition sound :: "('q \<Rightarrow> ('q, 'a, 'a) comp) \<Rightarrow> ('q \<Rightarrow> 'a option) \<Rightarrow> ('q \<Rightarrow> 'a option) \<Rightarrow> bool" where
  "sound body inp m \<longleftrightarrow> (\<forall>q a. m q = Some a \<longrightarrow> has body inp q a)"

definition closed :: "('q \<Rightarrow> ('q, 'a, 'a) comp) \<Rightarrow> ('q \<Rightarrow> 'a option) \<Rightarrow> ('q \<Rightarrow> 'a option) \<Rightarrow> bool" where
  "closed body inp m \<longleftrightarrow>
     (\<forall>q a. m q = Some a \<longrightarrow> inp q = None \<and> interp (known inp m) (body q) = Some a)"

definition cache_ok :: "('q \<Rightarrow> ('q, 'a, 'a) comp) \<Rightarrow> ('q \<Rightarrow> 'a option) \<Rightarrow> ('q \<Rightarrow> 'a option) \<Rightarrow> bool" where
  "cache_ok body inp m \<longleftrightarrow> sound body inp m \<and> closed body inp m"

lemma known_mono: "m \<subseteq>\<^sub>m m' \<Longrightarrow> known inp m q = Some a \<Longrightarrow> known inp m' q = Some a"
  by (auto simp: known_def map_le_def dom_def split: option.splits)

lemma known_has: "sound body inp m \<Longrightarrow> known inp m q = Some a \<Longrightarrow> has body inp q a"
  by (auto simp: known_def sound_def has_inp split: option.splits)

text \<open>What a cached evaluation promises, and that running a computation keeps it.\<close>

definition good_get ::
  "('q \<Rightarrow> ('q, 'a, 'a) comp) \<Rightarrow> ('q \<Rightarrow> bool) \<Rightarrow> ('q \<Rightarrow> 'a option) \<Rightarrow>
     ('q \<Rightarrow> ('q, 'a) mstate \<Rightarrow> ('a \<times> ('q, 'a) mstate) option) \<Rightarrow> bool" where
  "good_get body stored inp get \<longleftrightarrow>
     (\<forall>q m ws a m' ws'. cache_ok body inp m \<longrightarrow> get q (m, ws) = Some (a, m', ws') \<longrightarrow>
        cache_ok body inp m' \<and> m \<subseteq>\<^sub>m m' \<and> has body inp q a \<and>
        (stored q \<or> inp q \<noteq> None \<longrightarrow> known inp m' q = Some a))"

lemma good_getD:
  assumes "good_get body stored inp get" "cache_ok body inp m" "get q (m, ws) = Some (a, m', ws')"
  shows "cache_ok body inp m'" "m \<subseteq>\<^sub>m m'" "has body inp q a"
    "stored q \<or> inp q \<noteq> None \<Longrightarrow> known inp m' q = Some a"
  using assms unfolding good_get_def by blast+

lemma minterp_good:
  assumes get: "good_get body stored inp get"
    and asks: "asks_only (\<lambda>q. stored q \<or> inp q \<noteq> None) c"
    and ok: "cache_ok body inp m"
    and run: "minterp txt get c (m, ws) = Some (r, m', ws')"
  shows "cache_ok body inp m' \<and> m \<subseteq>\<^sub>m m' \<and> sem body inp c r \<and> interp (known inp m') c = Some r"
  using asks ok run
proof (induction c arbitrary: m ws)
  case (Note q c)
  from Note.prems obtain a m1 ws1 where a: "get q (m, ws) = Some (a, m1, ws1)"
    and rest: "minterp txt get c (m1, ws1 @ [txt a]) = Some (r, m', ws')"
    by (auto split: option.splits)
  note good_getD [OF get Note.prems(2) a]
  with Note.IH [OF _ _ rest] Note.prems show ?case by (auto intro: map_le_trans)
next
  case (Ask q k)
  from Ask.prems obtain a m1 ws1 where a: "get q (m, ws) = Some (a, m1, ws1)"
    and rest: "minterp txt get (k a) (m1, ws1) = Some (r, m', ws')"
    by (auto split: option.splits)
  have 1: "cache_ok body inp m1" "m \<subseteq>\<^sub>m m1" "has body inp q a" "known inp m1 q = Some a"
    using good_getD [OF get Ask.prems(2) a] Ask.prems(1) by simp_all
  have 2: "cache_ok body inp m'" "m1 \<subseteq>\<^sub>m m'" "sem body inp (k a) r"
    "interp (known inp m') (k a) = Some r"
    using Ask.IH [OF rangeI _ 1(1) rest] Ask.prems(1) by simp_all
  with 1 have "known inp m' q = Some a" by (auto intro: known_mono)
  with 1 2 show ?case by (auto simp: sem_Ask intro: map_le_trans)
qed auto

lemma cache_ok_remember:
  assumes ok: "cache_ok body inp m" and inp: "inp q = None"
    and a: "sem body inp (body q) a" "interp (known inp m) (body q) = Some a"
  shows "cache_ok body inp (m(q \<mapsto> a)) \<and> m \<subseteq>\<^sub>m m(q \<mapsto> a)"
proof -
  have has: "has body inp q a" using a inp by (simp add: has_body)
  have le: "m \<subseteq>\<^sub>m m(q \<mapsto> a)"
  proof (cases "m q")
    case (Some b)
    with ok has have "b = a" by (auto simp: cache_ok_def sound_def intro: has_unique)
    with Some show ?thesis by (auto simp: map_le_def)
  qed (auto simp: map_le_def)
  have mono: "interp (known inp m) c = Some b \<Longrightarrow> interp (known inp (m(q \<mapsto> a))) c = Some b" for c b
    by (rule interp_mono [where g = "known inp m"]) (auto intro: known_mono [OF le])
  show ?thesis
    using ok has le inp a
    by (auto simp: cache_ok_def sound_def closed_def intro!: mono)
qed

lemma meval_good:
  assumes asks: "\<And>q. asks_only (\<lambda>q. stored q \<or> inp q \<noteq> None) (body q)"
  shows "good_get body stored inp (meval body stored txt inp n)"
proof (induction n)
  case 0
  show ?case by (auto simp: good_get_def cache_ok_def intro: known_has)
next
  case (Suc n)
  show ?case
    unfolding good_get_def
  proof (intro allI impI)
    fix q m ws a m' ws'
    assume ok: "cache_ok body inp m" and run: "meval body stored txt inp (Suc n) q (m, ws) = Some (a, m', ws')"
    show "cache_ok body inp m' \<and> m \<subseteq>\<^sub>m m' \<and> has body inp q a \<and>
        (stored q \<or> inp q \<noteq> None \<longrightarrow> known inp m' q = Some a)"
    proof (cases "known inp m q")
      case (Some b)
      with run ok show ?thesis by (auto simp: cache_ok_def intro: known_has)
    next
      case None
      then have inp: "inp q = None" by (auto simp: known_def split: option.splits)
      from None run obtain m1 where
        r: "minterp txt (meval body stored txt inp n) (body q) (m, ws) = Some (a, m1, ws')"
        and m': "m' = (if stored q then m1(q \<mapsto> a) else m1)"
        by (auto simp: remember_def split: prod.splits)
      note 1 = minterp_good [OF Suc asks ok r]
      with inp have "has body inp q a" by (simp add: has_body)
      moreover have "cache_ok body inp (m1(q \<mapsto> a))" "m1 \<subseteq>\<^sub>m m1(q \<mapsto> a)"
        using cache_ok_remember [of body inp m1 q a] 1 inp by auto
      ultimately show ?thesis using 1 m' inp by (auto simp: known_def intro: map_le_trans)
    qed
  qed
qed

subsection \<open>Typed answers and ranked queries\<close>

lemma interp_typed:
  assumes "\<And>q a. get q = Some a \<Longrightarrow> P q \<Longrightarrow> G q a" "runs F P G R c" "interp get c = Some r"
  shows "R r"
  using assms(2,3)
proof (induction c)
  case (Ask q k)
  then obtain a where a: "get q = Some a" "interp get (k a) = Some r" by (auto split: option.splits)
  with Ask.prems assms(1) have "runs F P G R (k a)" by simp
  with Ask.IH a show ?case by blast
qed auto

lemma has_typed:
  assumes body: "\<And>q. inp q = None \<Longrightarrow> D q \<Longrightarrow> runs F D G (G q) (body q)"
    and inp: "\<And>q a. inp q = Some a \<Longrightarrow> D q \<Longrightarrow> G q a"
  shows "has body inp q a \<Longrightarrow> D q \<Longrightarrow> G q a"
proof -
  have "eval body inp n q = Some a \<Longrightarrow> D q \<Longrightarrow> G q a" for n
  proof (induction n arbitrary: q a)
    case (Suc n)
    show ?case
    proof (cases "inp q")
      case None
      with Suc.prems have "interp (eval body inp n) (body q) = Some a" by simp
      from interp_typed [OF Suc.IH body [OF None Suc.prems(2)] this] show ?thesis .
    qed (use Suc.prems inp in auto)
  qed (use inp in auto)
  then show "has body inp q a \<Longrightarrow> D q \<Longrightarrow> G q a" by (auto simp: has_def)
qed

lemma interp_runs:
  assumes get: "\<And>q. P q \<Longrightarrow> \<exists>a. get q = Some a \<and> G q a" and c: "runs False P G R c"
  shows "\<exists>r. interp get c = Some r \<and> R r"
  using c
proof (induction c)
  case (Ask q k)
  then obtain a where "get q = Some a" "G q a" using get [of q] by auto
  with Ask show ?case by simp
qed simp_all

lemma eval_ranked:
  assumes rank: "\<And>q. inp q = None \<Longrightarrow> D q \<Longrightarrow>
      runs False (\<lambda>q'. D q' \<and> (inp q' \<noteq> None \<or> rk q' < (rk q :: nat))) G (G q) (body q)"
    and inp: "\<And>q a. inp q = Some a \<Longrightarrow> D q \<Longrightarrow> G q a"
  shows "D q \<Longrightarrow> rk q < n \<Longrightarrow> \<exists>a. eval body inp n q = Some a \<and> G q a"
proof (induction n arbitrary: q)
  case (Suc n)
  show ?case
  proof (cases "inp q")
    case None
    have "\<exists>a. eval body inp n q' = Some a \<and> G q' a"
      if "D q' \<and> (inp q' \<noteq> None \<or> rk q' < rk q)" for q'
      using that Suc.IH [of q'] Suc.prems inp by (cases "inp q'") auto
    from interp_runs [OF this rank [OF None Suc.prems(1)]] None show ?thesis by simp
  qed (use inp Suc.prems in simp)
qed simp

lemma minterp_runs:
  assumes get: "good_get body stored inp get"
    and typed: "\<And>q a. P q \<Longrightarrow> has body inp q a \<Longrightarrow> G q a"
    and ret: "\<And>q m ws. P q \<Longrightarrow> cache_ok body inp m \<Longrightarrow> get q (m, ws) \<noteq> None"
    and asks: "asks_only (\<lambda>q. stored q \<or> inp q \<noteq> None) c"
    and c: "runs False P G R c" and ok: "cache_ok body inp m"
  shows "minterp txt get c (m, ws) \<noteq> None"
  using asks c ok
proof (induction c arbitrary: m ws)
  case (Note q c)
  then obtain a m1 ws1 where a: "get q (m, ws) = Some (a, m1, ws1)"
    using ret [of q m ws] by auto
  moreover have "cache_ok body inp m1" using good_getD(1) [OF get Note.prems(3) a] .
  ultimately show ?case using Note by auto
next
  case (Ask q k)
  then obtain a m1 ws1 where a: "get q (m, ws) = Some (a, m1, ws1)"
    using ret [of q m ws] by auto
  moreover have "cache_ok body inp m1" "G q a"
    using good_getD(1,3) [OF get Ask.prems(3) a] typed Ask.prems(2) by auto
  ultimately show ?case using Ask.IH [OF rangeI, of a m1 ws1] Ask.prems by auto
qed auto

lemma meval_ranked:
  assumes rank: "\<And>q. inp q = None \<Longrightarrow> D q \<Longrightarrow>
      runs False (\<lambda>q'. D q' \<and> (inp q' \<noteq> None \<or> rk q' < (rk q :: nat))) G (G q) (body q)"
    and inp: "\<And>q a. inp q = Some a \<Longrightarrow> D q \<Longrightarrow> G q a"
    and asks: "\<And>q. asks_only (\<lambda>q. stored q \<or> inp q \<noteq> None) (body q)"
  shows "D q \<Longrightarrow> rk q < n \<Longrightarrow> cache_ok body inp m \<Longrightarrow> meval body stored txt inp n q (m, ws) \<noteq> None"
proof (induction n arbitrary: q m ws)
  case (Suc n)
  have typed: "G q' a" if "D q'" "has body inp q' a" for q' a
    using eval_ranked [where D = D and G = G and rk = rk, OF rank inp, of q' "Suc (rk q')"] that
    by (auto simp: has_def simp del: eval.simps) (metis has_def has_unique)
  show ?case
  proof (cases "known inp m q")
    case None
    then have "inp q = None" by (auto simp: known_def split: option.splits)
    have ret: "meval body stored txt inp n q' (m', ws') \<noteq> None"
      if "D q' \<and> (inp q' \<noteq> None \<or> rk q' < rk q)" "cache_ok body inp m'" for q' m' ws'
      using that Suc.IH [of q' m' ws'] Suc.prems by (cases "inp q'"; cases n) (auto simp: known_def)
    have "minterp txt (meval body stored txt inp n) (body q) (m, ws) \<noteq> None"
      by (rule minterp_runs [OF meval_good [OF asks] _ _ asks rank])
        (use typed ret Suc.prems \<open>inp q = None\<close> in auto)
    with None show ?thesis by simp
  qed simp
qed simp

subsection \<open>Invalidation\<close>

text \<open>
  The inputs change from \<open>inp\<close> to \<open>inp'\<close> and the cache loses entries. If no remaining entry
  used a query whose known value changed, the remaining cache is sound for the new inputs.
\<close>

lemma invalidate_ok:
  assumes ok: "cache_ok body inp m"
    and le: "m' \<subseteq>\<^sub>m m"
    and leaf: "\<And>q. inp' q = None \<longleftrightarrow> inp q = None"
    and keep: "\<And>q q'. m' q \<noteq> None \<Longrightarrow> q' \<in> path (known inp m) (body q) \<Longrightarrow>
                known inp' m' q' = known inp m q'"
  shows "cache_ok body inp' m'"
proof -
  have entry: "m q = Some a" if "m' q = Some a" for q a
    using that le by (force simp: map_le_def dom_def)
  have snd: "sound body inp m" and cls: "closed body inp m" using ok by (auto simp: cache_ok_def)
  have closed': "inp' q = None \<and> interp (known inp' m') (body q) = Some a" if "m' q = Some a" for q a
    using interp_path [of "known inp m" "body q" "known inp' m'"] keep [of q] that entry [OF that] cls leaf
    by (auto simp: closed_def)
  have "eval body inp' n q = Some a" if "m' q = Some a" "eval body inp n q = Some a" for n q a
    using that
  proof (induction n arbitrary: q a)
    case 0
    then show ?case using cls entry by (force simp: closed_def)
  next
    case (Suc n)
    have q: "inp q = None" "interp (known inp m) (body q) = Some a"
      using cls entry [OF Suc.prems(1)] by (auto simp: closed_def)
    with Suc.prems have e: "interp (eval body inp n) (body q) = Some a" by simp
    have "eval body inp' n q' = known inp m q'" if q': "q' \<in> path (known inp m) (body q)" for q'
    proof -
      have same: "known inp' m' q' = known inp m q'" using keep Suc.prems(1) q' by blast
      have "\<exists>b. known inp m q' = Some b \<and> eval body inp n q' = Some b"
        by (rule path_agree [OF _ q(2) e q'])
          (meson known_has [OF snd] has_def has_unique)
      then obtain b where b: "known inp m q' = Some b" "eval body inp n q' = Some b" by blast
      show ?thesis
      proof (cases "inp' q'")
        case None
        with same b have "m' q' = Some b" by (simp add: known_def)
        with Suc.IH b show ?thesis by simp
      qed (use same b in \<open>simp add: known_def\<close>)
    qed
    with interp_path [of "known inp m" "body q" "eval body inp' n"] q closed' [OF Suc.prems(1)]
    show ?case by simp
  qed
  then have "sound body inp' m'"
    using snd entry by (fastforce simp: sound_def has_def)
  with closed' show ?thesis by (simp add: cache_ok_def closed_def)
qed

text \<open>Only stored queries enter the cache.\<close>

definition only_stored :: "('q \<Rightarrow> bool) \<Rightarrow> ('q \<Rightarrow> 'a option) \<Rightarrow> bool" where
  "only_stored stored m \<longleftrightarrow> (\<forall>q. m q \<noteq> None \<longrightarrow> stored q)"

lemma minterp_dom:
  assumes get: "\<And>q m ws a m' ws'. get q (m, ws) = Some (a, m', ws') \<Longrightarrow> only_stored stored m \<Longrightarrow>
      only_stored stored m'"
  shows "minterp txt get c (m, ws) = Some (r, m', ws') \<Longrightarrow> only_stored stored m \<Longrightarrow>
      only_stored stored m'"
proof (induction c arbitrary: m ws)
  case (Note q c)
  from Note.prems obtain a m1 ws1 where a: "get q (m, ws) = Some (a, m1, ws1)"
    and rest: "minterp txt get c (m1, ws1 @ [txt a]) = Some (r, m', ws')"
    by (auto split: option.splits)
  from Note.IH [OF rest get [OF a Note.prems(2)]] show ?case .
next
  case (Ask q k)
  from Ask.prems obtain a m1 ws1 where a: "get q (m, ws) = Some (a, m1, ws1)"
    and rest: "minterp txt get (k a) (m1, ws1) = Some (r, m', ws')"
    by (auto split: option.splits)
  from Ask.IH [OF rangeI rest get [OF a Ask.prems(2)]] show ?case .
qed auto

lemma meval_dom:
  "meval body stored txt inp n q (m, ws) = Some (a, m', ws') \<Longrightarrow> only_stored stored m \<Longrightarrow>
     only_stored stored m'"
proof (induction n arbitrary: q m ws a m' ws')
  case (Suc n)
  show ?case
  proof (cases "known inp m q")
    case None
    with Suc.prems obtain m1 where
      r: "minterp txt (meval body stored txt inp n) (body q) (m, ws) = Some (a, m1, ws')"
      and m': "m' = (if stored q then m1(q \<mapsto> a) else m1)"
      by (auto simp: remember_def split: prod.splits)
    have "only_stored stored m1"
      by (rule minterp_dom [OF _ r Suc.prems(2)]) (rule Suc.IH)
    with m' show ?thesis by (simp add: only_stored_def)
  qed (use Suc.prems in auto)
qed auto

subsection \<open>The interface of a cached evaluation\<close>

text \<open>
  A client gives the bodies of its queries, tells which of them it stores and which are inputs,
  and promises that a body asks only for stored or input queries. It gets that reading a
  property returns the value computed from scratch and keeps the cache sound.
\<close>

locale memo =
  fixes body :: "'k \<Rightarrow> 'q \<Rightarrow> ('q, 'a, 'a) comp"
    and stored :: "'q \<Rightarrow> bool"
    and msg :: "'a \<Rightarrow> string"
    and inp :: "'s \<Rightarrow> 'q \<Rightarrow> 'a option"
  assumes asks_stored: "asks_only (\<lambda>q. stored q \<or> inp s q \<noteq> None) (body k q)"
begin

definition run :: "nat \<Rightarrow> 'k \<Rightarrow> 's \<Rightarrow> ('q, 'a, 'r) comp \<Rightarrow> ('q, 'a) mstate \<Rightarrow> ('r \<times> ('q, 'a) mstate) option" where
  "run n k s = minterp msg (meval (body k) stored msg (inp s) n)"

lemma run_sound:
  assumes "cache_ok (body k) (inp s) m" "asks_only (\<lambda>q. stored q \<or> inp s q \<noteq> None) c"
    and "run n k s c (m, ws) = Some (r, m', ws')"
  shows "cache_ok (body k) (inp s) m'" "sem (body k) (inp s) c r"
  using minterp_good [OF meval_good [OF asks_stored] assms(2,1) assms(3) [unfolded run_def]] by auto

lemma run_stored:
  assumes "only_stored stored m" "run n k s c (m, ws) = Some (r, m', ws')"
  shows "only_stored stored m'"
  by (rule minterp_dom [OF _ assms(2) [unfolded run_def] assms(1)]) (rule meval_dom)

lemma run_returns:
  assumes rank: "\<And>q. inp s q = None \<Longrightarrow> D q \<Longrightarrow>
      runs False (\<lambda>q'. D q' \<and> (inp s q' \<noteq> None \<or> rk q' < (rk q :: nat))) G (G q) (body k q)"
    and inp: "\<And>q a. inp s q = Some a \<Longrightarrow> D q \<Longrightarrow> G q a"
    and c: "runs False (\<lambda>q'. D q' \<and> (inp s q' \<noteq> None \<or> rk q' < n)) G R c"
      "asks_only (\<lambda>q. stored q \<or> inp s q \<noteq> None) c"
    and ok: "cache_ok (body k) (inp s) m"
  shows "run n k s c (m, ws) \<noteq> None"
  unfolding run_def
proof (rule minterp_runs [OF meval_good [OF asks_stored] _ _ c(2,1) ok])
  fix q a assume "D q \<and> (inp s q \<noteq> None \<or> rk q < n)" "has (body k) (inp s) q a"
  then show "G q a"
    using eval_ranked [where D = D and G = G and rk = rk, OF rank inp, of q "Suc (rk q)"]
    by (auto simp: has_def simp del: eval.simps) (metis has_def has_unique)
next
  fix q m ws assume "D q \<and> (inp s q \<noteq> None \<or> rk q < n)" "cache_ok (body k) (inp s) m"
  then show "meval (body k) stored msg (inp s) n q (m, ws) \<noteq> None"
    using meval_ranked [where D = D and G = G and rk = rk, OF rank inp asks_stored, of q n m msg ws]
    by (cases "inp s q"; cases n) (auto simp: known_def)
qed

end

end
