(* ===== verification/Kc_Eval.thy ===== *)
theory Kc_Eval
  imports Kc_Expr Memo
begin

text \<open>
  How \<^verbatim>\<open>kconfiglib.py\<close> computes the value, the visibility, the assignable values and the
  selection of symbols and choices: one computation per property of \<open>Symbol\<close> and \<open>Choice\<close>.
  A property that the source keeps in a \<open>_cached_*\<close> field is a query, and so are the three
  things the user sets (\<open>Symbol.user_value\<close>, \<open>Choice.user_value\<close> and
  \<open>Choice.user_selection\<close>). \<open>Symbol._write_to_conf\<close>, which the source sets while it computes
  a value, is the second component of the answer. \<open>QUnsat\<close> is the message of
  \<open>_warn_select_unsatisfied_deps\<close>.
\<close>

subsection \<open>Queries and answers\<close>

datatype uval = UTri int | UStr string

datatype query =
    QTri nat
  | QStr nat
  | QVis item
  | QSel nat
  | QAsg item
  | QUnsat nat
  | QUser nat
  | QCUser nat
  | QCSel nat

datatype ans =
    ATri int bool
  | AStr string bool
  | AVis int
  | ASel "nat option"
  | AAsg "int list"
  | AUser "uval option"
  | ACUser "int option"

type_synonym 'r kcomp = "(query, ans, 'r) comp"

definition ask_tri :: "nat \<Rightarrow> int kcomp" where
  "ask_tri s = Ask (QTri s) (\<lambda>a. case a of ATri v _ \<Rightarrow> Ret v | _ \<Rightarrow> Fail)"

definition ask_str :: "nat \<Rightarrow> string kcomp" where
  "ask_str s = Ask (QStr s) (\<lambda>a. case a of AStr v _ \<Rightarrow> Ret v | _ \<Rightarrow> Fail)"

definition ask_vis :: "item \<Rightarrow> int kcomp" where
  "ask_vis i = Ask (QVis i) (\<lambda>a. case a of AVis v \<Rightarrow> Ret v | _ \<Rightarrow> Fail)"

definition ask_sel :: "nat \<Rightarrow> nat option kcomp" where
  "ask_sel c = Ask (QSel c) (\<lambda>a. case a of ASel v \<Rightarrow> Ret v | _ \<Rightarrow> Fail)"

definition ask_user :: "nat \<Rightarrow> uval option kcomp" where
  "ask_user s = Ask (QUser s) (\<lambda>a. case a of AUser v \<Rightarrow> Ret v | _ \<Rightarrow> Fail)"

definition ask_cuser :: "nat \<Rightarrow> int option kcomp" where
  "ask_cuser c = Ask (QCUser c) (\<lambda>a. case a of ACUser v \<Rightarrow> Ret v | _ \<Rightarrow> Fail)"

definition ask_csel :: "nat \<Rightarrow> nat option kcomp" where
  "ask_csel c = Ask (QCSel c) (\<lambda>a. case a of ASel v \<Rightarrow> Ret v | _ \<Rightarrow> Fail)"

subsection \<open>Choice modes, types and expressions\<close>

definition choice_type :: "kconf \<Rightarrow> nat \<Rightarrow> ktype kcomp" where
  "choice_type k c =
     (if ch_type (k_chc k c) = TRISTATE
      then cbind (ask_tri sym_MODULES) (\<lambda>m. Ret (if m = 0 then BOOL else TRISTATE))
      else Ret (ch_type (k_chc k c)))"

definition choice_tri_value :: "kconf \<Rightarrow> nat \<Rightarrow> int kcomp" where
  "choice_tri_value k c =
     cbind (ask_cuser c) (\<lambda>u.
     let val = (if ch_optional (k_chc k c) then 0 else 1);
         val = (case u of None \<Rightarrow> val | Some v \<Rightarrow> max val v)
     in cbind (ask_vis (Chc c)) (\<lambda>vis.
        let val = min val vis
        in if val = 1
           then cbind (choice_type k c) (\<lambda>t. Ret (if t = BOOL then 2 else val))
           else Ret val))"

definition sym_type :: "kconf \<Rightarrow> nat \<Rightarrow> ktype kcomp" where
  "sym_type k s =
     (let modules = cbind (ask_tri sym_MODULES) (\<lambda>m. Ret (if m = 0 then BOOL else TRISTATE))
      in if sy_type (k_sym k s) = TRISTATE
         then (case sy_choice (k_sym k s) of
                 None \<Rightarrow> modules
               | Some c \<Rightarrow> cbind (choice_tri_value k c) (\<lambda>v. if v = 2 then Ret BOOL else modules))
         else Ret (sy_type (k_sym k s)))"

definition item_tri_value :: "kconf \<Rightarrow> item \<Rightarrow> int kcomp" where
  "item_tri_value k i = (case i of Sym s \<Rightarrow> ask_tri s | Chc c \<Rightarrow> choice_tri_value k c)"

text \<open>\<open>None\<close> is the \<open>ValueError\<close> of \<open>int\<close>, which the caller catches.\<close>

definition sym_to_num :: "kconf \<Rightarrow> nat \<Rightarrow> int option kcomp" where
  "sym_to_num k s =
     (if bool_tristate (sy_type (k_sym k s))
      then cbind (ask_tri s) (\<lambda>v. Ret (Some v))
      else cbind (ask_str s) (\<lambda>t. Ret (int_base (TYPE_TO_BASE (sy_type (k_sym k s))) t)))"

definition str_relation :: "rel \<Rightarrow> nat \<Rightarrow> nat \<Rightarrow> int kcomp" where
  "str_relation r v1 v2 =
     cbind (ask_str v1) (\<lambda>s1. cbind (ask_str v2) (\<lambda>s2.
       Ret (if rel_holds r (strcmp s1 s2) then 2 else 0)))"

fun expr_value :: "kconf \<Rightarrow> expr \<Rightarrow> int kcomp" where
  "expr_value k (EItem i) = item_tri_value k i"
| "expr_value k (EAnd a b) =
     cbind (expr_value k a) (\<lambda>v1.
       if v1 = 0 then Ret 0 else cbind (expr_value k b) (\<lambda>v2. Ret (min v1 v2)))"
| "expr_value k (EOr a b) =
     cbind (expr_value k a) (\<lambda>v1.
       if v1 = 2 then Ret 2 else cbind (expr_value k b) (\<lambda>v2. Ret (max v1 v2)))"
| "expr_value k (ENot a) = cbind (expr_value k a) (\<lambda>v. Ret (2 - v))"
| "expr_value k (ERel r v1 v2) =
     (if sy_type (k_sym k v1) = STRING \<and> sy_type (k_sym k v2) = STRING then str_relation r v1 v2
      else cbind (sym_to_num k v1) (\<lambda>n1.
           case n1 of
             None \<Rightarrow> str_relation r v1 v2
           | Some n1 \<Rightarrow>
               cbind (sym_to_num k v2) (\<lambda>n2.
               case n2 of
                 None \<Rightarrow> str_relation r v1 v2
               | Some n2 \<Rightarrow> Ret (if rel_holds r (n1 - n2) then 2 else 0))))"

subsection \<open>Visibility\<close>

definition prompt_vis :: "kconf \<Rightarrow> nat list \<Rightarrow> int kcomp" where
  "prompt_vis k nodes =
     fold_c (\<lambda>vis n. case nd_prompt (k_node k n) of
                       None \<Rightarrow> Ret vis
                     | Some (_, cond) \<Rightarrow> cbind (expr_value k cond) (\<lambda>v. Ret (max vis v)))
       0 nodes"

definition promote_vis :: "ktype kcomp \<Rightarrow> int \<Rightarrow> int kcomp" where
  "promote_vis ty vis =
     (if vis = 1 then cbind ty (\<lambda>t. Ret (if t \<noteq> TRISTATE then 2 else vis)) else Ret vis)"

definition sym_visibility :: "kconf \<Rightarrow> nat \<Rightarrow> int kcomp" where
  "sym_visibility k s =
     cbind (prompt_vis k (sy_nodes (k_sym k s))) (\<lambda>vis.
     let ty = sy_type (k_sym k s); done = promote_vis (sym_type k s) vis
     in case sy_choice (k_sym k s) of
          None \<Rightarrow> done
        | Some c \<Rightarrow>
            if ch_type (k_chc k c) = TRISTATE \<and> ty \<noteq> TRISTATE
            then cbind (choice_tri_value k c) (\<lambda>v. if v \<noteq> 2 then Ret 0 else done)
            else if ty = TRISTATE \<and> vis = 1
            then cbind (choice_tri_value k c) (\<lambda>v. if v = 2 then Ret 0 else done)
            else done)"

definition choice_visibility :: "kconf \<Rightarrow> nat \<Rightarrow> int kcomp" where
  "choice_visibility k c =
     cbind (prompt_vis k (ch_nodes (k_chc k c))) (promote_vis (choice_type k c))"

subsection \<open>Tristate values\<close>

text \<open>
  The first default whose condition holds: \<open>default_val\<close> is \<open>min(default, cond)\<close> for a bool
  or tristate symbol, \<open>default_str\<close> the string value for the other types.
\<close>

definition default_val :: "kconf \<Rightarrow> nat \<Rightarrow> int option kcomp" where
  "default_val k s =
     first_c (\<lambda>(default, cond).
       cbind (expr_value k cond) (\<lambda>dep_val.
         if dep_val = 0 then Ret None
         else cbind (expr_value k default) (\<lambda>v. Ret (Some (min v dep_val)))))
       (sy_defaults (k_sym k s))"

definition warn_select_unsatisfied :: "kconf \<Rightarrow> nat \<Rightarrow> string kcomp" where
  "warn_select_unsatisfied k s =
     (let y = k_sym k s; es = expr_str (standard_sc_expr_str k) in
      cbind (expr_value k (sy_direct_dep y)) (\<lambda>dv.
      cbind (expr_value k (sy_rev_dep y)) (\<lambda>rv.
      fold_c (\<lambda>msg select.
        cbind (expr_value k select) (\<lambda>v.
        cbind (expr_value k (sy_direct_dep y)) (\<lambda>dv.
        if v \<le> dv then Ret msg
        else case hd (split_and select) of
               EItem (Sym t) \<Rightarrow>
                 cbind (ask_str t) (\<lambda>ts.
                 cbind (expr_value k (sy_direct_dep (k_sym k t))) (\<lambda>td.
                 let msg = msg @ [newline] @ '' - '' @ name_and_loc k (Sym t) @ '', with value '' @ ts
                           @ '', direct dependencies '' @ es (sy_direct_dep (k_sym k t))
                           @ '' (value: '' @ TRI_TO_STR td @ '')''
                 in case select of
                      EItem _ \<Rightarrow> Ret msg
                    | EAnd _ cond \<Rightarrow>
                        cbind (expr_value k cond) (\<lambda>cv.
                          Ret (msg @ '', and select condition '' @ es cond @ '' (value: '' @ TRI_TO_STR cv @ '')''))
                    | _ \<Rightarrow> Fail))
             | _ \<Rightarrow> Fail)))
        (name_and_loc k (Sym s) @ '' has direct dependencies '' @ es (sy_direct_dep y)
         @ '' with value '' @ TRI_TO_STR dv @ '', but is currently being '' @ TRI_TO_STR rv
         @ ''-selected by the following symbols:'')
        (split_or (sy_rev_dep y)))))"

text \<open>
  The value of a symbol that is in no choice; \<open>w\<close> is \<open>_write_to_conf\<close>. \<open>reverse_deps\<close> is the
  part after the defaults: the selects, and the promotion of \<open>m\<close> to \<open>y\<close>.
\<close>

definition reverse_deps :: "kconf \<Rightarrow> nat \<Rightarrow> int \<Rightarrow> bool \<Rightarrow> (int \<times> bool) kcomp" where
  "reverse_deps k s val w =
     (let y = k_sym k s in
      cbind (expr_value k (sy_rev_dep y)) (\<lambda>dep_val.
      cbind (if dep_val = 0 then Ret (val, w)
             else cbind (expr_value k (sy_direct_dep y)) (\<lambda>dd.
                  if dd < dep_val then Note (QUnsat s) (Ret (max dep_val val, True))
                  else Ret (max dep_val val, True))) (\<lambda>(val, w).
      if val = 1
      then cbind (sym_type k s) (\<lambda>t.
           if t = BOOL then Ret (2, w)
           else cbind (expr_value k (sy_weak_rev_dep y)) (\<lambda>wv. Ret (if wv = 2 then 2 else val, w)))
      else Ret (val, w))))"

definition plain_tri_value :: "kconf \<Rightarrow> nat \<Rightarrow> int \<Rightarrow> (int \<times> bool) kcomp" where
  "plain_tri_value k s vis =
     (let y = k_sym k s;
          weak = (\<lambda>val w.
            cbind (expr_value k (sy_weak_rev_dep y)) (\<lambda>dep_val.
              if dep_val = 0 then reverse_deps k s val w
              else cbind (expr_value k (sy_direct_dep y)) (\<lambda>dd.
                   if dd = 0 then reverse_deps k s val w
                   else reverse_deps k s (max dep_val val) True)));
          defaults =
            cbind (default_val k s) (\<lambda>d.
              case d of
                None \<Rightarrow> weak 0 (vis \<noteq> 0)
              | Some v \<Rightarrow> weak v (vis \<noteq> 0 \<or> v \<noteq> 0))
      in if vis = 0 then defaults
         else cbind (ask_user s) (\<lambda>u.
              case u of
                None \<Rightarrow> defaults
              | Some (UTri v) \<Rightarrow> reverse_deps k s (min v vis) (vis \<noteq> 0)
              | Some (UStr _) \<Rightarrow> Fail))"

definition choice_sym_tri_value :: "nat \<Rightarrow> nat \<Rightarrow> int \<Rightarrow> (int \<times> bool) kcomp" where
  "choice_sym_tri_value s c vis =
     (if vis = 2 then cbind (ask_sel c) (\<lambda>sel. Ret (if sel = Some s then 2 else 0, True))
      else if vis = 0 then Ret (0, False)
      else cbind (ask_user s) (\<lambda>u.
           case u of
             None \<Rightarrow> Ret (0, True)
           | Some (UTri v) \<Rightarrow> Ret (if v \<noteq> 0 then 1 else 0, True)
           | Some (UStr t) \<Rightarrow> Ret (if t \<noteq> [] then 1 else 0, True)))"

text \<open>
  \<open>n\<close>, \<open>m\<close> and \<open>y\<close> are created with their \<open>_cached_tri_val\<close> set, and nothing invalidates it.
\<close>

definition sym_tri_value :: "kconf \<Rightarrow> nat \<Rightarrow> (int \<times> bool) kcomp" where
  "sym_tri_value k s =
     (let y = k_sym k s; ty = sy_type y in
      if s \<le> sym_y then Ret (int s, False)
      else if \<not> bool_tristate ty
      then (if ty = UNKNOWN then Ret (0, False)
            else Warn (''The '' @ TYPE_TO_STR ty @ '' symbol '' @ name_and_loc k (Sym s)
                   @ '' is being evaluated in a logical context somewhere. It will always evaluate to n.'')
                 (Ret (0, False)))
      else cbind (ask_vis (Sym s)) (\<lambda>vis.
           case sy_choice y of
             None \<Rightarrow> plain_tri_value k s vis
           | Some c \<Rightarrow> choice_sym_tri_value s c vis))"

subsection \<open>String values\<close>

definition default_str :: "kconf \<Rightarrow> nat \<Rightarrow> string option kcomp" where
  "default_str k s =
     first_c (\<lambda>(default, cond).
       cbind (expr_value k cond) (\<lambda>v.
         if v = 0 then Ret None
         else case default of
                EItem (Sym d) \<Rightarrow> cbind (ask_str d) (\<lambda>t. Ret (Some t))
              | EItem (Chc c) \<Rightarrow> cbind (choice_tri_value k c) (\<lambda>t. Ret (Some (TRI_TO_STR t)))
              | _ \<Rightarrow> Fail))
       (sy_defaults (k_sym k s))"

text \<open>A string that is no number counts as 0, as \<open>strtoll()\<close> does for the C tools.\<close>

definition num_or_0 :: "nat \<Rightarrow> string \<Rightarrow> int" where
  "num_or_0 base t = (case int_base base t of None \<Rightarrow> 0 | Some z \<Rightarrow> z)"

definition active_range :: "kconf \<Rightarrow> nat \<Rightarrow> nat \<Rightarrow> (int \<times> int) option kcomp" where
  "active_range k s base =
     first_c (\<lambda>(low, high, cond).
       cbind (expr_value k cond) (\<lambda>v.
         if v = 0 then Ret None
         else cbind (ask_str low) (\<lambda>l. cbind (ask_str high) (\<lambda>h.
              Ret (Some (num_or_0 base l, num_or_0 base h))))))
       (sy_ranges (k_sym k s))"

text \<open>
  The value of an int or hex symbol from its defaults, and clamped to the active range;
  \<open>w\<close> is \<open>_write_to_conf\<close> so far.
\<close>

definition clamped :: "nat \<Rightarrow> (int \<times> int) option \<Rightarrow> int \<Rightarrow> int option" where
  "clamped base rng num =
     (case rng of
        None \<Rightarrow> None
      | Some (low, high) \<Rightarrow>
          if num < low then Some low else if num > high then Some high else None)"

definition num_default :: "kconf \<Rightarrow> nat \<Rightarrow> nat \<Rightarrow> (int \<times> int) option \<Rightarrow> bool \<Rightarrow> (string \<times> bool) kcomp" where
  "num_default k s base rng w =
     cbind (default_str k s) (\<lambda>d.
     let val = (case d of None \<Rightarrow> [] | Some t \<Rightarrow> t);
         num = (case d of None \<Rightarrow> 0 | Some t \<Rightarrow> num_or_0 base t);
         w = (w \<or> d \<noteq> None)
     in case clamped base rng num of
          None \<Rightarrow> Ret (val, w)
        | Some clamp \<Rightarrow>
            let r = Ret (num2str base clamp, w); (low, high) = the rng
            in if d \<noteq> None
               then Warn (''default value '' @ py_str num @ '' on '' @ name_and_loc k (Sym s) @ '' clamped to ''
                     @ num2str base clamp @ '' due to being outside the active range (['' @ num2str base low
                     @ '', '' @ num2str base high @ ''])'') r
               else r)"

definition num_str_value :: "kconf \<Rightarrow> nat \<Rightarrow> nat \<Rightarrow> int \<Rightarrow> (string \<times> bool) kcomp" where
  "num_str_value k s base vis =
     cbind (active_range k s base) (\<lambda>rng.
     let w = (vis \<noteq> 0)
     in if vis = 0 then num_default k s base rng w
        else cbind (ask_user s) (\<lambda>u.
             case u of
               None \<Rightarrow> num_default k s base rng w
             | Some (UTri _) \<Rightarrow> Fail
             | Some (UStr t) \<Rightarrow>
                 if t = [] then num_default k s base rng w
                 else (case int_base base t of
                         None \<Rightarrow> Fail
                       | Some z \<Rightarrow>
                           (case rng of
                              None \<Rightarrow> Ret (t, w)
                            | Some (low, high) \<Rightarrow>
                                if low \<le> z \<and> z \<le> high then Ret (t, w)
                                else Warn (''user value '' @ num2str base z @ '' on the ''
                                       @ TYPE_TO_STR (sy_type (k_sym k s)) @ '' symbol '' @ name_and_loc k (Sym s)
                                       @ '' ignored due to being outside the active range (['' @ num2str base low
                                       @ '', '' @ num2str base high @ '']) -- falling back on defaults'')
                                     (num_default k s base rng w)))))"

definition string_str_value :: "kconf \<Rightarrow> nat \<Rightarrow> int \<Rightarrow> (string \<times> bool) kcomp" where
  "string_str_value k s vis =
     (let defaults =
            cbind (default_str k s) (\<lambda>d.
              Ret (case d of None \<Rightarrow> ([], vis \<noteq> 0) | Some t \<Rightarrow> (t, True)))
      in if vis = 0 then defaults
         else cbind (ask_user s) (\<lambda>u.
              case u of
                None \<Rightarrow> defaults
              | Some (UStr t) \<Rightarrow> Ret (t, vis \<noteq> 0)
              | Some (UTri _) \<Rightarrow> Fail))"

definition sym_str_value :: "kconf \<Rightarrow> nat \<Rightarrow> (string \<times> bool) kcomp" where
  "sym_str_value k s =
     (let y = k_sym k s; ty = sy_type y in
      if bool_tristate ty
      then Ask (QTri s) (\<lambda>a. case a of ATri v w \<Rightarrow> Ret (TRI_TO_STR v, w) | _ \<Rightarrow> Fail)
      else if ty = UNKNOWN then Ret (sy_name y, False)
      else cbind (ask_vis (Sym s)) (\<lambda>vis.
           cbind (if int_hex ty then num_str_value k s (TYPE_TO_BASE ty) vis
                  else string_str_value k s vis) (\<lambda>(val, w).
           Ret (val, w \<and> sy_env_var y = None \<and> k_defconfig_list k \<noteq> Some s))))"

subsection \<open>Selections and assignable values\<close>

definition selection_from_defaults :: "kconf \<Rightarrow> nat \<Rightarrow> nat option kcomp" where
  "selection_from_defaults k c =
     cbind (first_c (\<lambda>(sym, cond).
              cbind (expr_value k cond) (\<lambda>v.
                if v = 0 then Ret None
                else case sym of
                       EItem (Sym d) \<Rightarrow> cbind (ask_vis (Sym d)) (\<lambda>v. Ret (if v \<noteq> 0 then Some d else None))
                     | _ \<Rightarrow> Fail))
             (ch_defaults (k_chc k c))) (\<lambda>r.
     case r of
       Some s \<Rightarrow> Ret (Some s)
     | None \<Rightarrow> first_c (\<lambda>s. cbind (ask_vis (Sym s)) (\<lambda>v. Ret (if v \<noteq> 0 then Some s else None)))
                (ch_syms (k_chc k c)))"

definition choice_selection :: "kconf \<Rightarrow> nat \<Rightarrow> nat option kcomp" where
  "choice_selection k c =
     cbind (choice_tri_value k c) (\<lambda>mode.
     if mode \<noteq> 2 then Ret None
     else cbind (ask_csel c) (\<lambda>u.
          case u of
            None \<Rightarrow> selection_from_defaults k c
          | Some s \<Rightarrow> cbind (ask_vis (Sym s)) (\<lambda>v.
                       if v \<noteq> 0 then Ret (Some s) else selection_from_defaults k c)))"

definition sym_assignable :: "kconf \<Rightarrow> nat \<Rightarrow> int list kcomp" where
  "sym_assignable k s =
     (let y = k_sym k s;
          two = cbind (sym_type k s) (\<lambda>t.
                if t = BOOL then Ret True
                else cbind (expr_value k (sy_weak_rev_dep y)) (\<lambda>wv. Ret (wv = 2)))
      in if \<not> bool_tristate (sy_type y) then Ret []
         else cbind (ask_vis (Sym s)) (\<lambda>vis.
              if vis = 0 then Ret []
              else cbind (expr_value k (sy_rev_dep y)) (\<lambda>rv.
                   if vis = 2
                   then (if sy_choice y \<noteq> None then Ret [2]
                         else if rv = 0 then cbind two (\<lambda>b. Ret (if b then [0, 2] else [0, 1, 2]))
                         else if rv = 2 then Ret [2]
                         else cbind two (\<lambda>b. Ret (if b then [2] else [1, 2])))
                   else if rv = 0
                   then cbind (expr_value k (sy_weak_rev_dep y)) (\<lambda>wv. Ret (if wv \<noteq> 2 then [0, 1] else [0, 2]))
                   else if rv = 2 then Ret [2] else Ret [1])))"

definition choice_assignable :: "kconf \<Rightarrow> nat \<Rightarrow> int list kcomp" where
  "choice_assignable k c =
     cbind (ask_vis (Chc c)) (\<lambda>vis.
     if vis = 0 then Ret []
     else if vis = 2
     then cbind (choice_type k c) (\<lambda>t.
          Ret (if \<not> ch_optional (k_chc k c) then (if t = BOOL then [2] else [1, 2])
               else (if t = BOOL then [0, 2] else [0, 1, 2])))
     else Ret (if ch_optional (k_chc k c) then [0, 1] else [1]))"

subsection \<open>Output\<close>

definition str_default :: "kconf \<Rightarrow> nat \<Rightarrow> string kcomp" where
  "str_default k s =
     (let y = k_sym k s; ty = sy_type y in
      if bool_tristate ty
      then (if sy_choice y \<noteq> None then Ret (TRI_TO_STR 0)
            else cbind (default_val k s) (\<lambda>d.
                 cbind (expr_value k (sy_rev_dep y)) (\<lambda>rv.
                 cbind (expr_value k (sy_weak_rev_dep y)) (\<lambda>wv.
                 let val = max (max rv wv) (case d of None \<Rightarrow> 0 | Some v \<Rightarrow> v)
                 in if val = 1
                    then cbind (sym_type k s) (\<lambda>t. Ret (TRI_TO_STR (if t = BOOL then 2 else val)))
                    else Ret (TRI_TO_STR val)))))
      else if ty = UNKNOWN then Ret []
      else cbind (default_str k s) (\<lambda>d. Ret (case d of None \<Rightarrow> [] | Some t \<Rightarrow> t)))"

text \<open>The line of a symbol in a \<^verbatim>\<open>.config\<close> file, given its value.\<close>

definition config_line :: "kconf \<Rightarrow> nat \<Rightarrow> string \<Rightarrow> string" where
  "config_line k s val =
     (let y = k_sym k s; full = k_prefix k @ sy_name y in
      if bool_tristate (sy_type y)
      then (if val \<noteq> ''n'' then full @ ''='' @ val @ [newline]
            else ''# '' @ full @ '' is not set'' @ [newline])
      else if int_hex (sy_type y) then full @ ''='' @ val @ [newline]
      else full @ ''='' @ [dquote] @ escape val @ [dquote, newline])"

definition config_string :: "kconf \<Rightarrow> nat \<Rightarrow> string kcomp" where
  "config_string k s =
     Ask (QStr s) (\<lambda>a. case a of AStr val w \<Rightarrow> Ret (if w then config_line k s val else []) | _ \<Rightarrow> Fail)"

subsection \<open>The queries of a configuration\<close>

definition kbody :: "kconf \<Rightarrow> query \<Rightarrow> ans kcomp" where
  "kbody k q =
     (case q of
        QTri s \<Rightarrow> cbind (sym_tri_value k s) (\<lambda>(v, w). Ret (ATri v w))
      | QStr s \<Rightarrow> cbind (sym_str_value k s) (\<lambda>(v, w). Ret (AStr v w))
      | QVis (Sym s) \<Rightarrow> cbind (sym_visibility k s) (\<lambda>v. Ret (AVis v))
      | QVis (Chc c) \<Rightarrow> cbind (choice_visibility k c) (\<lambda>v. Ret (AVis v))
      | QSel c \<Rightarrow> cbind (choice_selection k c) (\<lambda>v. Ret (ASel v))
      | QAsg (Sym s) \<Rightarrow> cbind (sym_assignable k s) (\<lambda>v. Ret (AAsg v))
      | QAsg (Chc c) \<Rightarrow> cbind (choice_assignable k c) (\<lambda>v. Ret (AAsg v))
      | QUnsat s \<Rightarrow> cbind (warn_select_unsatisfied k s) (\<lambda>v. Ret (AStr v False))
      | _ \<Rightarrow> Fail)"

text \<open>The queries the source keeps in \<open>_cached_*\<close> fields.\<close>

fun kstored :: "query \<Rightarrow> bool" where
  "kstored (QTri _) = True"
| "kstored (QStr _) = True"
| "kstored (QVis _) = True"
| "kstored (QSel _) = True"
| "kstored (QAsg _) = True"
| "kstored _ = False"

fun ktext :: "ans \<Rightarrow> string" where
  "ktext (AStr t _) = t"
| "ktext _ = []"

end
