(* ===== verification/Kc_State.thy ===== *)
theory Kc_State
  imports Kc_Eval
begin

text \<open>
  The part of the \<open>Kconfig\<close>, \<open>Symbol\<close> and \<open>Choice\<close> objects that changes after parsing: the
  user values, the caches, the warnings. Reading a property runs its computation with the
  caches (\<open>kask\<close>); \<open>set_value\<close> and \<open>unset_value\<close> change a user value and invalidate what may
  depend on it.
\<close>

subsection \<open>State\<close>

record kstate =
  ks_user :: "nat \<Rightarrow> uval option"
  ks_cuser :: "nat \<Rightarrow> int option"
  ks_csel :: "nat \<Rightarrow> nat option"
  ks_was_set :: "nat \<Rightarrow> bool"
  ks_cwas_set :: "nat \<Rightarrow> bool"
  ks_cache :: "query \<Rightarrow> ans option"
  ks_missing :: "(string \<times> string) list"
  ks_warn :: bool
  ks_warn_no_prompt :: bool
  ks_warn_undef :: bool
  ks_warn_override :: bool
  ks_warn_redun :: bool
  ks_warnings :: "string list"

definition kstate_init :: kstate where
  "kstate_init =
     \<lparr> ks_user = (\<lambda>_. None), ks_cuser = (\<lambda>_. None), ks_csel = (\<lambda>_. None),
       ks_was_set = (\<lambda>_. False), ks_cwas_set = (\<lambda>_. False), ks_cache = (\<lambda>_. None),
       ks_missing = [], ks_warn = True, ks_warn_no_prompt = True, ks_warn_undef = False,
       ks_warn_override = True, ks_warn_redun = True, ks_warnings = [] \<rparr>"

text \<open>The answers to the input queries.\<close>

definition kinp :: "kstate \<Rightarrow> query \<Rightarrow> ans option" where
  "kinp st q =
     (case q of
        QUser s \<Rightarrow> Some (AUser (ks_user st s))
      | QCUser c \<Rightarrow> Some (ACUser (ks_cuser st c))
      | QCSel c \<Rightarrow> Some (ASel (ks_csel st c))
      | _ \<Rightarrow> None)"

definition warn_msg :: "string \<Rightarrow> kstate \<Rightarrow> kstate" where
  "warn_msg msg st =
     (if ks_warn st then st\<lparr>ks_warnings := ks_warnings st @ [''warning: '' @ msg]\<rparr> else st)"

definition warn_at :: "string \<Rightarrow> string \<Rightarrow> nat \<Rightarrow> kstate \<Rightarrow> kstate" where
  "warn_at msg filename linenr st =
     (if ks_warn st
      then st\<lparr>ks_warnings := ks_warnings st @
                [filename @ '':'' @ py_str (int linenr) @ '': warning: '' @ msg]\<rparr>
      else st)"

text \<open>Reading properties: \<open>n\<close> bounds the recursion depth.\<close>

definition kask :: "nat \<Rightarrow> kconf \<Rightarrow> 'r kcomp \<Rightarrow> kstate \<Rightarrow> ('r \<times> kstate) option" where
  "kask n k c st =
     (case minterp ktext (meval (kbody k) kstored ktext (kinp st) n) c (ks_cache st, []) of
        None \<Rightarrow> None
      | Some (r, m, ws) \<Rightarrow> Some (r, fold warn_msg ws (st\<lparr>ks_cache := m\<rparr>)))"

subsection \<open>Invalidation\<close>

fun owner :: "query \<Rightarrow> item" where
  "owner (QTri s) = Sym s"
| "owner (QStr s) = Sym s"
| "owner (QVis i) = i"
| "owner (QSel c) = Chc c"
| "owner (QAsg i) = i"
| "owner (QUnsat s) = Sym s"
| "owner (QUser s) = Sym s"
| "owner (QCUser c) = Chc c"
| "owner (QCSel c) = Chc c"

definition drop_items :: "item set \<Rightarrow> (query \<Rightarrow> ans option) \<Rightarrow> query \<Rightarrow> ans option" where
  "drop_items I m = (\<lambda>q. if owner q \<in> I then None else m q)"

definition invalidate :: "item \<Rightarrow> kstate \<Rightarrow> kstate" where
  "invalidate i st = st\<lparr>ks_cache := drop_items {i} (ks_cache st)\<rparr>"

definition kitems :: "kconf \<Rightarrow> item list" where
  "kitems k = map Sym (k_defined k) @ map Chc (k_choices k)"

definition invalidate_all :: "kconf \<Rightarrow> kstate \<Rightarrow> kstate" where
  "invalidate_all k st = st\<lparr>ks_cache := drop_items (set (kitems k)) (ks_cache st)\<rparr>"

text \<open>
  The recursion of \<open>_rec_invalidate\<close> with its stack of pending items written out. Only items
  with a cached visibility are entered, and entering one removes it, so the recursion ends.
  (\<open>_build_dep\<close> puts only defined symbols and choices into \<open>_dependents\<close>; the test makes the
  measure finite.)
\<close>

function invalidate_deps :: "kconf \<Rightarrow> item list \<Rightarrow> kstate \<Rightarrow> kstate" where
  "invalidate_deps k [] st = st"
| "invalidate_deps k (i # is) st =
     (if ks_cache st (QVis i) = None \<or> i \<notin> set (kitems k) then invalidate_deps k is st
      else if i = Sym sym_MODULES then invalidate_deps k is (invalidate_all k st)
      else invalidate_deps k (k_deps k i @ is) (invalidate i st))"
  by pat_completeness auto

definition cached_items :: "kconf \<Rightarrow> kstate \<Rightarrow> item list" where
  "cached_items k st = filter (\<lambda>i. ks_cache st (QVis i) \<noteq> None) (kitems k)"

lemma length_cached_items:
  assumes "\<And>i. ks_cache st' (QVis i) \<noteq> None \<Longrightarrow> ks_cache st (QVis i) \<noteq> None"
    and "i \<in> set (kitems k)" "ks_cache st (QVis i) \<noteq> None" "ks_cache st' (QVis i) = None"
  shows "length (cached_items k st') < length (cached_items k st)"
proof -
  have sub: "cached_items k st' = filter (\<lambda>i. ks_cache st' (QVis i) \<noteq> None) (cached_items k st)"
    unfolding cached_items_def filter_filter using assms(1) by (metis (mono_tags, lifting) filter_cong)
  have "i \<in> set (cached_items k st)" using assms by (simp add: cached_items_def)
  then show ?thesis unfolding sub using assms(4) by (intro length_filter_less) auto
qed

termination invalidate_deps
proof (relation "measures [\<lambda>(k, is, st). length (cached_items k st), \<lambda>(k, is, st). length is]")
  fix k :: kconf and i :: item and "is" and st :: kstate
  assume "\<not> (ks_cache st (QVis i) = None \<or> i \<notin> set (kitems k))"
  then show "((k, is, invalidate_all k st), k, i # is, st)
      \<in> measures [\<lambda>(k, is, st). length (cached_items k st), \<lambda>(k, is, st). length is]"
    and "((k, k_deps k i @ is, invalidate i st), k, i # is, st)
      \<in> measures [\<lambda>(k, is, st). length (cached_items k st), \<lambda>(k, is, st). length is]"
    by (auto simp: invalidate_def invalidate_all_def drop_items_def split: if_splits
        intro!: length_cached_items [where i = i])
qed auto

declare invalidate_deps.simps(2) [simp del]

definition rec_invalidate :: "kconf \<Rightarrow> item \<Rightarrow> kstate \<Rightarrow> kstate" where
  "rec_invalidate k i st =
     (if i = Sym sym_MODULES then invalidate_all k st
      else invalidate_deps k (k_deps k i) (invalidate i st))"

definition has_prompt :: "kconf \<Rightarrow> nat \<Rightarrow> bool" where
  "has_prompt k s \<longleftrightarrow> (\<exists>n \<in> set (sy_nodes (k_sym k s)). nd_prompt (k_node k n) \<noteq> None)"

definition rec_invalidate_if_has_prompt :: "kconf \<Rightarrow> nat \<Rightarrow> kstate \<Rightarrow> kstate" where
  "rec_invalidate_if_has_prompt k s st =
     (if has_prompt k s then rec_invalidate k (Sym s) st
      else if ks_warn_no_prompt st
      then warn_msg (name_and_loc k (Sym s) @ '' has no prompt, meaning user values have no effect on it'') st
      else st)"

subsection \<open>Setting values\<close>

definition norm_value :: "ktype \<Rightarrow> uval \<Rightarrow> uval" where
  "norm_value ty v =
     (case v of
        UStr t \<Rightarrow> if bool_tristate ty then (case STR_TO_TRI t of None \<Rightarrow> v | Some z \<Rightarrow> UTri z) else v
      | UTri _ \<Rightarrow> v)"

definition valid_value :: "ktype \<Rightarrow> uval \<Rightarrow> bool" where
  "valid_value ty v =
     (case v of
        UTri z \<Rightarrow> ty = BOOL \<and> (z = 2 \<or> z = 0) \<or> ty = TRISTATE \<and> (z = 0 \<or> z = 1 \<or> z = 2)
      | UStr t \<Rightarrow>
          ty = STRING \<or> ty = KINT \<and> is_base_n t 10
          \<or> ty = HEX \<and> (case int_base 16 t of None \<Rightarrow> False | Some z \<Rightarrow> z \<ge> 0))"

definition value_str :: "uval \<Rightarrow> string" where
  "value_str v =
     (case v of
        UTri z \<Rightarrow> if z = 0 \<or> z = 1 \<or> z = 2 then TRI_TO_STR z else [CHR 0x27] @ py_str z @ [CHR 0x27]
      | UStr t \<Rightarrow> [CHR 0x27] @ t @ [CHR 0x27])"

definition invalid_msg :: "kconf \<Rightarrow> item \<Rightarrow> ktype \<Rightarrow> uval \<Rightarrow> string" where
  "invalid_msg k i ty v =
     ''the value '' @ value_str v @ '' is invalid for '' @ name_and_loc k i @ '', which has type ''
     @ TYPE_TO_STR ty @ '' -- assignment ignored''"

definition set_value :: "kconf \<Rightarrow> nat \<Rightarrow> uval \<Rightarrow> kstate \<Rightarrow> bool \<times> kstate" where
  "set_value k s val st =
     (let y = k_sym k s; ty = sy_type y; v = norm_value ty val in
      if ks_user st s = Some v \<and> sy_choice y = None
      then (True, st\<lparr>ks_was_set := (ks_was_set st)(s := True)\<rparr>)
      else if \<not> valid_value ty v then (False, warn_msg (invalid_msg k (Sym s) ty v) st)
      else let st = st\<lparr>ks_user := (ks_user st)(s \<mapsto> v), ks_was_set := (ks_was_set st)(s := True)\<rparr>
           in (True,
               case sy_choice y of
                 Some c \<Rightarrow>
                   if v = UTri 2
                   then rec_invalidate k (Chc c)
                          (st\<lparr>ks_csel := (ks_csel st)(c \<mapsto> s), ks_cwas_set := (ks_cwas_set st)(c := True)\<rparr>)
                   else rec_invalidate_if_has_prompt k s st
               | None \<Rightarrow> rec_invalidate_if_has_prompt k s st))"

definition unset_value :: "kconf \<Rightarrow> nat \<Rightarrow> kstate \<Rightarrow> kstate" where
  "unset_value k s st =
     (if ks_user st s = None then st
      else rec_invalidate_if_has_prompt k s (st\<lparr>ks_user := (ks_user st)(s := None)\<rparr>))"

definition choice_set_value :: "kconf \<Rightarrow> nat \<Rightarrow> uval \<Rightarrow> kstate \<Rightarrow> bool \<times> kstate" where
  "choice_set_value k c val st =
     (let ty = ch_type (k_chc k c); v = norm_value BOOL val in
      if map_option UTri (ks_cuser st c) = Some v
      then (True, st\<lparr>ks_cwas_set := (ks_cwas_set st)(c := True)\<rparr>)
      else case v of
             UTri z \<Rightarrow>
               if valid_value ty v
               then (True, rec_invalidate k (Chc c)
                       (st\<lparr>ks_cuser := (ks_cuser st)(c \<mapsto> z), ks_cwas_set := (ks_cwas_set st)(c := True)\<rparr>))
               else (False, warn_msg (invalid_msg k (Chc c) ty v) st)
           | UStr _ \<Rightarrow> (False, warn_msg (invalid_msg k (Chc c) ty v) st))"

definition choice_unset_value :: "kconf \<Rightarrow> nat \<Rightarrow> kstate \<Rightarrow> kstate" where
  "choice_unset_value k c st =
     (if ks_cuser st c = None \<and> ks_csel st c = None then st
      else rec_invalidate k (Chc c)
             (st\<lparr>ks_cuser := (ks_cuser st)(c := None), ks_csel := (ks_csel st)(c := None)\<rparr>))"

definition unset_values :: "kconf \<Rightarrow> kstate \<Rightarrow> kstate" where
  "unset_values k st =
     (let st = st\<lparr>ks_warn_no_prompt := False\<rparr>;
          st = fold (unset_value k) (k_defined k) st;
          st = fold (choice_unset_value k) (k_choices k) st
      in st\<lparr>ks_warn_no_prompt := True\<rparr>)"

end
