(* ===== verification/Kc_Deps.thy ===== *)
theory Kc_Deps
  imports Kc_State
begin

text \<open>
  Dependencies between items: \<open>_build_dep\<close> fills the \<open>_dependents\<close> sets from the
  expressions of every symbol and choice, \<open>_check_dep_loop_sym\<close> looks for loops in them, and
  \<open>_add_choice_deps\<close> adds the choices to the dependents of their symbols. A Python set is a
  list without duplicates; no result depends on its order.
\<close>

subsection \<open>\<open>_build_dep\<close>\<close>

type_synonym depmap = "item \<Rightarrow> item list"

definition item_const :: "kconf \<Rightarrow> item \<Rightarrow> bool" where
  "item_const k i = (case i of Sym s \<Rightarrow> sy_const (k_sym k s) | Chc _ \<Rightarrow> False)"

definition add_dep :: "kconf \<Rightarrow> item \<Rightarrow> item \<Rightarrow> depmap \<Rightarrow> depmap" where
  "add_dep k sc i d = (if item_const k i then d else d(i := List.insert sc (d i)))"

fun depend_on :: "kconf \<Rightarrow> item \<Rightarrow> expr \<Rightarrow> depmap \<Rightarrow> depmap" where
  "depend_on k sc (EItem i) d = add_dep k sc i d"
| "depend_on k sc (EAnd a b) d = depend_on k sc b (depend_on k sc a d)"
| "depend_on k sc (EOr a b) d = depend_on k sc b (depend_on k sc a d)"
| "depend_on k sc (ENot a) d = depend_on k sc a d"
| "depend_on k sc (ERel r a b) d = add_dep k sc (Sym b) (add_dep k sc (Sym a) d)"

definition prompt_conds :: "kconf \<Rightarrow> nat list \<Rightarrow> expr list" where
  "prompt_conds k nodes = List.map_filter (\<lambda>n. map_option snd (nd_prompt (k_node k n))) nodes"

text \<open>The expressions \<open>_build_dep\<close> visits for a symbol and for a choice, in its order.\<close>

definition sym_exprs :: "kconf \<Rightarrow> nat \<Rightarrow> expr list" where
  "sym_exprs k s =
     (let y = k_sym k s in
      prompt_conds k (sy_nodes y)
      @ concat (map (\<lambda>(v, c). [v, c]) (sy_defaults y))
      @ [sy_rev_dep y, sy_weak_rev_dep y]
      @ concat (map (\<lambda>(l, h, c). [EItem (Sym l), EItem (Sym h), c]) (sy_ranges y))
      @ [sy_direct_dep y])"

definition choice_exprs :: "kconf \<Rightarrow> nat \<Rightarrow> expr list" where
  "choice_exprs k c =
     prompt_conds k (ch_nodes (k_chc k c)) @ map snd (ch_defaults (k_chc k c))"

definition build_dep :: "kconf \<Rightarrow> depmap" where
  "build_dep k =
     fold (\<lambda>c. fold (depend_on k (Chc c)) (choice_exprs k c)) (k_choices k)
       (fold (\<lambda>s. fold (depend_on k (Sym s)) (sym_exprs k s)) (k_defined k) (\<lambda>_. []))"

definition add_choice_deps :: "kconf \<Rightarrow> depmap \<Rightarrow> depmap" where
  "add_choice_deps k =
     fold (\<lambda>c. fold (\<lambda>s d. d(Sym s := List.insert (Chc c) (d (Sym s)))) (ch_syms (k_chc k c))) (k_choices k)"

lemma depend_on_iff:
  "x \<in> set (depend_on k sc e d i) \<longleftrightarrow>
     x \<in> set (d i) \<or> x = sc \<and> i \<in> set (expr_items e) \<and> \<not> item_const k i"
  by (induction k sc e d rule: depend_on.induct) (auto simp: add_dep_def)

lemma fold_depend_on_iff:
  "x \<in> set (fold (depend_on k sc) es d i) \<longleftrightarrow>
     x \<in> set (d i) \<or> x = sc \<and> i \<in> (\<Union>e \<in> set es. set (expr_items e)) \<and> \<not> item_const k i"
  by (induction es arbitrary: d) (auto simp: depend_on_iff)

lemma fold_items_iff:
  "x \<in> set (fold (\<lambda>s. fold (depend_on k (f s)) (g s)) ss d i) \<longleftrightarrow>
     x \<in> set (d i) \<or>
     (\<exists>s \<in> set ss. x = f s \<and> i \<in> (\<Union>e \<in> set (g s). set (expr_items e)) \<and> \<not> item_const k i)"
  by (induction ss arbitrary: d) (auto simp: fold_depend_on_iff)

text \<open>The items an item's expressions mention.\<close>

definition mentions :: "kconf \<Rightarrow> item \<Rightarrow> item set" where
  "mentions k x =
     (case x of
        Sym s \<Rightarrow> (\<Union>e \<in> set (sym_exprs k s). set (expr_items e))
      | Chc c \<Rightarrow> (\<Union>e \<in> set (choice_exprs k c). set (expr_items e)))"

lemma build_dep_iff:
  "x \<in> set (build_dep k i) \<longleftrightarrow> x \<in> set (kitems k) \<and> i \<in> mentions k x \<and> \<not> item_const k i"
  by (cases x) (auto simp: build_dep_def fold_items_iff kitems_def mentions_def)

lemma fold_choice_syms_iff:
  "x \<in> set (fold (\<lambda>s d. d(Sym s := List.insert (Chc c) (d (Sym s)))) ss d i) \<longleftrightarrow>
     x \<in> set (d i) \<or> x = Chc c \<and> (\<exists>s \<in> set ss. i = Sym s)"
  by (induction ss arbitrary: d) auto

lemma add_choice_deps_iff:
  "x \<in> set (add_choice_deps k d i) \<longleftrightarrow>
     x \<in> set (d i) \<or> (\<exists>c \<in> set (k_choices k). \<exists>s \<in> set (ch_syms (k_chc k c)). x = Chc c \<and> i = Sym s)"
proof -
  have "x \<in> set (fold (\<lambda>c. fold (\<lambda>s d. d(Sym s := List.insert (Chc c) (d (Sym s)))) (ch_syms (k_chc k c))) cs d i)
    \<longleftrightarrow> x \<in> set (d i) \<or> (\<exists>c \<in> set cs. \<exists>s \<in> set (ch_syms (k_chc k c)). x = Chc c \<and> i = Sym s)" for cs
    by (induction cs arbitrary: d) (auto simp: fold_choice_syms_iff)
  then show ?thesis by (simp add: add_choice_deps_def)
qed

subsection \<open>Dependency loops\<close>

text \<open>
  \<open>_check_dep_loop_sym(sym, ignore_choice)\<close> and \<open>_check_dep_loop_choice(choice, skip)\<close>. Their
  result is \<open>None\<close>, the part of a loop found so far, or the exception of \<open>_found_dep_loop\<close>,
  which carries the whole loop. \<open>vis\<close> holds the \<open>_visited\<close> fields; the first argument bounds
  the recursion depth.
\<close>

datatype loop_call = LSym nat bool | LChc nat "nat option"

datatype loop_res = NoLoop | LoopPart "item list" | DepLoop "item list"

definition found_dep_loop :: "item list \<Rightarrow> item \<Rightarrow> loop_res" where
  "found_dep_loop loop cur = (if cur \<noteq> hd loop then LoopPart (loop @ [cur]) else DepLoop loop)"

fun first_loop ::
  "(loop_call \<Rightarrow> (item \<Rightarrow> nat) \<Rightarrow> (loop_res \<times> (item \<Rightarrow> nat)) option) \<Rightarrow> item \<Rightarrow> loop_call list \<Rightarrow>
     (item \<Rightarrow> nat) \<Rightarrow> (loop_res \<times> (item \<Rightarrow> nat)) option" where
  "first_loop f cur [] vis = Some (NoLoop, vis)"
| "first_loop f cur (x # xs) vis =
     (case f x vis of
        None \<Rightarrow> None
      | Some (NoLoop, vis) \<Rightarrow> first_loop f cur xs vis
      | Some (LoopPart loop, vis) \<Rightarrow> Some (found_dep_loop loop cur, vis)
      | Some (DepLoop loop, vis) \<Rightarrow> Some (DepLoop loop, vis))"

definition call_item :: "loop_call \<Rightarrow> item" where
  "call_item x = (case x of LSym s _ \<Rightarrow> Sym s | LChc c _ \<Rightarrow> Chc c)"

definition dep_call :: "item \<Rightarrow> loop_call" where
  "dep_call d = (case d of Sym t \<Rightarrow> LSym t False | Chc c \<Rightarrow> LChc c None)"

definition loop_calls :: "kconf \<Rightarrow> depmap \<Rightarrow> loop_call \<Rightarrow> loop_call list" where
  "loop_calls k deps x =
     (case x of
        LSym s ignore_choice \<Rightarrow>
          map dep_call (deps (Sym s))
          @ (case sy_choice (k_sym k s) of
               None \<Rightarrow> []
             | Some c \<Rightarrow> if ignore_choice then [] else [LChc c (Some s)])
      | LChc c skip \<Rightarrow>
          map (\<lambda>s. LSym s True) (filter (\<lambda>s. Some s \<noteq> skip) (ch_syms (k_chc k c))))"

primrec check_dep_loop ::
  "nat \<Rightarrow> kconf \<Rightarrow> depmap \<Rightarrow> loop_call \<Rightarrow> (item \<Rightarrow> nat) \<Rightarrow> (loop_res \<times> (item \<Rightarrow> nat)) option" where
  "check_dep_loop 0 k deps x vis = None"
| "check_dep_loop (Suc n) k deps x vis =
     (let i = call_item x in
      if vis i = 0
      then (case first_loop (check_dep_loop n k deps) i (loop_calls k deps x) (vis(i := 1)) of
              None \<Rightarrow> None
            | Some (NoLoop, vis) \<Rightarrow> Some (NoLoop, vis(i := 2))
            | Some r \<Rightarrow> Some r)
      else if vis i = 2 then Some (NoLoop, vis)
      else Some (LoopPart [i], vis))"

text \<open>The check of \<open>Kconfig._init\<close>: every defined symbol in turn.\<close>

definition check_dep_loops :: "kconf \<Rightarrow> (loop_res \<times> (item \<Rightarrow> nat)) option" where
  "check_dep_loops k =
     fold (\<lambda>s r. case r of
                   Some (NoLoop, vis) \<Rightarrow>
                     check_dep_loop (Suc (length (kitems k))) k (build_dep k) (LSym s False) vis
                 | _ \<Rightarrow> r)
       (k_defined k) (Some (NoLoop, \<lambda>_. 0))"

end
