(* ===== verification/Kc_Cache.thy ===== *)
theory Kc_Cache
  imports Kc_Deps
begin

text \<open>
  The caches are transparent: in a well-formed configuration, reading a property with the
  caches gives the value computed from scratch, and every change of a user value invalidates
  enough of them.
\<close>

subsection \<open>Which items a computation looks at\<close>

text \<open>
  \<open>looks_at G A U c\<close>: \<open>c\<close> asks only for properties of the items in \<open>A\<close> and for the user values of
  the symbols in \<open>U\<close>.
\<close>

fun asked_of :: "item set \<Rightarrow> nat set \<Rightarrow> query \<Rightarrow> bool" where
  "asked_of A U (QUser s) = (s \<in> U)"
| "asked_of A U (QUnsat s) = False"
| "asked_of A U q = (owner q \<in> A)"

abbreviation looks_at :: "(query \<Rightarrow> ans \<Rightarrow> bool) \<Rightarrow> item set \<Rightarrow> nat set \<Rightarrow> 'r kcomp \<Rightarrow> bool" where
  "looks_at G A U \<equiv> asks G (asked_of A U)"

named_theorems looks "introduction rules of looks_at"

lemma looks_ask [looks]:
  "Sym s \<in> A \<Longrightarrow> looks_at G A U (ask_tri s)"
  "Sym s \<in> A \<Longrightarrow> looks_at G A U (ask_str s)"
  "i \<in> A \<Longrightarrow> looks_at G A U (ask_vis i)"
  "Chc c \<in> A \<Longrightarrow> looks_at G A U (ask_sel c)"
  "s \<in> U \<Longrightarrow> looks_at G A U (ask_user s)"
  "Chc c \<in> A \<Longrightarrow> looks_at G A U (ask_cuser c)"
  "Chc c \<in> A \<Longrightarrow> looks_at G A U (ask_csel c)"
  by (simp_all add: ask_tri_def ask_str_def ask_vis_def ask_sel_def ask_user_def ask_cuser_def ask_csel_def
      split: ans.splits)

lemma looks_Ret [looks]: "looks_at G A U (Ret r)" "looks_at G A U Fail"
  by simp_all

lemma looks_if [looks]:
  "looks_at G A U c \<Longrightarrow> looks_at G A U d \<Longrightarrow> looks_at G A U (if b then c else d)"
  by simp

lemma looks_choice_type [looks]: "Sym sym_MODULES \<in> A \<Longrightarrow> looks_at G A U (choice_type k c)"
  by (auto simp: choice_type_def intro!: asks_cbind looks)

lemma looks_choice_tri_value [looks]:
  "Chc c \<in> A \<Longrightarrow> Sym sym_MODULES \<in> A \<Longrightarrow> looks_at G A U (choice_tri_value k c)"
  by (auto simp: choice_tri_value_def Let_def intro!: asks_cbind looks)

lemma looks_sym_type [looks]:
  "(\<And>c. sy_choice (k_sym k s) = Some c \<Longrightarrow> Chc c \<in> A) \<Longrightarrow> Sym sym_MODULES \<in> A \<Longrightarrow>
     looks_at G A U (sym_type k s)"
  by (auto simp: sym_type_def Let_def intro!: asks_cbind looks split: option.splits)

lemma looks_item_tri_value [looks]:
  "i \<in> A \<Longrightarrow> Sym sym_MODULES \<in> A \<Longrightarrow> looks_at G A U (item_tri_value k i)"
  by (auto simp: item_tri_value_def intro: looks split: item.splits)

lemma looks_sym_to_num [looks]: "Sym s \<in> A \<Longrightarrow> looks_at G A U (sym_to_num k s)"
  by (auto simp: sym_to_num_def intro!: asks_cbind looks)

lemma looks_str_relation [looks]: "Sym s \<in> A \<Longrightarrow> Sym t \<in> A \<Longrightarrow> looks_at G A U (str_relation r s t)"
  by (auto simp: str_relation_def intro!: asks_cbind looks)

lemma looks_expr_value [looks]:
  "set (expr_items e) \<subseteq> A \<Longrightarrow> Sym sym_MODULES \<in> A \<Longrightarrow> looks_at G A U (expr_value k e)"
  by (induction e) (auto intro!: asks_cbind looks split: option.splits)

lemma looks_prompt_vis [looks]:
  assumes "\<And>e. e \<in> set (prompt_conds k nodes) \<Longrightarrow> set (expr_items e) \<subseteq> A" "Sym sym_MODULES \<in> A"
  shows "looks_at G A U (prompt_vis k nodes)"
proof -
  have "set (expr_items e) \<subseteq> A" if "n \<in> set nodes" "nd_prompt (k_node k n) = Some (p, e)" for n p e
    using that assms(1) [of e] by (force simp: prompt_conds_def List.map_filter_def)
  then show ?thesis
    unfolding prompt_vis_def using assms(2)
    by (intro asks_fold_c) (auto intro!: asks_cbind looks_expr_value split: option.splits)
qed

lemma looks_promote [looks]: "looks_at G A U ty \<Longrightarrow> looks_at G A U (promote_vis ty vis)"
  by (auto simp: promote_vis_def intro!: asks_cbind)

text \<open>The set of items a symbol's own computations may look at.\<close>

definition sees :: "kconf \<Rightarrow> nat \<Rightarrow> item set \<Rightarrow> bool" where
  "sees k s A \<longleftrightarrow>
     Sym s \<in> A \<and> Sym sym_MODULES \<in> A \<and> mentions k (Sym s) \<subseteq> A
     \<and> (\<forall>c. sy_choice (k_sym k s) = Some c \<longrightarrow> Chc c \<in> A)"

lemma sees_exprs:
  assumes "sees k s A" "e \<in> set (sym_exprs k s)"
  shows "set (expr_items e) \<subseteq> A"
  using assms by (auto simp: sees_def mentions_def)

lemma sees_defaults:
  assumes "sees k s A" "(v, c) \<in> set (sy_defaults (k_sym k s))"
  shows "set (expr_items v) \<subseteq> A" "set (expr_items c) \<subseteq> A"
proof -
  have "v \<in> set (sym_exprs k s)" "c \<in> set (sym_exprs k s)"
    using assms(2) by (force simp: sym_exprs_def Let_def)+
  then show "set (expr_items v) \<subseteq> A" "set (expr_items c) \<subseteq> A"
    using sees_exprs [OF assms(1)] by blast+
qed

lemma sees_ranges:
  assumes "sees k s A" "(l, h, c) \<in> set (sy_ranges (k_sym k s))"
  shows "Sym l \<in> A" "Sym h \<in> A" "set (expr_items c) \<subseteq> A"
proof -
  have "EItem (Sym l) \<in> set (sym_exprs k s)" "EItem (Sym h) \<in> set (sym_exprs k s)" "c \<in> set (sym_exprs k s)"
    using assms(2) by (force simp: sym_exprs_def Let_def)+
  then show "Sym l \<in> A" "Sym h \<in> A" "set (expr_items c) \<subseteq> A"
    using sees_exprs [OF assms(1)] by force+
qed

lemma sees_deps:
  assumes "sees k s A"
  shows "set (expr_items (sy_rev_dep (k_sym k s))) \<subseteq> A" "set (expr_items (sy_weak_rev_dep (k_sym k s))) \<subseteq> A"
    "set (expr_items (sy_direct_dep (k_sym k s))) \<subseteq> A" "Sym s \<in> A" "Sym sym_MODULES \<in> A"
    "e \<in> set (prompt_conds k (sy_nodes (k_sym k s))) \<Longrightarrow> set (expr_items e) \<subseteq> A"
    "sy_choice (k_sym k s) = Some c \<Longrightarrow> Chc c \<in> A"
proof -
  have "sy_rev_dep (k_sym k s) \<in> set (sym_exprs k s)" "sy_weak_rev_dep (k_sym k s) \<in> set (sym_exprs k s)"
    "sy_direct_dep (k_sym k s) \<in> set (sym_exprs k s)"
    "set (prompt_conds k (sy_nodes (k_sym k s))) \<subseteq> set (sym_exprs k s)"
    by (auto simp: sym_exprs_def Let_def)
  note in_exprs = this
  note sees_exprs [OF assms]
  with in_exprs show "set (expr_items (sy_rev_dep (k_sym k s))) \<subseteq> A"
    "set (expr_items (sy_weak_rev_dep (k_sym k s))) \<subseteq> A" "set (expr_items (sy_direct_dep (k_sym k s))) \<subseteq> A"
    "e \<in> set (prompt_conds k (sy_nodes (k_sym k s))) \<Longrightarrow> set (expr_items e) \<subseteq> A"
    by blast+
qed (use assms in \<open>auto simp: sees_def\<close>)

lemma looks_sym_visibility [looks]: "sees k s A \<Longrightarrow> looks_at G A U (sym_visibility k s)"
  unfolding sym_visibility_def Let_def
  by (intro asks_cbind looks_prompt_vis; (auto split: option.splits intro!: looks asks_cbind dest: sees_deps)?)

lemma looks_default_val [looks]: "sees k s A \<Longrightarrow> looks_at G A U (default_val k s)"
  unfolding default_val_def
  by (intro asks_first_c) (auto intro!: asks_cbind looks dest: sees_defaults sees_deps)

lemma looks_default_str [looks]:
  assumes "sees k s A"
  shows "looks_at G A U (default_str k s)"
proof -
  have item: "looks_at G A U
      (case v of
         EItem (Sym d) \<Rightarrow> cbind (ask_str d) (\<lambda>t. Ret (Some t))
       | EItem (Chc c) \<Rightarrow> cbind (choice_tri_value k c) (\<lambda>t. Ret (Some (TRI_TO_STR t)))
       | _ \<Rightarrow> Fail)" if "set (expr_items v) \<subseteq> A" for v
    using that sees_deps(5) [OF assms]
    by (cases v rule: expr.exhaust) (auto split: item.splits intro!: asks_cbind looks)
  show ?thesis
    unfolding default_str_def
    using sees_deps(5) [OF assms]
    by (intro asks_first_c) (auto intro!: asks_cbind looks item dest: sees_defaults [OF assms])
qed

lemma looks_active_range [looks]: "sees k s A \<Longrightarrow> looks_at G A U (active_range k s base)"
  unfolding active_range_def
  by (intro asks_first_c) (auto intro!: asks_cbind looks dest: sees_ranges sees_deps)


lemma looks_num_default [looks]: "sees k s A \<Longrightarrow> looks_at G A U (num_default k s base rng w)"
  unfolding num_default_def
  by (intro asks_cbind looks) (auto simp: Let_def split: option.splits prod.splits)

lemma looks_num_str_value [looks]: "sees k s A \<Longrightarrow> s \<in> U \<Longrightarrow> looks_at G A U (num_str_value k s base vis)"
  unfolding num_str_value_def Let_def
  by (auto intro!: asks_cbind looks simp: sees_deps split: option.splits uval.splits)

lemma looks_string_str_value [looks]: "sees k s A \<Longrightarrow> s \<in> U \<Longrightarrow> looks_at G A U (string_str_value k s vis)"
  unfolding string_str_value_def Let_def
  by (auto intro!: asks_cbind looks simp: sees_deps split: option.splits uval.splits)

lemma looks_sym_str_value [looks]:
  assumes "sees k s A" "s \<in> U"
  shows "looks_at G A U (sym_str_value k s)"
  using sees_deps(4) [OF assms(1)] assms unfolding sym_str_value_def Let_def
  by (auto intro!: asks_cbind looks split: ans.splits)

lemma looks_reverse_deps [looks]:
  assumes "sees k s A"
  shows "looks_at G A U (reverse_deps k s val w)"
  using sees_deps [OF assms] unfolding reverse_deps_def Let_def
  by (auto intro!: asks_cbind looks)

lemma looks_plain_tri_value [looks]:
  assumes "sees k s A" "s \<in> U"
  shows "looks_at G A U (plain_tri_value k s vis)"
  using sees_deps [OF assms(1)] assms unfolding plain_tri_value_def Let_def
  by (auto intro!: asks_cbind looks split: option.splits uval.splits)

lemma looks_sym_tri_value [looks]:
  assumes "sees k s A" "s \<in> U"
  shows "looks_at G A U (sym_tri_value k s)"
  using sees_deps [OF assms(1)] assms unfolding sym_tri_value_def Let_def choice_sym_tri_value_def
  by (auto intro!: asks_cbind looks split: option.splits uval.splits)

lemma looks_sym_assignable [looks]:
  assumes "sees k s A"
  shows "looks_at G A U (sym_assignable k s)"
  using sees_deps [OF assms] unfolding sym_assignable_def Let_def
  by (auto intro!: asks_cbind looks)

text \<open>The same for a choice.\<close>

definition csees :: "kconf \<Rightarrow> nat \<Rightarrow> item set \<Rightarrow> bool" where
  "csees k c A \<longleftrightarrow>
     Chc c \<in> A \<and> Sym sym_MODULES \<in> A \<and> mentions k (Chc c) \<subseteq> A \<and> Sym ` set (ch_syms (k_chc k c)) \<subseteq> A
     \<and> (\<forall>d cond. (EItem (Sym d), cond) \<in> set (ch_defaults (k_chc k c)) \<longrightarrow> Sym d \<in> A)"

lemma csees_exprs:
  assumes "csees k c A"
  shows "e \<in> set (prompt_conds k (ch_nodes (k_chc k c))) \<Longrightarrow> set (expr_items e) \<subseteq> A"
    "(d, e) \<in> set (ch_defaults (k_chc k c)) \<Longrightarrow> set (expr_items e) \<subseteq> A"
    "(EItem (Sym s'), e) \<in> set (ch_defaults (k_chc k c)) \<Longrightarrow> Sym s' \<in> A"
    "s \<in> set (ch_syms (k_chc k c)) \<Longrightarrow> Sym s \<in> A"
    "Chc c \<in> A" "Sym sym_MODULES \<in> A"
proof -
  have "\<forall>e \<in> set (choice_exprs k c). set (expr_items e) \<subseteq> A"
    using assms by (auto simp: csees_def mentions_def)
  then show "e \<in> set (prompt_conds k (ch_nodes (k_chc k c))) \<Longrightarrow> set (expr_items e) \<subseteq> A"
    "(d, e) \<in> set (ch_defaults (k_chc k c)) \<Longrightarrow> set (expr_items e) \<subseteq> A"
    by (force simp: choice_exprs_def)+
  show "(EItem (Sym s'), e) \<in> set (ch_defaults (k_chc k c)) \<Longrightarrow> Sym s' \<in> A"
    "s \<in> set (ch_syms (k_chc k c)) \<Longrightarrow> Sym s \<in> A" "Chc c \<in> A" "Sym sym_MODULES \<in> A"
    using assms unfolding csees_def by blast+
qed

lemma looks_choice_visibility [looks]: "csees k c A \<Longrightarrow> looks_at G A U (choice_visibility k c)"
  unfolding choice_visibility_def
  by (intro asks_cbind looks_prompt_vis looks_promote looks_choice_type) (auto dest: csees_exprs)

lemma looks_choice_assignable [looks]: "csees k c A \<Longrightarrow> looks_at G A U (choice_assignable k c)"
  unfolding choice_assignable_def by (auto intro!: asks_cbind looks dest: csees_exprs)

lemma looks_selection_from_defaults [looks]:
  assumes "csees k c A"
  shows "looks_at G A U (selection_from_defaults k c)"
proof -
  have item: "looks_at G A U
      (case d of
         EItem (Sym d) \<Rightarrow> cbind (ask_vis (Sym d)) (\<lambda>v. Ret (if v \<noteq> 0 then Some d else None))
       | _ \<Rightarrow> Fail)" if "(d, e) \<in> set (ch_defaults (k_chc k c))" for d e
    using csees_exprs(3) [OF assms] that by (auto intro!: asks_cbind looks split: expr.splits item.splits)
  show ?thesis
    unfolding selection_from_defaults_def
    using csees_exprs(6) [OF assms]
    by (auto intro!: asks_cbind asks_first_c looks item dest: csees_exprs(2,4) [OF assms] split: option.splits)
qed

text \<open>The user selection of a choice is one of its symbols.\<close>

definition sel_ok :: "kconf \<Rightarrow> query \<Rightarrow> ans \<Rightarrow> bool" where
  "sel_ok k q a \<longleftrightarrow> (\<forall>c s. q = QCSel c \<longrightarrow> a = ASel (Some s) \<longrightarrow> s \<in> set (ch_syms (k_chc k c)))"

lemma looks_choice_selection [looks]:
  assumes "csees k c A" and sel: "\<And>s. G (QCSel c) (ASel (Some s)) \<Longrightarrow> Sym s \<in> A"
  shows "looks_at G A U (choice_selection k c)"
proof -
  have csel: "looks_at G A U
      (cbind (ask_csel c) (\<lambda>u. case u of
          None \<Rightarrow> selection_from_defaults k c
        | Some s \<Rightarrow> cbind (ask_vis (Sym s)) (\<lambda>v.
              if v \<noteq> 0 then Ret (Some s) else selection_from_defaults k c)))"
    using csees_exprs(5) [OF assms(1)] assms
    by (auto simp: ask_csel_def intro!: asks_cbind looks split: ans.splits option.splits)
  show ?thesis
    unfolding choice_selection_def
    by (rule asks_cbind; rule looks_if csees_exprs(5,6) [OF assms(1)] looks_choice_tri_value)
      (rule csel looks_Ret csees_exprs(5,6) [OF assms(1)])+
qed

lemma looks_warn_select [looks]: "looks_at G UNIV UNIV (warn_select_unsatisfied k s)"
  unfolding warn_select_unsatisfied_def Let_def
  by (auto intro!: asks_cbind asks_fold_c looks split: expr.splits item.splits)

text \<open>No computation asks for anything but stored properties and inputs.\<close>

lemma looks_everywhere: "looks_at (\<lambda>_ _. True) UNIV UNIV (kbody k q)"
proof -
  have "sees k s UNIV" "csees k c UNIV" for s c by (auto simp: sees_def csees_def)
  then show ?thesis
    by (auto simp: kbody_def intro!: asks_cbind looks split: query.splits item.splits)
qed

lemma asked_of_stored: "asked_of A U q \<Longrightarrow> kstored q \<or> kinp st q \<noteq> None"
  by (cases q) (auto simp: kinp_def)

interpretation kc: memo kbody kstored ktext kinp
  by unfold_locales (rule asks_mono [OF looks_everywhere asked_of_stored])

subsection \<open>Well-formed configurations\<close>

text \<open>
  What \<open>Kconfig._init\<close> leaves behind: the dependents are those of \<open>_build_dep\<close> and
  \<open>_add_choice_deps\<close>, symbols without a definition have no type and no nodes, a choice symbol
  is listed in its choice and its properties mention the choice (the choice is propagated into
  the conditions of its prompt), and the defaults of a choice are among its symbols. The last
  two are what \<open>_check_choice_sanity\<close> warns about when they fail.
\<close>

definition wf_conf :: "kconf \<Rightarrow> bool" where
  "wf_conf k \<longleftrightarrow>
     k_deps k = add_choice_deps k (build_dep k)
     \<and> (\<forall>s \<in> set (k_defined k). \<not> sy_const (k_sym k s) \<and> sym_y < s)
     \<and> (\<forall>s. s \<notin> set (k_defined k) \<longrightarrow>
          sy_nodes (k_sym k s) = [] \<and> sy_choice (k_sym k s) = None \<and> sy_direct_dep (k_sym k s) = e_n
          \<and> (s \<le> sym_y \<and> sy_type (k_sym k s) = TRISTATE \<or> sy_type (k_sym k s) = UNKNOWN))
     \<and> (\<forall>s \<le> sym_y. sy_rev_dep (k_sym k s) = e_n \<and> sy_weak_rev_dep (k_sym k s) = e_n)
     \<and> (\<forall>c. c \<notin> set (k_choices k) \<longrightarrow> k_chc k c = Choice None)
     \<and> (\<forall>s c. sy_choice (k_sym k s) = Some c \<longrightarrow>
          c \<in> set (k_choices k) \<and> s \<in> set (ch_syms (k_chc k c)) \<and> Chc c \<in> mentions k (Sym s))
     \<and> (\<forall>c d cond. (d, cond) \<in> set (ch_defaults (k_chc k c)) \<longrightarrow>
          (\<exists>s \<in> set (ch_syms (k_chc k c)). d = EItem (Sym s)))
     \<and> (\<forall>c s. s \<in> set (ch_syms (k_chc k c)) \<longrightarrow> s \<in> set (k_defined k))"

lemma wf_confD:
  assumes "wf_conf k"
  shows "k_deps k = add_choice_deps k (build_dep k)"
    "s \<in> set (k_defined k) \<Longrightarrow> \<not> sy_const (k_sym k s)" "s \<in> set (k_defined k) \<Longrightarrow> sym_y < s"
    "s \<notin> set (k_defined k) \<Longrightarrow> sy_nodes (k_sym k s) = []"
    "s \<notin> set (k_defined k) \<Longrightarrow> sy_choice (k_sym k s) = None"
    "s \<notin> set (k_defined k) \<Longrightarrow> s \<le> sym_y \<and> sy_type (k_sym k s) = TRISTATE \<or> sy_type (k_sym k s) = UNKNOWN"
    "c \<notin> set (k_choices k) \<Longrightarrow> k_chc k c = Choice None"
    "sy_choice (k_sym k s) = Some c \<Longrightarrow> c \<in> set (k_choices k)"
    "sy_choice (k_sym k s) = Some c \<Longrightarrow> s \<in> set (ch_syms (k_chc k c))"
    "sy_choice (k_sym k s) = Some c \<Longrightarrow> Chc c \<in> mentions k (Sym s)"
    "(d, cond) \<in> set (ch_defaults (k_chc k c)) \<Longrightarrow> \<exists>s \<in> set (ch_syms (k_chc k c)). d = EItem (Sym s)"
    "s \<le> sym_y \<Longrightarrow> sy_rev_dep (k_sym k s) = e_n" "s \<le> sym_y \<Longrightarrow> sy_weak_rev_dep (k_sym k s) = e_n"
    "s \<notin> set (k_defined k) \<Longrightarrow> sy_direct_dep (k_sym k s) = e_n"
    "s \<in> set (ch_syms (k_chc k c)) \<Longrightarrow> s \<in> set (k_defined k)"
  using assms unfolding wf_conf_def by blast+

lemma kitems_iff:
  "Sym s \<in> set (kitems k) \<longleftrightarrow> s \<in> set (k_defined k)"
  "Chc c \<in> set (kitems k) \<longleftrightarrow> c \<in> set (k_choices k)"
  by (auto simp: kitems_def)

text \<open>The items whose change reaches the item \<open>x\<close> or cannot happen.\<close>

definition reach :: "kconf \<Rightarrow> item \<Rightarrow> item set" where
  "reach k x = {i. i = x \<or> x \<in> set (k_deps k i) \<or> i = Sym sym_MODULES \<or> i \<notin> set (kitems k)}"

lemma mentions_reach:
  assumes "wf_conf k" "x \<in> set (kitems k)" "i \<in> mentions k x"
  shows "i \<in> reach k x"
proof (cases "i \<in> set (kitems k)")
  case True
  with wf_confD(2) [OF assms(1)] have "\<not> item_const k i"
    by (auto simp: kitems_iff item_const_def split: item.splits)
  with assms have "x \<in> set (build_dep k i)" by (simp add: build_dep_iff)
  with wf_confD(1) [OF assms(1)] show ?thesis by (simp add: reach_def add_choice_deps_iff)
qed (simp add: reach_def)

lemma reach_self [simp]: "x \<in> reach k x" "Sym sym_MODULES \<in> reach k x"
  by (simp_all add: reach_def)

lemma sees_reach:
  assumes "wf_conf k" "s \<in> set (k_defined k)"
  shows "sees k s (reach k (Sym s))"
  using mentions_reach [OF assms(1), of "Sym s"] wf_confD(10) [OF assms(1), of s] assms(2)
  by (auto simp: sees_def kitems_iff)

lemma csees_reach:
  assumes "wf_conf k"
  shows "csees k c (reach k (Chc c))"
proof (cases "c \<in> set (k_choices k)")
  case True
  then have "Sym ` set (ch_syms (k_chc k c)) \<subseteq> reach k (Chc c)"
    using wf_confD(1) [OF assms] by (auto simp: reach_def add_choice_deps_iff)
  moreover have "Sym d \<in> Sym ` set (ch_syms (k_chc k c))"
    if "(EItem (Sym d), cond) \<in> set (ch_defaults (k_chc k c))" for d cond
    using wf_confD(11) [OF assms that] by auto
  ultimately show ?thesis
    using mentions_reach [OF assms, of "Chc c"] True unfolding csees_def
    by (auto simp: kitems_iff simp del: image_iff)
next
  case False
  with wf_confD(7) [OF assms] show ?thesis
    by (simp add: csees_def Choice_def mentions_def choice_exprs_def prompt_conds_def List.map_filter_def)
qed

lemma sel_ok_reach: "wf_conf k \<Longrightarrow> sel_ok k (QCSel c) (ASel (Some s)) \<Longrightarrow> Sym s \<in> reach k (Chc c)"
  using csees_exprs(4) [OF csees_reach] by (simp add: sel_ok_def)

text \<open>Every cached property looks only at items in reach, and at the symbol's own user value.\<close>

definition user_of :: "query \<Rightarrow> nat set" where
  "user_of q = {s. owner q = Sym s}"

lemma reach_const: "wf_conf k \<Longrightarrow> s \<le> sym_y \<Longrightarrow> Sym s \<in> reach k x"
  using wf_confD(3) [of k s] by (auto simp: reach_def kitems_iff)

lemma vis_undefined:
  assumes "wf_conf k" "s \<notin> set (k_defined k)"
  shows "sym_visibility k s = Ret 0"
  using wf_confD(4,5) [OF assms]
  by (simp add: sym_visibility_def prompt_vis_def promote_vis_def Let_def)

lemma looks_undefined:
  assumes wf: "wf_conf k" and s: "s \<notin> set (k_defined k)"
  shows "looks_at G (reach k (Sym s)) U (sym_tri_value k s)"
    "looks_at G (reach k (Sym s)) U (sym_str_value k s)"
    "looks_at G (reach k (Sym s)) U (sym_assignable k s)"
proof -
  consider "s \<le> sym_y" "sy_type (k_sym k s) = TRISTATE" | "sy_type (k_sym k s) = UNKNOWN"
    using wf_confD(6) [OF wf s] by blast
  note cases = this
  note none = wf_confD(5) [OF wf s]
  have n: "Sym sym_n \<in> reach k (Sym s)" using reach_const [OF wf, of sym_n] by (simp add: sym_consts)
  show "looks_at G (reach k (Sym s)) U (sym_tri_value k s)"
    by (cases rule: cases) (simp_all add: sym_tri_value_def bool_tristate_def)
  show "looks_at G (reach k (Sym s)) U (sym_str_value k s)"
    by (cases rule: cases) (auto simp: sym_str_value_def bool_tristate_def Let_def split: ans.splits)
  show "looks_at G (reach k (Sym s)) U (sym_assignable k s)"
  proof (cases rule: cases)
    case 1
    with wf_confD(12,13) [OF wf] n none show ?thesis
      by (auto simp: sym_assignable_def Let_def intro!: asks_cbind looks)
  qed (simp add: sym_assignable_def bool_tristate_def)
qed

lemma looks_body:
  assumes wf: "wf_conf k" and q: "kstored q"
  shows "looks_at (sel_ok k) (reach k (owner q)) (user_of q) (kbody k q)"
proof (cases q)
  case (QTri s)
  then show ?thesis
    using looks_undefined(1) [OF wf] looks_sym_tri_value [OF sees_reach [OF wf]]
    by (cases "s \<in> set (k_defined k)") (auto simp: kbody_def user_of_def intro!: asks_cbind)
next
  case (QStr s)
  then show ?thesis
    using looks_undefined(2) [OF wf] looks_sym_str_value [OF sees_reach [OF wf]]
    by (cases "s \<in> set (k_defined k)") (auto simp: kbody_def user_of_def intro!: asks_cbind)
next
  case (QVis i)
  show ?thesis
  proof (cases i)
    case (Sym s)
    with QVis show ?thesis
      using vis_undefined [OF wf] looks_sym_visibility [OF sees_reach [OF wf]]
      by (cases "s \<in> set (k_defined k)") (auto simp: kbody_def intro!: asks_cbind)
  next
    case (Chc c)
    with QVis show ?thesis
      using looks_choice_visibility [OF csees_reach [OF wf]] by (auto simp: kbody_def intro!: asks_cbind)
  qed
next
  case (QSel c)
  then show ?thesis
    using looks_choice_selection [OF csees_reach [OF wf], of "sel_ok k" c] sel_ok_reach [OF wf]
    by (auto simp: kbody_def intro!: asks_cbind)
next
  case (QAsg i)
  show ?thesis
  proof (cases i)
    case (Sym s)
    with QAsg show ?thesis
      using looks_undefined(3) [OF wf] looks_sym_assignable [OF sees_reach [OF wf]]
      by (cases "s \<in> set (k_defined k)") (auto simp: kbody_def intro!: asks_cbind)
  next
    case (Chc c)
    with QAsg show ?thesis
      using looks_choice_assignable [OF csees_reach [OF wf]] by (auto simp: kbody_def intro!: asks_cbind)
  qed
qed (use q in auto)

subsection \<open>What invalidation removes\<close>

text \<open>
  A set of invalidated items is closed under the dependents that have a cached visibility, and
  holds everything once it holds \<open>MODULES\<close>.
\<close>

definition inv_closed :: "kconf \<Rightarrow> (query \<Rightarrow> ans option) \<Rightarrow> item set \<Rightarrow> item set \<Rightarrow> bool" where
  "inv_closed k m J I \<longleftrightarrow>
     (\<forall>i \<in> J. (i = Sym sym_MODULES \<longrightarrow> set (kitems k) \<subseteq> I)
            \<and> (\<forall>d \<in> set (k_deps k i). d \<in> set (kitems k) \<longrightarrow> d \<in> I \<or> m (QVis d) = None))"

lemma drop_items_twice: "drop_items J (drop_items I m) = drop_items (I \<union> J) m"
  by (auto simp: drop_items_def)

lemma same_cache: "ks_cache st = c \<Longrightarrow> st\<lparr>ks_cache := c\<rparr> = st"
  by (cases st) auto

lemma inv_closedD:
  assumes "inv_closed k m J I"
  shows "i \<in> J \<Longrightarrow> d \<in> set (k_deps k i) \<Longrightarrow> d \<in> set (kitems k) \<Longrightarrow> m (QVis d) \<noteq> None \<Longrightarrow> d \<in> I"
    "Sym sym_MODULES \<in> J \<Longrightarrow> d \<in> set (kitems k) \<Longrightarrow> d \<in> I"
  using assms unfolding inv_closed_def by (metis, metis subsetD)

lemma inv_closed_insert:
  assumes "inv_closed k m J' I" "J \<subseteq> insert i J'" "i \<noteq> Sym sym_MODULES"
    "\<forall>d \<in> set (k_deps k i). d \<in> set (kitems k) \<longrightarrow> d \<in> I \<or> m (QVis d) = None"
  shows "inv_closed k m J I"
  unfolding inv_closed_def
proof
  fix j assume "j \<in> J"
  with assms(2) consider "j = i" | "j \<in> J'" by blast
  then show "(j = Sym sym_MODULES \<longrightarrow> set (kitems k) \<subseteq> I) \<and>
      (\<forall>d \<in> set (k_deps k j). d \<in> set (kitems k) \<longrightarrow> d \<in> I \<or> m (QVis d) = None)"
    by cases (use assms in \<open>auto simp: inv_closed_def\<close>)
qed

lemma invalidate_deps_spec:
  assumes "ks_cache st = drop_items I0 m"
  shows "\<exists>I. invalidate_deps k is st = st\<lparr>ks_cache := drop_items I m\<rparr> \<and> I0 \<subseteq> I
    \<and> I \<subseteq> I0 \<union> set (kitems k)
    \<and> (\<forall>i \<in> set is. i \<in> set (kitems k) \<longrightarrow> i \<in> I \<or> m (QVis i) = None)
    \<and> inv_closed k m (I - I0) I"
  using assms
proof (induction k "is" st arbitrary: I0 rule: invalidate_deps.induct)
  case (1 k st)
  have "st\<lparr>ks_cache := drop_items I0 m\<rparr> = st" by (rule same_cache [OF 1])
  then show ?case by (intro exI [of _ I0]) (simp add: inv_closed_def)
next
  case (2 k i "is" st)
  let ?U = "set (kitems k)"
  show ?case
  proof (cases "ks_cache st (QVis i) = None \<or> i \<notin> ?U")
    case True
    then obtain I where I: "invalidate_deps k is st = st\<lparr>ks_cache := drop_items I m\<rparr>" "I0 \<subseteq> I"
      "I \<subseteq> I0 \<union> ?U" "\<forall>i \<in> set is. i \<in> ?U \<longrightarrow> i \<in> I \<or> m (QVis i) = None" "inv_closed k m (I - I0) I"
      using "2.IH"(1) [OF True "2.prems"] by blast
    moreover have "i \<in> ?U \<longrightarrow> i \<in> I \<or> m (QVis i) = None"
      using True "2.prems" I(2) by (auto simp: drop_items_def split: if_splits)
    ultimately show ?thesis using True by (intro exI [of _ I]) (simp add: invalidate_deps.simps(2))
  next
    case cached: False
    show ?thesis
    proof (cases "i = Sym sym_MODULES")
      case True
      have "ks_cache (invalidate_all k st) = drop_items (I0 \<union> ?U) m"
        using "2.prems" by (simp add: invalidate_all_def drop_items_twice)
      then obtain I where I: "invalidate_deps k is (invalidate_all k st) = (invalidate_all k st)\<lparr>ks_cache := drop_items I m\<rparr>"
        "I0 \<union> ?U \<subseteq> I" "I \<subseteq> I0 \<union> ?U"
        using "2.IH"(2) [OF cached True, of "I0 \<union> ?U"] by auto
      then have "inv_closed k m (I - I0) I" by (auto simp: inv_closed_def)
      with I cached True show ?thesis by (intro exI [of _ I]) (auto simp: invalidate_all_def invalidate_deps.simps(2))
    next
      case False
      have "ks_cache (invalidate i st) = drop_items (insert i I0) m"
        using "2.prems" by (simp add: invalidate_def drop_items_twice)
      then obtain I where I: "invalidate_deps k (k_deps k i @ is) (invalidate i st)
            = (invalidate i st)\<lparr>ks_cache := drop_items I m\<rparr>" "insert i I0 \<subseteq> I"
        "I \<subseteq> insert i I0 \<union> ?U" "\<forall>j \<in> set (k_deps k i @ is). j \<in> ?U \<longrightarrow> j \<in> I \<or> m (QVis j) = None"
        "inv_closed k m (I - insert i I0) I"
        using "2.IH"(3) [OF cached False] by blast
      have "inv_closed k m (I - I0) I"
        using inv_closed_insert [OF I(5) _ False, of "I - I0"] I(4) by auto
      with I cached False show ?thesis by (intro exI [of _ I]) (auto simp: invalidate_def invalidate_deps.simps(2))
    qed
  qed
qed

lemma rec_invalidate_spec:
  assumes "i \<in> set (kitems k)"
  shows "\<exists>I. rec_invalidate k i st = st\<lparr>ks_cache := drop_items I (ks_cache st)\<rparr> \<and> i \<in> I
    \<and> I \<subseteq> set (kitems k)
    \<and> inv_closed k (ks_cache st) I I"
proof (cases "i = Sym sym_MODULES")
  case True
  with assms show ?thesis
    by (intro exI [of _ "set (kitems k)"]) (auto simp: rec_invalidate_def invalidate_all_def inv_closed_def)
next
  case False
  have "ks_cache (invalidate i st) = drop_items {i} (ks_cache st)" by (simp add: invalidate_def)
  from invalidate_deps_spec [OF this, of k "k_deps k i"] obtain I where
    I: "invalidate_deps k (k_deps k i) (invalidate i st) = (invalidate i st)\<lparr>ks_cache := drop_items I (ks_cache st)\<rparr>"
      "{i} \<subseteq> I" "I \<subseteq> {i} \<union> set (kitems k)" "\<forall>d \<in> set (k_deps k i). d \<in> set (kitems k) \<longrightarrow> d \<in> I \<or> ks_cache st (QVis d) = None"
      "inv_closed k (ks_cache st) (I - {i}) I"
    by blast
  have "inv_closed k (ks_cache st) I I"
    using inv_closed_insert [OF I(5) _ False, of I] I(4) by auto
  with I False assms show ?thesis
    by (intro exI [of _ I]) (auto simp add: rec_invalidate_def invalidate_def)
qed

subsection \<open>Cached properties and their visibility\<close>

lemma interp_cbindD: "interp g (cbind c f) = Some r \<Longrightarrow> \<exists>x. interp g c = Some x"
  by (auto simp: interp_cbind bind_eq_Some_conv)

lemma interp_ask_vis: "interp g (ask_vis i) = Some x \<Longrightarrow> g (QVis i) = Some (AVis x)"
  by (auto simp: ask_vis_def split: option.splits ans.splits)

lemma known_stored: "kstored q \<Longrightarrow> known (kinp st) m q = m q"
  by (cases q) (auto simp: known_def kinp_def)

lemma closedD: "closed body inp m \<Longrightarrow> m q = Some a \<Longrightarrow> interp (known inp m) (body q) = Some a"
  by (simp add: closed_def)

lemma tri_vis_cached:
  assumes "closed (kbody k) (kinp st) m" "m (QTri s) \<noteq> None" "sym_y < s" "bool_tristate (sy_type (k_sym k s))"
  shows "m (QVis (Sym s)) \<noteq> None"
proof -
  from assms obtain a where "interp (known (kinp st) m) (kbody k (QTri s)) = Some a"
    by (auto simp: closed_def)
  then obtain b where "interp (known (kinp st) m) (sym_tri_value k s) = Some b"
    by (auto simp: kbody_def dest: interp_cbindD)
  with assms(3,4) show ?thesis
    by (auto simp: sym_tri_value_def Let_def known_stored dest!: interp_cbindD interp_ask_vis)
qed

text \<open>
  An item with a cached property that was computed from something has its visibility cached:
  \<open>_cached_vis\<close> tells whether an item has cached values.
\<close>

lemma vis_cached:
  assumes wf: "wf_conf k" and cl: "closed (kbody k) (kinp st) m" and q: "m q \<noteq> None" "kstored q"
    and "owner q \<in> set (kitems k)" and p: "path (known (kinp st) m) (kbody k q) \<noteq> {}"
  shows "m (QVis (owner q)) \<noteq> None"
proof -
  from cl q obtain a where a: "interp (known (kinp st) m) (kbody k q) = Some a"
    by (auto simp: closed_def)
  show ?thesis
  proof (cases q)
    case (QTri s)
    with assms(5) have s: "sym_y < s" using wf_confD(3) [OF wf] by (simp add: kitems_iff)
    show ?thesis
    proof (cases "bool_tristate (sy_type (k_sym k s))")
      case True
      with tri_vis_cached [OF cl _ s] q QTri show ?thesis by simp
    next
      case False
      with p QTri s show ?thesis by (auto simp: kbody_def sym_tri_value_def Let_def split: if_splits)
    qed
  next
    case (QStr s)
    with assms(5) have s: "sym_y < s" using wf_confD(3) [OF wf] by (simp add: kitems_iff)
    from a QStr obtain b where b: "interp (known (kinp st) m) (sym_str_value k s) = Some b"
      by (auto simp: kbody_def dest: interp_cbindD)
    show ?thesis
    proof (cases "bool_tristate (sy_type (k_sym k s))")
      case True
      with b have "m (QTri s) \<noteq> None"
        by (auto simp: sym_str_value_def Let_def known_stored split: option.splits)
      with tri_vis_cached [OF cl _ s True] QStr show ?thesis by simp
    next
      case False
      with p QStr b show ?thesis
        by (auto simp: kbody_def sym_str_value_def Let_def known_stored split: if_splits
            dest!: interp_cbindD interp_ask_vis)
    qed
  next
    case (QSel c)
    with a show ?thesis
      by (auto simp: kbody_def choice_selection_def choice_tri_value_def Let_def interp_cbind
          bind_eq_Some_conv known_stored dest!: interp_ask_vis)
  next
    case (QAsg i)
    with a p show ?thesis
      by (cases i) (auto simp: kbody_def sym_assignable_def choice_assignable_def Let_def interp_cbind
          bind_eq_Some_conv known_stored split: if_splits dest!: interp_ask_vis)
  qed (use q in auto)
qed

lemma choice_undefined:
  assumes "wf_conf k" "c \<notin> set (k_choices k)"
  shows "choice_visibility k c = Ret 0"
  using wf_confD(7) [OF assms]
  by (simp add: choice_visibility_def prompt_vis_def promote_vis_def Choice_def)

text \<open>The cached properties of undefined items use no other item.\<close>

lemma path_undefined:
  assumes wf: "wf_conf k" and cl: "closed (kbody k) (kinp st) m" and q: "m q \<noteq> None" "kstored q"
    and und: "owner q \<notin> set (kitems k)" and p: "q' \<in> path (known (kinp st) m) (kbody k q)"
  shows "owner q' = owner q"
proof -
  have vis0: "m (QVis i) = Some (AVis 0)" if "m (QVis i) \<noteq> None" "i \<notin> set (kitems k)" for i
  proof -
    from that obtain a where "m (QVis i) = Some a" by blast
    with closedD [OF cl this] that vis_undefined [OF wf] choice_undefined [OF wf] show ?thesis
      by (cases i) (auto simp: kbody_def kitems_iff)
  qed
  from cl q obtain a where a: "interp (known (kinp st) m) (kbody k q) = Some a"
    by (auto simp: closed_def)
  show ?thesis
  proof (cases q)
    case (QTri s)
    then have "\<exists>x. sym_tri_value k s = Ret x"
      using und wf_confD(6) [OF wf, of s] by (auto simp: sym_tri_value_def kitems_iff bool_tristate_def Let_def)
    with p QTri show ?thesis by (auto simp: kbody_def)
  next
    case (QStr s)
    then have "(\<exists>x. sym_str_value k s = Ret x) \<or> bool_tristate (sy_type (k_sym k s))"
      using und wf_confD(6) [OF wf, of s] by (auto simp: sym_str_value_def kitems_iff bool_tristate_def Let_def)
    with p QStr show ?thesis
      by (auto simp: kbody_def sym_str_value_def path_cbind Let_def split: option.splits ans.splits)
  next
    case (QVis i)
    with p und show ?thesis
      using vis_undefined [OF wf] choice_undefined [OF wf] by (cases i) (auto simp: kbody_def kitems_iff)
  next
    case (QSel c)
    from a QSel have "m (QVis (Chc c)) \<noteq> None"
      by (auto simp: kbody_def choice_selection_def choice_tri_value_def Let_def interp_cbind
          bind_eq_Some_conv known_stored dest!: interp_ask_vis)
    with vis0 [of "Chc c"] und QSel have v: "m (QVis (Chc c)) = Some (AVis 0)" by simp
    with p QSel show ?thesis
      by (auto simp: kbody_def choice_selection_def choice_tri_value_def ask_vis_def ask_cuser_def Let_def
          path_cbind known_stored known_def kinp_def interp_cbind split: option.splits ans.splits if_splits)
  next
    case (QAsg i)
    show ?thesis
    proof (cases i)
      case (Sym s)
      show ?thesis
      proof (cases "bool_tristate (sy_type (k_sym k s))")
        case True
        with a QAsg Sym have "m (QVis (Sym s)) \<noteq> None"
          by (auto simp: kbody_def sym_assignable_def Let_def interp_cbind
              bind_eq_Some_conv known_stored dest!: interp_ask_vis)
        with vis0 [of "Sym s"] und QAsg Sym have v: "m (QVis (Sym s)) = Some (AVis 0)" by simp
        with p QAsg Sym show ?thesis
          by (auto simp: kbody_def sym_assignable_def ask_vis_def Let_def path_cbind known_stored
              split: option.splits if_splits)
      next
        case False
        with p QAsg Sym show ?thesis
          by (auto simp: kbody_def sym_assignable_def Let_def)
      qed
    next
      case (Chc c)
      from a QAsg Chc have "m (QVis (Chc c)) \<noteq> None"
        by (auto simp: kbody_def choice_assignable_def Let_def interp_cbind
            bind_eq_Some_conv known_stored dest!: interp_ask_vis)
      with vis0 [of "Chc c"] und QAsg Chc have v: "m (QVis (Chc c)) = Some (AVis 0)" by simp
      with p QAsg Chc show ?thesis
        by (auto simp: kbody_def choice_assignable_def ask_vis_def Let_def path_cbind known_stored
            split: option.splits if_splits)
    qed
  qed (use q in auto)
qed

subsection \<open>Changing user values keeps the caches sound\<close>

definition kst_ok :: "kconf \<Rightarrow> kstate \<Rightarrow> bool" where
  "kst_ok k st \<longleftrightarrow>
     cache_ok (kbody k) (kinp st) (ks_cache st)
     \<and> only_stored kstored (ks_cache st)
     \<and> (\<forall>c s. ks_csel st c = Some s \<longrightarrow> s \<in> set (ch_syms (k_chc k c)))"

lemma known_sel_ok:
  assumes "kst_ok k st" "known (kinp st) (ks_cache st) q = Some a"
  shows "sel_ok k q a"
  using assms by (cases q) (auto simp: kst_ok_def sel_ok_def known_def kinp_def)

lemma path_reach:
  assumes wf: "wf_conf k" and ok: "kst_ok k st" and q: "kstored q"
    and p: "q' \<in> path (known (kinp st) (ks_cache st)) (kbody k q)"
  shows "asked_of (reach k (owner q)) (user_of q) q'"
  by (rule path_asks [OF looks_body [OF wf q] known_sel_ok [OF ok] p])

text \<open>A computation that used an invalidated item is invalidated.\<close>

lemma used_invalidated:
  assumes wf: "wf_conf k" and ok: "kst_ok k st" and I: "inv_closed k (ks_cache st) I I" "I \<subseteq> set (kitems k)"
    and q: "ks_cache st q \<noteq> None" and p: "q' \<in> path (known (kinp st) (ks_cache st)) (kbody k q)"
    and i: "owner q' \<in> I" "owner q' \<in> reach k (owner q)"
  shows "owner q \<in> I"
proof -
  have st: "kstored q" "closed (kbody k) (kinp st) (ks_cache st)"
    using ok q by (auto simp: kst_ok_def only_stored_def cache_ok_def)
  have und: "owner q \<in> set (kitems k)"
  proof (rule ccontr)
    assume "owner q \<notin> set (kitems k)"
    with path_undefined [OF wf st(2) q st(1) this p] i(1) I(2) show False by auto
  qed
  then have vis: "ks_cache st (QVis (owner q)) \<noteq> None"
    using vis_cached [OF wf st(2) q st(1)] p by auto
  from i(2) I(2) i(1) consider "owner q' = owner q" | "owner q \<in> set (k_deps k (owner q'))"
    | "owner q' = Sym sym_MODULES"
    by (auto simp: reach_def)
  then show ?thesis
  proof cases
    case 2
    with inv_closedD(1) [OF I(1) i(1) _ und vis] show ?thesis by simp
  next
    case 3
    with inv_closedD(2) [OF I(1), of "owner q"] i(1) und show ?thesis by simp
  qed (use i in auto)
qed

lemma change_ok:
  assumes wf: "wf_conf k" and ok: "kst_ok k st"
    and cache: "ks_cache st' = drop_items I (ks_cache st)"
    and I: "inv_closed k (ks_cache st) I I" "I \<subseteq> set (kitems k)"
    and user: "\<And>s q. ks_user st' s \<noteq> ks_user st s \<Longrightarrow> Sym s \<notin> I \<Longrightarrow> ks_cache st q \<noteq> None \<Longrightarrow>
        owner q = Sym s \<Longrightarrow> QUser s \<notin> path (known (kinp st) (ks_cache st)) (kbody k q)"
    and cuser: "\<And>c. ks_cuser st' c \<noteq> ks_cuser st c \<or> ks_csel st' c \<noteq> ks_csel st c \<Longrightarrow> Chc c \<in> I"
    and csel: "\<And>c s. ks_csel st' c = Some s \<Longrightarrow> s \<in> set (ch_syms (k_chc k c))"
  shows "kst_ok k st'"
proof -
  let ?m = "ks_cache st" and ?m' = "ks_cache st'"
  have c: "cache_ok (kbody k) (kinp st) ?m" "only_stored kstored ?m" using ok by (auto simp: kst_ok_def)
  have "cache_ok (kbody k) (kinp st') ?m'"
  proof (rule invalidate_ok [OF c(1)])
    show "?m' \<subseteq>\<^sub>m ?m" unfolding cache by (auto simp: drop_items_def map_le_def)
    show "kinp st' q = None \<longleftrightarrow> kinp st q = None" for q by (cases q) (auto simp: kinp_def)
    fix q q'
    assume "?m' q \<noteq> None" and p: "q' \<in> path (known (kinp st) ?m) (kbody k q)"
    then have q: "?m q \<noteq> None" and notI: "owner q \<notin> I"
      unfolding cache by (auto simp: drop_items_def split: if_splits)
    from q c(2) have st: "kstored q" by (auto simp: only_stored_def)
    note asked = path_reach [OF wf ok st p]
    have clean: "owner q' \<notin> I" if "owner q' \<in> reach k (owner q)"
      using used_invalidated [OF wf ok I q p _ that] notI by blast
    show "known (kinp st') ?m' q' = known (kinp st) ?m q'"
    proof (cases q')
      case (QUser s)
      with asked have "owner q = Sym s" by (simp add: user_of_def)
      with user [of s q] q p QUser notI have "ks_user st' s = ks_user st s" by auto
      with QUser show ?thesis by (simp add: known_def kinp_def)
    next
      case (QCUser c)
      with asked clean have "Chc c \<notin> I" by simp
      with cuser [of c] QCUser show ?thesis by (auto simp: known_def kinp_def)
    next
      case (QCSel c)
      with asked clean have "Chc c \<notin> I" by simp
      with cuser [of c] QCSel show ?thesis by (auto simp: known_def kinp_def)
    next
      case (QUnsat s)
      with asked show ?thesis by simp
    qed (use asked clean in \<open>auto simp: known_stored cache drop_items_def\<close>)
  qed
  moreover have "only_stored kstored ?m'"
    using c(2) unfolding cache by (auto simp: only_stored_def drop_items_def split: if_splits)
  ultimately show ?thesis using csel by (simp add: kst_ok_def)
qed

lemma rec_invalidate_ok:
  assumes wf: "wf_conf k" and ok: "kst_ok k st" and i: "i \<in> set (kitems k)"
    and same: "ks_cache st1 = ks_cache st"
    and user: "\<And>s. ks_user st1 s \<noteq> ks_user st s \<Longrightarrow> Sym s = i \<or> Sym s \<in> set (k_deps k i) \<and> s \<in> set (k_defined k)"
    and cuser: "\<And>c. ks_cuser st1 c \<noteq> ks_cuser st c \<or> ks_csel st1 c \<noteq> ks_csel st c \<Longrightarrow> Chc c = i"
    and csel: "\<And>c s. ks_csel st1 c = Some s \<Longrightarrow> s \<in> set (ch_syms (k_chc k c))"
  shows "kst_ok k (rec_invalidate k i st1)"
proof -
  from rec_invalidate_spec [OF i, of st1] obtain I where
    I: "rec_invalidate k i st1 = st1\<lparr>ks_cache := drop_items I (ks_cache st)\<rparr>" "i \<in> I" "I \<subseteq> set (kitems k)"
      "inv_closed k (ks_cache st) I I"
    unfolding same by blast
  show ?thesis
  proof (rule change_ok [OF wf ok _ I(4) I(3)])
    fix s q
    assume s: "ks_user (rec_invalidate k i st1) s \<noteq> ks_user st s" "Sym s \<notin> I"
      and q: "ks_cache st q \<noteq> None" "owner q = Sym s"
    then have dep: "Sym s \<in> set (k_deps k i)" and def: "s \<in> set (k_defined k)"
      using user [of s] I(1,2) by auto
    have "ks_cache st (QVis (Sym s)) = None"
      using inv_closedD(1) [OF I(4) I(2) dep] s(2) def by (metis kitems_iff(1))
    then have "path (known (kinp st) (ks_cache st)) (kbody k q) = {}"
      using vis_cached [OF wf, of st "ks_cache st" q] q ok def
      by (auto simp: kst_ok_def cache_ok_def only_stored_def kitems_iff)
    then show "QUser s \<notin> path (known (kinp st) (ks_cache st)) (kbody k q)" by simp
  qed (use I(1,2) cuser csel in auto)
qed

text \<open>A user value of a symbol without a prompt is never read.\<close>

lemma no_prompt_vis:
  assumes "\<not> has_prompt k s"
  shows "interp g (sym_visibility k s) = Some v \<Longrightarrow> v = 0"
proof -
  have "fold_c (\<lambda>vis n. case nd_prompt (k_node k n) of
                       None \<Rightarrow> Ret vis
                     | Some (_, cond) \<Rightarrow> cbind (expr_value k cond) (\<lambda>v. Ret (max vis v))) 0 ns = Ret 0"
    if "\<forall>n \<in> set ns. nd_prompt (k_node k n) = None" for ns
    using that by (induction ns) auto
  then have "prompt_vis k (sy_nodes (k_sym k s)) = Ret 0"
    using assms unfolding prompt_vis_def has_prompt_def by blast
  then show "interp g (sym_visibility k s) = Some v \<Longrightarrow> v = 0"
    by (auto simp: sym_visibility_def promote_vis_def interp_cbind bind_eq_Some_conv Let_def
        split: option.splits if_splits)
qed

lemma looks_invisible:
  assumes "sees k s A"
  shows "looks_at G A {} (plain_tri_value k s 0)" "looks_at G A {} (num_str_value k s base 0)"
    "looks_at G A {} (string_str_value k s 0)" "looks_at G A {} (choice_sym_tri_value s c 0)"
  using sees_deps [OF assms] assms
  unfolding plain_tri_value_def num_str_value_def string_str_value_def choice_sym_tri_value_def Let_def
  by (auto intro!: asks_cbind looks split: option.splits)

lemma asks_ask_vis:
  assumes "P (QVis i)" "\<And>v. G (QVis i) (AVis v) \<Longrightarrow> asks G P (f v)"
  shows "asks G P (cbind (ask_vis i) f)"
  using assms by (auto simp: ask_vis_def split: ans.splits)

lemma no_prompt_user:
  assumes wf: "wf_conf k" and ok: "kst_ok k st" and np: "\<not> has_prompt k s"
    and q: "ks_cache st q \<noteq> None" "owner q = Sym s"
  shows "QUser s \<notin> path (known (kinp st) (ks_cache st)) (kbody k q)"
proof
  let ?G = "\<lambda>q a. q = QVis (Sym s) \<longrightarrow> a = AVis 0"
  have st: "kstored q" "closed (kbody k) (kinp st) (ks_cache st)"
    using ok q by (auto simp: kst_ok_def only_stored_def cache_ok_def)
  have G: "?G q' a" if "known (kinp st) (ks_cache st) q' = Some a" for q' a
  proof
    assume "q' = QVis (Sym s)"
    with that have "ks_cache st (QVis (Sym s)) = Some a" by (simp add: known_stored)
    from closedD [OF st(2) this] show "a = AVis 0"
      using no_prompt_vis [OF np] by (auto simp: kbody_def interp_cbind bind_eq_Some_conv)
  qed
  have sees: "sees k s UNIV" by (simp add: sees_def)
  note inv = looks_invisible [OF sees]
  have tri: "looks_at ?G UNIV {} (sym_tri_value k s)"
    unfolding sym_tri_value_def Let_def
    by (auto intro!: asks_ask_vis inv split: option.splits)
  have "looks_at ?G UNIV {} (cbind (ask_vis (Sym s)) (\<lambda>vis.
      cbind (if b then num_str_value k s base vis else string_str_value k s vis) f))"
    if "\<And>x. looks_at ?G UNIV {} (f x)" for b base and f :: "string \<times> bool \<Rightarrow> (string \<times> bool) kcomp"
    by (rule asks_ask_vis) (auto intro!: asks_cbind inv that)
  then have str: "looks_at ?G UNIV {} (sym_str_value k s)"
    unfolding sym_str_value_def Let_def by (auto split: ans.splits)
  have all: "looks_at ?G UNIV {} (kbody k q)"
    using q(2) st(1)
    by (cases q) (auto simp: kbody_def intro!: asks_cbind tri str looks_sym_visibility looks_sym_assignable sees)
  assume "QUser s \<in> path (known (kinp st) (ks_cache st)) (kbody k q)"
  from path_asks [OF all G this] show False by simp
qed

lemma kst_ok_cong:
  assumes "ks_user st' = ks_user st" "ks_cuser st' = ks_cuser st" "ks_csel st' = ks_csel st"
    "ks_cache st' = ks_cache st"
  shows "kst_ok k st' = kst_ok k st"
proof -
  have "kinp st' = kinp st" by (rule ext) (simp add: kinp_def assms split: query.splits)
  with assms show ?thesis by (simp add: kst_ok_def)
qed

lemma kst_ok_warn [simp]: "kst_ok k (warn_msg w st) = kst_ok k st" "kst_ok k (warn_at w f n st) = kst_ok k st"
  by (rule kst_ok_cong; simp add: warn_msg_def warn_at_def)+

lemma if_has_prompt_ok:
  assumes wf: "wf_conf k" and ok: "kst_ok k st"
    and same: "ks_cache st1 = ks_cache st" "ks_cuser st1 = ks_cuser st" "ks_csel st1 = ks_csel st"
    and user: "\<And>t. t \<noteq> s \<Longrightarrow> ks_user st1 t = ks_user st t"
  shows "kst_ok k (rec_invalidate_if_has_prompt k s st1)"
proof (cases "has_prompt k s")
  case True
  then have "s \<in> set (k_defined k)" using wf_confD(4) [OF wf, of s] by (force simp: has_prompt_def)
  then have "kst_ok k (rec_invalidate k (Sym s) st1)"
    using ok same user
    by (intro rec_invalidate_ok [OF wf ok]) (auto simp: kitems_iff kst_ok_def)
  with True show ?thesis by (simp add: rec_invalidate_if_has_prompt_def)
next
  case False
  have "kst_ok k st1"
  proof (rule change_ok [OF wf ok, where I = "{}"])
    fix t q
    assume "ks_user st1 t \<noteq> ks_user st t" "ks_cache st q \<noteq> None" "owner q = Sym t"
    with user [of t] no_prompt_user [OF wf ok False, of q]
    show "QUser t \<notin> path (known (kinp st) (ks_cache st)) (kbody k q)" by auto
  qed (use same ok in \<open>auto simp: drop_items_def inv_closed_def kst_ok_def\<close>)
  with False show ?thesis by (simp add: rec_invalidate_if_has_prompt_def)
qed

lemma set_value_ok:
  assumes wf: "wf_conf k" and ok: "kst_ok k st"
  shows "kst_ok k (snd (set_value k s val st))"
proof -
  let ?v = "norm_value (sy_type (k_sym k s)) val"
  let ?st1 = "st\<lparr>ks_user := (ks_user st)(s \<mapsto> ?v), ks_was_set := (ks_was_set st)(s := True)\<rparr>"
  have was: "kst_ok k (st\<lparr>ks_was_set := f\<rparr>)" for f
    by (rule kst_ok_cong [THEN iffD2, OF _ _ _ _ ok]) simp_all
  have prompt: "kst_ok k (rec_invalidate_if_has_prompt k s ?st1)"
    by (rule if_has_prompt_ok [OF wf ok]) auto
  have sel: "kst_ok k (rec_invalidate k (Chc c)
      (?st1\<lparr>ks_csel := (ks_csel st)(c \<mapsto> s), ks_cwas_set := (ks_cwas_set st)(c := True)\<rparr>))"
    if c: "sy_choice (k_sym k s) = Some c" for c
  proof (rule rec_invalidate_ok [OF wf ok])
    have s: "s \<in> set (k_defined k)" using wf_confD(5) [OF wf, of s] c by force
    have "Chc c \<in> mentions k (Sym s)" by (rule wf_confD(10) [OF wf c])
    then have "Sym s \<in> set (k_deps k (Chc c))"
      using s wf_confD(1) [OF wf] by (simp add: add_choice_deps_iff build_dep_iff kitems_iff item_const_def)
    with s show "Sym t = Chc c \<or> Sym t \<in> set (k_deps k (Chc c)) \<and> t \<in> set (k_defined k)"
      if "ks_user (?st1\<lparr>ks_csel := (ks_csel st)(c \<mapsto> s), ks_cwas_set := (ks_cwas_set st)(c := True)\<rparr>) t
          \<noteq> ks_user st t" for t
      using that by (auto split: if_splits)
  qed (use wf_confD(8,9) [OF wf c] ok in \<open>auto simp: kitems_iff kst_ok_def split: if_splits\<close>)
  show ?thesis
    using was prompt sel ok by (auto simp: set_value_def Let_def split: option.splits)
qed

lemma unset_value_ok: "wf_conf k \<Longrightarrow> kst_ok k st \<Longrightarrow> kst_ok k (unset_value k s st)"
  by (auto simp: unset_value_def intro!: if_has_prompt_ok)

lemma choice_set_value_ok:
  assumes wf: "wf_conf k" and ok: "kst_ok k st" and c: "c \<in> set (k_choices k)"
  shows "kst_ok k (snd (choice_set_value k c val st))"
proof -
  have was: "kst_ok k (st\<lparr>ks_cwas_set := f\<rparr>)" for f
    by (rule kst_ok_cong [THEN iffD2, OF _ _ _ _ ok]) simp_all
  have inv: "kst_ok k (rec_invalidate k (Chc c)
      (st\<lparr>ks_cuser := (ks_cuser st)(c \<mapsto> z), ks_cwas_set := (ks_cwas_set st)(c := True)\<rparr>))" for z
    by (rule rec_invalidate_ok [OF wf ok]) (use c ok in \<open>auto simp: kitems_iff kst_ok_def split: if_splits\<close>)
  show ?thesis using was inv ok by (auto simp: choice_set_value_def Let_def split: uval.splits)
qed

lemma choice_unset_value_ok:
  assumes wf: "wf_conf k" and ok: "kst_ok k st" and c: "c \<in> set (k_choices k)"
  shows "kst_ok k (choice_unset_value k c st)"
proof -
  have "kst_ok k (rec_invalidate k (Chc c)
      (st\<lparr>ks_cuser := (ks_cuser st)(c := None), ks_csel := (ks_csel st)(c := None)\<rparr>))"
    by (rule rec_invalidate_ok [OF wf ok]) (use c ok in \<open>auto simp: kitems_iff kst_ok_def split: if_splits\<close>)
  with ok show ?thesis by (simp add: choice_unset_value_def)
qed

end
