(* ===== verification/Kc_Values.thy ===== *)
theory Kc_Values
  imports Kc_Cache
begin

text \<open>
  The answers of the queries are well typed, no computation raises an exception in a sane
  configuration, and an acyclic configuration has a value for every property.
\<close>

subsection \<open>Typed answers\<close>

definition tri :: "int \<Rightarrow> bool" where
  "tri v \<longleftrightarrow> v = 0 \<or> v = 1 \<or> v = 2"

definition item_type :: "kconf \<Rightarrow> item \<Rightarrow> ktype" where
  "item_type k i = (case i of Sym s \<Rightarrow> sy_type (k_sym k s) | Chc c \<Rightarrow> ch_type (k_chc k c))"

definition kgood :: "kconf \<Rightarrow> query \<Rightarrow> ans \<Rightarrow> bool" where
  "kgood k q a =
     (case q of
        QTri s \<Rightarrow>
          (\<exists>v w. a = ATri v w \<and> tri v \<and> (sy_type (k_sym k s) = BOOL \<longrightarrow> sym_y < s \<longrightarrow> v \<noteq> 1)
             \<and> (\<not> bool_tristate (sy_type (k_sym k s)) \<longrightarrow> sym_y < s \<longrightarrow> v = 0))
      | QStr s \<Rightarrow>
          (\<exists>t w. a = AStr t w \<and> (bool_tristate (sy_type (k_sym k s)) \<longrightarrow> STR_TO_TRI t \<noteq> None))
      | QVis i \<Rightarrow> (\<exists>v. a = AVis v \<and> tri v \<and> (item_type k i \<noteq> TRISTATE \<longrightarrow> v \<noteq> 1))
      | QSel c \<Rightarrow> (\<exists>s. a = ASel s)
      | QAsg i \<Rightarrow> (\<exists>vs. a = AAsg vs \<and> (\<forall>v \<in> set vs. tri v))
      | QUnsat s \<Rightarrow> (\<exists>t w. a = AStr t w)
      | QUser s \<Rightarrow> (\<exists>u. a = AUser u \<and> (\<forall>v. u = Some v \<longrightarrow> valid_value (sy_type (k_sym k s)) v))
      | QCUser c \<Rightarrow> (\<exists>u. a = ACUser u \<and> (\<forall>v. u = Some v \<longrightarrow> tri v))
      | QCSel c \<Rightarrow> (\<exists>u. a = ASel u \<and> (\<forall>s. u = Some s \<longrightarrow> s \<in> set (ch_syms (k_chc k c)))))"

abbreviation kruns :: "bool \<Rightarrow> (query \<Rightarrow> bool) \<Rightarrow> kconf \<Rightarrow> ('r \<Rightarrow> bool) \<Rightarrow> 'r kcomp \<Rightarrow> bool" where
  "kruns F P k \<equiv> runs F P (kgood k)"

named_theorems kruns_intro "typing rules of the computations"

lemma kruns_ask [kruns_intro]:
  "P (QTri s) \<Longrightarrow> kruns F P k (\<lambda>v. kgood k (QTri s) (ATri v w)) (ask_tri s)"
  "P (QStr s) \<Longrightarrow> kruns F P k (\<lambda>t. kgood k (QStr s) (AStr t w)) (ask_str s)"
  "P (QVis i) \<Longrightarrow> kruns F P k (\<lambda>v. kgood k (QVis i) (AVis v)) (ask_vis i)"
  "P (QSel c) \<Longrightarrow> kruns F P k (\<lambda>_. True) (ask_sel c)"
  "P (QUser s) \<Longrightarrow> kruns F P k (\<lambda>u. \<forall>v. u = Some v \<longrightarrow> valid_value (sy_type (k_sym k s)) v) (ask_user s)"
  "P (QCUser c) \<Longrightarrow> kruns F P k (\<lambda>u. \<forall>v. u = Some v \<longrightarrow> tri v) (ask_cuser c)"
  "P (QCSel c) \<Longrightarrow> kruns F P k (\<lambda>u. \<forall>s. u = Some s \<longrightarrow> s \<in> set (ch_syms (k_chc k c))) (ask_csel c)"
  by (auto simp: ask_tri_def ask_str_def ask_vis_def ask_sel_def ask_user_def ask_cuser_def ask_csel_def
      kgood_def)

lemma kruns_ask_tri: "P (QTri s) \<Longrightarrow> kruns F P k tri (ask_tri s)"
  by (rule runs_mono [OF kruns_ask(1) [where w = True]]) (auto simp: kgood_def)

lemma kruns_ask_vis: "P (QVis i) \<Longrightarrow> kruns F P k tri (ask_vis i)"
  by (rule runs_mono [OF kruns_ask(3)]) (auto simp: kgood_def)

lemma kruns_ask_str: "P (QStr s) \<Longrightarrow> kruns F P k (\<lambda>_. True) (ask_str s)"
  by (rule runs_mono [OF kruns_ask(2) [where w = True]]) auto

lemma kruns_choice_type:
  "(ch_type (k_chc k c) = TRISTATE \<longrightarrow> P (QTri sym_MODULES)) \<Longrightarrow>
     kruns F P k (\<lambda>t. t = ch_type (k_chc k c) \<or> t = BOOL \<and> ch_type (k_chc k c) = TRISTATE) (choice_type k c)"
  by (auto simp: choice_type_def intro!: runs_cbind [OF kruns_ask_tri])

lemma tri_simps [simp]: "tri 0" "tri 1" "tri 2"
  by (simp_all add: tri_def)

lemma tri_min_max: "tri a \<Longrightarrow> tri b \<Longrightarrow> tri (min a b)" "tri a \<Longrightarrow> tri b \<Longrightarrow> tri (max a b)" "tri a \<Longrightarrow> tri (2 - a)"
  by (auto simp: tri_def min_def max_def)

definition choice_ready :: "(query \<Rightarrow> bool) \<Rightarrow> kconf \<Rightarrow> nat \<Rightarrow> bool" where
  "choice_ready P k c \<longleftrightarrow>
     P (QCUser c) \<and> P (QVis (Chc c)) \<and> (ch_type (k_chc k c) = TRISTATE \<longrightarrow> P (QTri sym_MODULES))"

lemma kruns_choice_tri_value:
  assumes "choice_ready P k c"
  shows "kruns F P k (\<lambda>v. tri v \<and> (ch_type (k_chc k c) = BOOL \<longrightarrow> v \<noteq> 1)) (choice_tri_value k c)"
proof -
  have P: "P (QCUser c)" "P (QVis (Chc c))" "ch_type (k_chc k c) = TRISTATE \<longrightarrow> P (QTri sym_MODULES)" using assms by (auto simp: choice_ready_def)
  have ty: "kruns F P k (\<lambda>t. ch_type (k_chc k c) = BOOL \<longrightarrow> t = BOOL) (choice_type k c)"
    by (rule runs_mono [OF kruns_choice_type [where P = P, OF P(3)]]) auto
  show ?thesis
    unfolding choice_tri_value_def Let_def
    by (rule runs_cbind [OF kruns_ask(6) [of P, OF P(1)]], rule runs_cbind [OF kruns_ask_vis [of P, OF P(2)]])
      (auto intro!: runs_cbind [OF ty] tri_min_max split: option.splits)
qed

definition expr_ready :: "(query \<Rightarrow> bool) \<Rightarrow> kconf \<Rightarrow> item \<Rightarrow> bool" where
  "expr_ready P k i = (case i of Sym s \<Rightarrow> P (QTri s) \<and> P (QStr s) | Chc c \<Rightarrow> choice_ready P k c)"

lemma kruns_item_tri_value: "expr_ready P k i \<Longrightarrow> kruns F P k tri (item_tri_value k i)"
  unfolding item_tri_value_def
  by (cases i) (auto simp: expr_ready_def intro: kruns_ask_tri runs_mono [OF kruns_choice_tri_value])

lemma kruns_sym_to_num: "P (QTri s) \<Longrightarrow> P (QStr s) \<Longrightarrow> kruns F P k (\<lambda>_. True) (sym_to_num k s)"
  by (auto simp: sym_to_num_def intro!: runs_cbind [OF kruns_ask_tri] runs_cbind [OF kruns_ask_str])

lemma kruns_str_relation: "P (QStr s) \<Longrightarrow> P (QStr t) \<Longrightarrow> kruns F P k tri (str_relation r s t)"
  unfolding str_relation_def
  by (rule runs_cbind [OF kruns_ask_str], assumption)+ auto

lemma kruns_expr_value:
  "\<forall>i \<in> set (expr_items e). expr_ready P k i \<Longrightarrow> kruns F P k tri (expr_value k e)"
proof (induction e)
  case (ERel r s t)
  then have P: "P (QTri s)" "P (QStr s)" "P (QTri t)" "P (QStr t)" by (auto simp: expr_ready_def)
  have num: "kruns F P k (\<lambda>_. True) (sym_to_num k s)" "kruns F P k (\<lambda>_. True) (sym_to_num k t)"
    using P by (auto intro: kruns_sym_to_num)
  have rel: "kruns F P k tri (str_relation r s t)" using P by (auto intro: kruns_str_relation)
  show ?case
    by (auto intro!: rel runs_cbind [OF num(1)] runs_cbind [OF num(2)] split: option.splits)
qed (auto intro!: runs_cbind tri_min_max kruns_item_tri_value)

subsection \<open>Typing of the symbol computations\<close>

definition exprs_ready :: "(query \<Rightarrow> bool) \<Rightarrow> kconf \<Rightarrow> expr list \<Rightarrow> bool" where
  "exprs_ready P k es \<longleftrightarrow> (\<forall>e \<in> set es. \<forall>i \<in> set (expr_items e). expr_ready P k i)"

definition sym_ready :: "(query \<Rightarrow> bool) \<Rightarrow> kconf \<Rightarrow> nat \<Rightarrow> bool" where
  "sym_ready P k s \<longleftrightarrow>
     exprs_ready P k (sym_exprs k s) \<and> (sy_type (k_sym k s) = TRISTATE \<longrightarrow> P (QTri sym_MODULES))
     \<and> (\<forall>c. sy_choice (k_sym k s) = Some c \<longrightarrow> choice_ready P k c)"

lemma exprs_readyD: "exprs_ready P k es \<Longrightarrow> e \<in> set es \<Longrightarrow> kruns F P k tri (expr_value k e)"
  by (intro kruns_expr_value) (auto simp: exprs_ready_def)

lemma ready_exprs:
  assumes "sym_ready P k s"
  shows "kruns F P k tri (expr_value k (sy_rev_dep (k_sym k s)))"
    "kruns F P k tri (expr_value k (sy_weak_rev_dep (k_sym k s)))"
    "kruns F P k tri (expr_value k (sy_direct_dep (k_sym k s)))"
    "(v, c) \<in> set (sy_defaults (k_sym k s)) \<Longrightarrow> kruns F P k tri (expr_value k v)"
    "(v, c) \<in> set (sy_defaults (k_sym k s)) \<Longrightarrow> kruns F P k tri (expr_value k c)"
    "(l, h, c) \<in> set (sy_ranges (k_sym k s)) \<Longrightarrow> kruns F P k tri (expr_value k c)"
    "(l, h, c) \<in> set (sy_ranges (k_sym k s)) \<Longrightarrow> P (QStr l) \<and> P (QStr h)"
    "exprs_ready P k (prompt_conds k (sy_nodes (k_sym k s)))"
proof -
  have r: "exprs_ready P k (sym_exprs k s)" using assms by (simp add: sym_ready_def)
  show "kruns F P k tri (expr_value k (sy_rev_dep (k_sym k s)))"
    "kruns F P k tri (expr_value k (sy_weak_rev_dep (k_sym k s)))"
    "kruns F P k tri (expr_value k (sy_direct_dep (k_sym k s)))"
    by (rule exprs_readyD [OF r]; simp add: sym_exprs_def Let_def)+
  show "(v, c) \<in> set (sy_defaults (k_sym k s)) \<Longrightarrow> kruns F P k tri (expr_value k v)"
    "(v, c) \<in> set (sy_defaults (k_sym k s)) \<Longrightarrow> kruns F P k tri (expr_value k c)"
    "(l, h, c) \<in> set (sy_ranges (k_sym k s)) \<Longrightarrow> kruns F P k tri (expr_value k c)"
    by (rule exprs_readyD [OF r]; force simp: sym_exprs_def Let_def)+
  show "P (QStr l) \<and> P (QStr h)" if "(l, h, c) \<in> set (sy_ranges (k_sym k s))"
  proof -
    have "EItem (Sym l) \<in> set (sym_exprs k s)" "EItem (Sym h) \<in> set (sym_exprs k s)"
      using that by (force simp: sym_exprs_def Let_def)+
    with r show ?thesis by (force simp: exprs_ready_def expr_ready_def)
  qed
  show "exprs_ready P k (prompt_conds k (sy_nodes (k_sym k s)))"
  proof -
    have "set (prompt_conds k (sy_nodes (k_sym k s))) \<subseteq> set (sym_exprs k s)"
      by (auto simp: sym_exprs_def Let_def)
    with r show ?thesis unfolding exprs_ready_def by blast
  qed
qed

lemma kruns_prompt_vis:
  assumes "exprs_ready P k (prompt_conds k nodes)"
  shows "kruns F P k tri (prompt_vis k nodes)"
  unfolding prompt_vis_def
proof (rule runs_fold_c)
  fix v n assume n: "n \<in> set nodes" "tri v"
  show "kruns F P k tri (case nd_prompt (k_node k n) of
      None \<Rightarrow> Ret v | Some (_, cond) \<Rightarrow> cbind (expr_value k cond) (\<lambda>w. Ret (max v w)))"
  proof (cases "nd_prompt (k_node k n)")
    case (Some p)
    then have "snd p \<in> set (prompt_conds k nodes)"
      using n by (force simp: prompt_conds_def List.map_filter_def)
    from exprs_readyD [OF assms this] Some n show ?thesis
      by (auto intro!: runs_cbind [where R = tri] tri_min_max split: prod.splits)
  qed (use n in simp)
qed simp

lemma kruns_promote_vis:
  assumes "kruns F P k (\<lambda>t. ty \<noteq> TRISTATE \<longrightarrow> t \<noteq> TRISTATE) c" "tri vis"
  shows "kruns F P k (\<lambda>v. tri v \<and> (ty \<noteq> TRISTATE \<longrightarrow> v \<noteq> 1)) (promote_vis c vis)"
  using assms(2) by (auto simp: promote_vis_def intro!: runs_cbind [OF assms(1)] split: if_splits)

lemma kruns_sym_type:
  assumes "sym_ready P k s"
  shows "kruns F P k (\<lambda>t. t = sy_type (k_sym k s) \<or> t = BOOL \<and> sy_type (k_sym k s) = TRISTATE) (sym_type k s)"
proof -
  have P: "sy_type (k_sym k s) = TRISTATE \<Longrightarrow> P (QTri sym_MODULES)" and c: "\<And>c. sy_choice (k_sym k s) = Some c \<Longrightarrow> choice_ready P k c"
    using assms by (auto simp: sym_ready_def)
  show ?thesis
    unfolding sym_type_def Let_def
    by (auto intro!: runs_cbind [OF kruns_ask_tri [where P = P, OF P]] runs_cbind [OF kruns_choice_tri_value [OF c]]
        split: option.splits)
qed

lemma kruns_sym_visibility:
  assumes "sym_ready P k s"
  shows "kruns F P k (\<lambda>v. kgood k (QVis (Sym s)) (AVis v)) (sym_visibility k s)"
proof -
  have c: "\<And>c. sy_choice (k_sym k s) = Some c \<Longrightarrow> choice_ready P k c"
    using assms by (auto simp: sym_ready_def)
  have ty: "kruns F P k (\<lambda>t. sy_type (k_sym k s) \<noteq> TRISTATE \<longrightarrow> t \<noteq> TRISTATE) (sym_type k s)"
    by (rule runs_mono [OF kruns_sym_type [OF assms]]) auto
  define R where "R v \<longleftrightarrow> tri v \<and> (sy_type (k_sym k s) \<noteq> TRISTATE \<longrightarrow> v \<noteq> 1)" for v
  have R: "(\<lambda>v. kgood k (QVis (Sym s)) (AVis v)) = R" "R 0"
    by (simp_all add: kgood_def item_type_def fun_eq_iff R_def)
  have vis: "tri v \<Longrightarrow> kruns F P k R (promote_vis (sym_type k s) v)" for v
    unfolding R_def by (rule kruns_promote_vis [OF ty])
  show ?thesis
    unfolding sym_visibility_def Let_def R(1)
    by (rule runs_cbind [OF kruns_prompt_vis [OF ready_exprs(8) [OF assms]]])
      (auto intro!: vis R(2) runs_cbind [OF kruns_choice_tri_value [OF c]] split: option.splits)
qed

lemma kruns_default_val:
  assumes "sym_ready P k s"
  shows "kruns F P k (\<lambda>r. \<forall>v. r = Some v \<longrightarrow> tri v) (default_val k s)"
  unfolding default_val_def
proof (rule runs_first_c)
  fix x assume "x \<in> set (sy_defaults (k_sym k s))"
  moreover obtain v c where x: "x = (v, c)" by (cases x)
  ultimately have "kruns F P k tri (expr_value k v)" "kruns F P k tri (expr_value k c)"
    using ready_exprs(4,5) [OF assms] by auto
  then show "kruns F P k (\<lambda>r. \<forall>v. r = Some v \<longrightarrow> tri v) (case x of (d, cond) \<Rightarrow>
      cbind (expr_value k cond) (\<lambda>dep_val. if dep_val = 0 then Ret None
        else cbind (expr_value k d) (\<lambda>v. Ret (Some (min v dep_val)))))"
    unfolding x by (auto intro!: runs_cbind [where R = tri] tri_min_max)
qed

lemma kruns_reverse_deps:
  assumes ready: "sym_ready P k s" and unsat: "P (QUnsat s)" and v: "tri v"
    and choice: "bool_tristate (sy_type (k_sym k s))"
  shows "kruns F P k (\<lambda>(v, w). tri v \<and> (sy_type (k_sym k s) = BOOL \<longrightarrow> v \<noteq> 1)) (reverse_deps k s v w)"
proof -
  have sel: "kruns F P k (\<lambda>(v, w). tri v)
     (if d = 0 then Ret (v, w)
      else cbind (expr_value k (sy_direct_dep (k_sym k s))) (\<lambda>dd.
           if dd < d then Note (QUnsat s) (Ret (max d v, True)) else Ret (max d v, True)))" if "tri d" for d
    using unsat v that by (auto intro!: runs_cbind [OF ready_exprs(3) [OF ready]] tri_min_max)
  show ?thesis
    unfolding reverse_deps_def Let_def
    by (rule runs_cbind [OF ready_exprs(1) [OF ready]], rule runs_cbind [OF sel], assumption)
      (auto intro!: runs_cbind [OF kruns_sym_type [OF ready]] runs_cbind [OF ready_exprs(2) [OF ready]])
qed

lemma kruns_plain_tri_value:
  assumes ready: "sym_ready P k s" and P: "P (QUnsat s)" "P (QUser s)" and v: "tri vis"
    and ty: "bool_tristate (sy_type (k_sym k s))"
  shows "kruns F P k (\<lambda>(v, w). tri v \<and> (sy_type (k_sym k s) = BOOL \<longrightarrow> v \<noteq> 1)) (plain_tri_value k s vis)"
proof -
  note rev = kruns_reverse_deps [OF ready P(1) _ ty]
  have valid: "tri z" if "valid_value (sy_type (k_sym k s)) (UTri z)" for z
    using that by (auto simp: valid_value_def tri_def)
  have nostr: "\<not> valid_value (sy_type (k_sym k s)) (UStr t)" for t
    using ty by (auto simp: valid_value_def bool_tristate_def)
  have weak: "kruns F P k (\<lambda>(v, w). tri v \<and> (sy_type (k_sym k s) = BOOL \<longrightarrow> v \<noteq> 1))
      (cbind (expr_value k (sy_weak_rev_dep (k_sym k s))) (\<lambda>dep_val.
        if dep_val = 0 then reverse_deps k s v w
        else cbind (expr_value k (sy_direct_dep (k_sym k s))) (\<lambda>dd.
             if dd = 0 then reverse_deps k s v w else reverse_deps k s (max dep_val v) True)))" if "tri v" for v w
    using that by (auto intro!: runs_cbind [OF ready_exprs(2) [OF ready]] runs_cbind [OF ready_exprs(3) [OF ready]]
        rev tri_min_max)
  have defs: "kruns F P k (\<lambda>(v, w). tri v \<and> (sy_type (k_sym k s) = BOOL \<longrightarrow> v \<noteq> 1))
      (cbind (default_val k s) (\<lambda>d. case d of
          None \<Rightarrow> cbind (expr_value k (sy_weak_rev_dep (k_sym k s))) (\<lambda>dep_val.
            if dep_val = 0 then reverse_deps k s 0 (vis \<noteq> 0)
            else cbind (expr_value k (sy_direct_dep (k_sym k s))) (\<lambda>dd.
                 if dd = 0 then reverse_deps k s 0 (vis \<noteq> 0) else reverse_deps k s (max dep_val 0) True))
        | Some v \<Rightarrow> cbind (expr_value k (sy_weak_rev_dep (k_sym k s))) (\<lambda>dep_val.
            if dep_val = 0 then reverse_deps k s v (vis \<noteq> 0 \<or> v \<noteq> 0)
            else cbind (expr_value k (sy_direct_dep (k_sym k s))) (\<lambda>dd.
                 if dd = 0 then reverse_deps k s v (vis \<noteq> 0 \<or> v \<noteq> 0) else reverse_deps k s (max dep_val v) True))))"
    by (rule runs_cbind [OF kruns_default_val [OF ready]]) (auto intro!: weak split: option.splits)
  show ?thesis
    unfolding plain_tri_value_def Let_def
    using defs v valid nostr
    by (auto intro!: runs_cbind [OF kruns_ask(5) [of P, OF P(2)]] rev tri_min_max split: option.splits uval.splits)
qed

lemma kruns_choice_sym_tri_value:
  assumes "P (QSel c)" "P (QUser s)" "kgood k (QVis (Sym s)) (AVis vis)"
  shows "kruns F P k (\<lambda>(v, w). tri v \<and> (sy_type (k_sym k s) = BOOL \<longrightarrow> v \<noteq> 1)) (choice_sym_tri_value s c vis)"
  using assms(3)
  by (auto simp: choice_sym_tri_value_def kgood_def item_type_def tri_def
      intro!: runs_cbind [OF kruns_ask(4) [of P, OF assms(1)]] runs_cbind [OF kruns_ask(5) [of P, OF assms(2)]]
      split: option.splits uval.splits)

lemma kruns_sym_tri_value:
  assumes ready: "sym_ready P k s" and P: "P (QVis (Sym s))" "P (QUnsat s)" "P (QUser s)"
    and sel: "\<And>c. sy_choice (k_sym k s) = Some c \<Longrightarrow> P (QSel c)"
  shows "kruns F P k (\<lambda>(v, w). kgood k (QTri s) (ATri v w)) (sym_tri_value k s)"
proof -
  define R where "R x \<longleftrightarrow> tri (fst x) \<and> (sy_type (k_sym k s) = BOOL \<longrightarrow> fst x \<noteq> 1)" for x :: "int \<times> bool"
  have R: "(\<lambda>(v, w). tri v \<and> (sy_type (k_sym k s) = BOOL \<longrightarrow> v \<noteq> 1)) = R" by (auto simp: R_def)
  show ?thesis
  proof (cases "bool_tristate (sy_type (k_sym k s)) \<and> sym_y < s")
    case True
    have "kruns F P k R (cbind (ask_vis (Sym s)) (\<lambda>vis.
        case sy_choice (k_sym k s) of
          None \<Rightarrow> plain_tri_value k s vis
        | Some c \<Rightarrow> choice_sym_tri_value s c vis))"
    proof (rule runs_cbind [OF kruns_ask(3) [of P, OF P(1)]])
      fix vis assume vis: "kgood k (QVis (Sym s)) (AVis vis)"
      then have "tri vis" by (auto simp: kgood_def)
      with True vis show "kruns F P k R (case sy_choice (k_sym k s) of
          None \<Rightarrow> plain_tri_value k s vis | Some c \<Rightarrow> choice_sym_tri_value s c vis)"
        using kruns_plain_tri_value [OF ready P(2,3)] kruns_choice_sym_tri_value [OF sel P(3) vis]
        by (auto simp: R split: option.splits)
    qed
    then have "kruns F P k R (sym_tri_value k s)" using True by (simp add: sym_tri_value_def Let_def)
    then show ?thesis
      by (rule runs_mono) (use True in \<open>auto simp: R_def kgood_def\<close>)
  next
    case False
    have "tri (int s)" if "s \<le> sym_y" using that by (auto simp: tri_def sym_consts)
    with False show ?thesis
      by (auto simp: sym_tri_value_def Let_def kgood_def bool_tristate_def)
  qed
qed

text \<open>The defaults of a symbol that is not bool or tristate are single items.\<close>

definition sane_sym :: "kconf \<Rightarrow> nat \<Rightarrow> bool" where
  "sane_sym k s \<longleftrightarrow>
     (\<not> bool_tristate (sy_type (k_sym k s)) \<longrightarrow> (\<forall>(d, c) \<in> set (sy_defaults (k_sym k s)). \<exists>i. d = EItem i))
     \<and> (\<forall>e \<in> set (split_or (sy_rev_dep (k_sym k s))).
          (\<exists>t. hd (split_and e) = EItem (Sym t)) \<and> (is_and e \<or> (\<exists>i. e = EItem i)))"

lemma kruns_default_str:
  assumes ready: "sym_ready P k s" and sane: "F \<or> \<not> bool_tristate (sy_type (k_sym k s)) \<and> sane_sym k s"
  shows "kruns F P k (\<lambda>_. True) (default_str k s)"
proof -
  have ex: "kruns F P k tri (expr_value k c)" if "(d, c) \<in> set (sy_defaults (k_sym k s))" for d c
    using ready_exprs(5) [OF ready that] .
  have item: "kruns F P k (\<lambda>_. True)
      (case d of EItem (Sym d) \<Rightarrow> cbind (ask_str d) (\<lambda>t. Ret (Some t))
       | EItem (Chc c) \<Rightarrow> cbind (choice_tri_value k c) (\<lambda>t. Ret (Some (TRI_TO_STR t)))
       | _ \<Rightarrow> Fail)" if "(d, c) \<in> set (sy_defaults (k_sym k s))" for d c
  proof -
    have "d \<in> set (sym_exprs k s)" using that by (force simp: sym_exprs_def Let_def)
    then have r: "\<forall>i \<in> set (expr_items d). expr_ready P k i"
      using ready by (auto simp: sym_ready_def exprs_ready_def)
    show ?thesis
    proof (cases d)
      case (EItem i)
      with r show ?thesis
        by (cases i) (auto simp: expr_ready_def intro!: runs_cbind [OF kruns_ask_str] runs_cbind [OF kruns_choice_tri_value])
    qed (use sane that in \<open>auto simp: sane_sym_def\<close>)
  qed
  have "kruns F P k (\<lambda>r. \<forall>y. r = Some y \<longrightarrow> True) (default_str k s)"
    unfolding default_str_def
    by (rule runs_first_c) (auto intro!: runs_cbind [OF ex] item)
  then show ?thesis by simp
qed

lemma kruns_active_range:
  assumes ready: "sym_ready P k s"
  shows "kruns F P k (\<lambda>_. True) (active_range k s base)"
proof -
  have ex: "kruns F P k tri (expr_value k c)" and st: "P (QStr l)" "P (QStr h)"
    if "(l, h, c) \<in> set (sy_ranges (k_sym k s))" for l h c
    using ready_exprs(6,7) [OF ready that] by auto
  have "kruns F P k (\<lambda>r. \<forall>y. r = Some y \<longrightarrow> True) (active_range k s base)"
    unfolding active_range_def
    by (rule runs_first_c) (auto intro!: runs_cbind [OF ex] runs_cbind [OF kruns_ask_str] dest: st)
  then show ?thesis by simp
qed

lemma valid_numD:
  "int_hex ty \<Longrightarrow> \<not> valid_value ty (UTri z)"
  "int_hex ty \<Longrightarrow> int_base (TYPE_TO_BASE ty) t = None \<Longrightarrow> \<not> valid_value ty (UStr t)"
  by (auto simp: valid_value_def int_hex_def is_base_n_def)

lemma valid_strD: "\<not> valid_value STRING (UTri z)"
  by (simp add: valid_value_def)

lemma kruns_sym_str_value:
  assumes ready: "sym_ready P k s" and P: "P (QVis (Sym s))" "P (QUser s)" "P (QTri s)"
    and sane: "F \<or> sane_sym k s"
  shows "kruns F P k (\<lambda>(t, w). kgood k (QStr s) (AStr t w)) (sym_str_value k s)"
proof (cases "bool_tristate (sy_type (k_sym k s)) \<or> sy_type (k_sym k s) = UNKNOWN")
  case True
  then show ?thesis
    using P(3) by (auto simp: sym_str_value_def Let_def kgood_def TRI_TO_STR_def STR_TO_TRI_def bool_tristate_def)
next
  case False
  then have d: "kruns F P k (\<lambda>_. True) (default_str k s)" using kruns_default_str [OF ready] sane by auto
  have nd: "kruns F P k (\<lambda>_. True) (num_default k s base rng w)" for base rng w
    unfolding num_default_def
    by (rule runs_cbind [OF d]) (auto simp: Let_def split: option.splits prod.splits)
  note u = kruns_ask(5) [of P, OF P(2)]
  have num: "kruns F P k (\<lambda>_. True) (num_str_value k s (TYPE_TO_BASE (sy_type (k_sym k s))) vis)"
    if "int_hex (sy_type (k_sym k s))" for vis
    unfolding num_str_value_def Let_def
    by (rule runs_cbind [OF kruns_active_range [OF ready]])
      (use that in \<open>auto intro!: nd runs_cbind [OF u] simp: valid_numD split: option.splits uval.splits prod.splits\<close>)
  have str: "kruns F P k (\<lambda>_. True) (string_str_value k s vis)" if "sy_type (k_sym k s) = STRING" for vis
    unfolding string_str_value_def Let_def
    using that
    by (auto intro!: runs_cbind [OF u] runs_cbind [OF d] simp: valid_strD split: option.splits uval.splits)
  have "\<not> int_hex (sy_type (k_sym k s)) \<Longrightarrow> sy_type (k_sym k s) = STRING"
    using False by (cases "sy_type (k_sym k s)") (auto simp: bool_tristate_def int_hex_def)
  with num str have val: "kruns F P k (\<lambda>_. True)
      (if int_hex (sy_type (k_sym k s)) then num_str_value k s (TYPE_TO_BASE (sy_type (k_sym k s))) vis
       else string_str_value k s vis)" for vis
    by simp
  have "sym_str_value k s = cbind (ask_vis (Sym s)) (\<lambda>vis.
      cbind (if int_hex (sy_type (k_sym k s)) then num_str_value k s (TYPE_TO_BASE (sy_type (k_sym k s))) vis
             else string_str_value k s vis) (\<lambda>(t, w).
      Ret (t, w \<and> sy_env_var (k_sym k s) = None \<and> k_defconfig_list k \<noteq> Some s)))"
    using False by (simp add: sym_str_value_def Let_def)
  moreover have "kruns F P k (\<lambda>(t, w). kgood k (QStr s) (AStr t w)) \<dots>"
    by (rule runs_cbind [OF kruns_ask_vis [of P, OF P(1)]], rule runs_cbind [OF val])
      (use False in \<open>auto simp: kgood_def\<close>)
  ultimately show ?thesis by simp
qed

lemma kruns_sym_assignable:
  assumes ready: "sym_ready P k s" and P: "P (QVis (Sym s))"
  shows "kruns F P k (\<lambda>vs. \<forall>v \<in> set vs. tri v) (sym_assignable k s)"
proof -
  have two: "kruns F P k (\<lambda>_. True) (cbind (sym_type k s) (\<lambda>t. if t = BOOL then Ret True
      else cbind (expr_value k (sy_weak_rev_dep (k_sym k s))) (\<lambda>wv. Ret (wv = 2))))"
    by (auto intro!: runs_cbind [OF kruns_sym_type [OF ready]] runs_cbind [OF ready_exprs(2) [OF ready]])
  show ?thesis
    unfolding sym_assignable_def Let_def
    by (auto intro!: runs_cbind [OF kruns_ask_vis [of P, OF P]] runs_cbind [OF ready_exprs(1) [OF ready]]
        runs_cbind [OF ready_exprs(2) [OF ready]] runs_cbind [OF two])
qed

text \<open>The message about unsatisfied dependencies reads the selecting symbols.\<close>

lemma split_or_items: "e' \<in> set (split_or e) \<Longrightarrow> set (expr_items e') \<subseteq> set (expr_items e)"
  by (induction e) auto

lemma split_and_items: "e' \<in> set (split_and e) \<Longrightarrow> set (expr_items e') \<subseteq> set (expr_items e)"
  by (induction e) auto

definition selectors_ready :: "(query \<Rightarrow> bool) \<Rightarrow> kconf \<Rightarrow> nat \<Rightarrow> bool" where
  "selectors_ready P k s \<longleftrightarrow>
     (\<forall>t. Sym t \<in> set (expr_items (sy_rev_dep (k_sym k s))) \<longrightarrow>
        (\<forall>i \<in> set (expr_items (sy_direct_dep (k_sym k t))). expr_ready P k i))"

lemma kruns_warn_select:
  assumes ready: "sym_ready P k s" and sel: "selectors_ready P k s" and sane: "F \<or> sane_sym k s"
  shows "kruns F P k (\<lambda>_. True) (warn_select_unsatisfied k s)"
proof -
  let ?rd = "sy_rev_dep (k_sym k s)"
  have rd: "\<forall>i \<in> set (expr_items ?rd). expr_ready P k i"
    using ready by (auto simp: sym_ready_def exprs_ready_def sym_exprs_def Let_def)
  note dd = ready_exprs(3) [OF ready]
  have "kruns F P k (\<lambda>_. True)
      (cbind (expr_value k e) (\<lambda>v. cbind (expr_value k (sy_direct_dep (k_sym k s))) (\<lambda>dv.
        if v \<le> dv then Ret msg
        else case hd (split_and e) of
               EItem (Sym t) \<Rightarrow>
                 cbind (ask_str t) (\<lambda>ts.
                 cbind (expr_value k (sy_direct_dep (k_sym k t))) (\<lambda>td.
                   case e of
                      EItem _ \<Rightarrow> Ret (f t ts td)
                    | EAnd _ cond \<Rightarrow> cbind (expr_value k cond) (\<lambda>cv. Ret (g cond t ts td cv))
                    | _ \<Rightarrow> Fail))
             | _ \<Rightarrow> Fail)))" (is "kruns F P k _ ?c")
    if e: "e \<in> set (split_or ?rd)" for e and msg :: string and f g
  proof -
    have sub: "set (expr_items e) \<subseteq> set (expr_items ?rd)" using split_or_items [OF e] .
    have ev: "kruns F P k tri (expr_value k e)" using rd sub by (auto intro: kruns_expr_value)
    show ?thesis
    proof (cases "\<exists>t. hd (split_and e) = EItem (Sym t)")
      case True
      then obtain t where t: "hd (split_and e) = EItem (Sym t)" by blast
      then have "EItem (Sym t) \<in> set (split_and e)" by (metis hd_in_set split_and_neq_Nil)
      from split_and_items [OF this] sub have tm: "Sym t \<in> set (expr_items ?rd)" by auto
      with rd have "P (QStr t)" by (auto simp: expr_ready_def)
      note st = kruns_ask_str [of P, OF this]
      have td: "kruns F P k tri (expr_value k (sy_direct_dep (k_sym k t)))"
        using sel tm by (auto simp: selectors_ready_def intro: kruns_expr_value)
      have cond: "kruns F P k (\<lambda>_. True) (case e of
                      EItem _ \<Rightarrow> Ret (f t ts td)
                    | EAnd _ cond \<Rightarrow> cbind (expr_value k cond) (\<lambda>cv. Ret (g cond t ts td cv))
                    | _ \<Rightarrow> Fail)" for ts td
      proof (cases e)
        case (EAnd a b)
        with rd sub have "kruns F P k tri (expr_value k b)" by (auto intro!: kruns_expr_value)
        with EAnd show ?thesis by (auto intro!: runs_cbind [where R = tri])
      qed (use sane e in \<open>auto simp: sane_sym_def\<close>)
      show ?thesis
        by (auto simp: t intro!: runs_cbind [OF ev] runs_cbind [OF dd] runs_cbind [OF st] runs_cbind [OF td] cond)
    next
      case False
      with sane e have F: "F" by (auto simp: sane_sym_def)
      show ?thesis
        by (rule runs_cbind [OF ev], rule runs_cbind [OF dd])
          (use F False in \<open>auto split: expr.splits item.splits\<close>)
    qed
  qed
  note body = this
  show ?thesis
    unfolding warn_select_unsatisfied_def Let_def
    by (intro runs_cbind [OF dd] runs_cbind [OF ready_exprs(1) [OF ready]] runs_fold_c body TrueI)
qed

subsection \<open>Typing of the choice computations\<close>

definition choice_exprs_ready :: "(query \<Rightarrow> bool) \<Rightarrow> kconf \<Rightarrow> nat \<Rightarrow> bool" where
  "choice_exprs_ready P k c \<longleftrightarrow> exprs_ready P k (choice_exprs k c)
     \<and> (ch_type (k_chc k c) = TRISTATE \<longrightarrow> P (QTri sym_MODULES))"

definition sane_choice :: "kconf \<Rightarrow> nat \<Rightarrow> bool" where
  "sane_choice k c \<longleftrightarrow> (\<forall>(d, e) \<in> set (ch_defaults (k_chc k c)). \<exists>s. d = EItem (Sym s))"

lemma kruns_choice_visibility:
  assumes "choice_exprs_ready P k c"
  shows "kruns F P k (\<lambda>v. kgood k (QVis (Chc c)) (AVis v)) (choice_visibility k c)"
proof -
  have P: "ch_type (k_chc k c) = TRISTATE \<longrightarrow> P (QTri sym_MODULES)" and e: "exprs_ready P k (prompt_conds k (ch_nodes (k_chc k c)))"
    using assms by (auto simp: choice_exprs_ready_def exprs_ready_def choice_exprs_def)
  have ty: "kruns F P k (\<lambda>t. ch_type (k_chc k c) \<noteq> TRISTATE \<longrightarrow> t \<noteq> TRISTATE) (choice_type k c)"
    by (rule runs_mono [OF kruns_choice_type [where P = P, OF P]]) auto
  have R: "(\<lambda>v. kgood k (QVis (Chc c)) (AVis v)) = (\<lambda>v. tri v \<and> (ch_type (k_chc k c) \<noteq> TRISTATE \<longrightarrow> v \<noteq> 1))"
    by (simp add: kgood_def item_type_def)
  show ?thesis
    unfolding choice_visibility_def R
    by (rule runs_cbind [OF kruns_prompt_vis [OF e]]) (rule kruns_promote_vis [OF ty])
qed

lemma kruns_choice_assignable:
  assumes "P (QVis (Chc c))" "ch_type (k_chc k c) = TRISTATE \<longrightarrow> P (QTri sym_MODULES)"
  shows "kruns F P k (\<lambda>vs. \<forall>v \<in> set vs. tri v) (choice_assignable k c)"
  unfolding choice_assignable_def
  by (auto intro!: runs_cbind [OF kruns_ask_vis [of P, OF assms(1)]] runs_cbind [OF kruns_choice_type [where P = P, OF assms(2)]])

lemma kruns_selection_from_defaults:
  assumes ready: "choice_exprs_ready P k c" and syms: "\<And>s. s \<in> set (ch_syms (k_chc k c)) \<Longrightarrow> P (QVis (Sym s))"
    and defs: "\<And>s e. (EItem (Sym s), e) \<in> set (ch_defaults (k_chc k c)) \<Longrightarrow> P (QVis (Sym s))"
    and sane: "F \<or> sane_choice k c"
  shows "kruns F P k (\<lambda>_. True) (selection_from_defaults k c)"
proof -
  have ex: "kruns F P k tri (expr_value k e)" if "(d, e) \<in> set (ch_defaults (k_chc k c))" for d e
    by (rule exprs_readyD [of P k "choice_exprs k c"])
      (use ready that in \<open>force simp: choice_exprs_ready_def choice_exprs_def\<close>)+
  have item: "kruns F P k (\<lambda>r. True)
      (case d of EItem (Sym d) \<Rightarrow> cbind (ask_vis (Sym d)) (\<lambda>v. Ret (if v \<noteq> 0 then Some d else None))
       | _ \<Rightarrow> Fail)" if "(d, e) \<in> set (ch_defaults (k_chc k c))" for d e
  proof (cases "\<exists>s. d = EItem (Sym s)")
    case True
    with defs that show ?thesis by (auto intro!: runs_cbind [OF kruns_ask_vis])
  qed (use sane that in \<open>auto simp: sane_choice_def split: expr.splits item.splits\<close>)
  have "kruns F P k (\<lambda>r. \<forall>y. r = Some y \<longrightarrow> True)
      (first_c (\<lambda>(d, e). cbind (expr_value k e) (\<lambda>v. if v = 0 then Ret None
         else case d of EItem (Sym d) \<Rightarrow> cbind (ask_vis (Sym d)) (\<lambda>v. Ret (if v \<noteq> 0 then Some d else None))
              | _ \<Rightarrow> Fail)) (ch_defaults (k_chc k c)))"
    by (rule runs_first_c) (auto intro!: runs_cbind [OF ex] item)
  note 1 = this [simplified]
  have "kruns F P k (\<lambda>r. \<forall>y. r = Some y \<longrightarrow> True)
      (first_c (\<lambda>s. cbind (ask_vis (Sym s)) (\<lambda>v. Ret (if v \<noteq> 0 then Some s else None))) (ch_syms (k_chc k c)))"
    by (rule runs_first_c) (auto intro!: runs_cbind [OF kruns_ask_vis] syms)
  note 2 = this [simplified]
  show ?thesis
    unfolding selection_from_defaults_def
    by (rule runs_cbind [OF 1]) (auto intro!: 2 split: option.splits)
qed

lemma kruns_choice_selection:
  assumes ready: "choice_exprs_ready P k c" and cr: "choice_ready P k c" and P: "P (QCSel c)"
    and syms: "\<And>s. s \<in> set (ch_syms (k_chc k c)) \<Longrightarrow> P (QVis (Sym s))"
    and defs: "\<And>s e. (EItem (Sym s), e) \<in> set (ch_defaults (k_chc k c)) \<Longrightarrow> P (QVis (Sym s))"
    and sane: "F \<or> sane_choice k c"
  shows "kruns F P k (\<lambda>_. True) (choice_selection k c)"
proof -
  have d: "kruns F P k (\<lambda>_. True) (selection_from_defaults k c)"
    by (rule kruns_selection_from_defaults [OF ready syms defs sane])
  show ?thesis
    unfolding choice_selection_def
    by (rule runs_cbind [OF kruns_choice_tri_value [OF cr]])
      (auto intro!: d runs_cbind [OF kruns_ask(7) [of P, OF P]] runs_cbind [OF kruns_ask_vis [of P, OF syms]]
        split: option.splits)
qed

subsection \<open>Every value is well typed\<close>

lemma kruns_body: "runs True (\<lambda>_. True) (kgood k) (kgood k q) (kbody k q)"
proof -
  let ?P = "\<lambda>_ :: query. True"
  have c: "choice_ready ?P k c" for c by (simp add: choice_ready_def)
  have e: "expr_ready ?P k i" for i by (auto simp: expr_ready_def c split: item.splits)
  have s: "sym_ready ?P k s" for s by (simp add: sym_ready_def exprs_ready_def e c)
  have ce: "choice_exprs_ready ?P k c" for c by (simp add: choice_exprs_ready_def exprs_ready_def e)
  have sr: "selectors_ready ?P k s" for s by (simp add: selectors_ready_def e)
  have t1: "kruns True ?P k (\<lambda>(v, w). kgood k (QTri s) (ATri v w)) (sym_tri_value k s)" for s
    by (rule kruns_sym_tri_value [OF s]) simp_all
  have t2: "kruns True ?P k (\<lambda>(t, w). kgood k (QStr s) (AStr t w)) (sym_str_value k s)" for s
    by (rule kruns_sym_str_value [OF s]) simp_all
  have t3: "kruns True ?P k (\<lambda>v. kgood k (QVis (Sym s)) (AVis v)) (sym_visibility k s)" for s
    by (rule kruns_sym_visibility [OF s])
  have t4: "kruns True ?P k (\<lambda>v. kgood k (QVis (Chc c)) (AVis v)) (choice_visibility k c)" for c
    by (rule kruns_choice_visibility [OF ce])
  have t5: "kruns True ?P k (\<lambda>_. True) (choice_selection k c)" for c
    by (rule kruns_choice_selection [OF ce c]) simp_all
  have t6: "kruns True ?P k (\<lambda>vs. \<forall>v \<in> set vs. tri v) (sym_assignable k s)" for s
    by (rule kruns_sym_assignable [OF s]) simp
  have t7: "kruns True ?P k (\<lambda>vs. \<forall>v \<in> set vs. tri v) (choice_assignable k c)" for c
    by (rule kruns_choice_assignable) simp_all
  have t8: "kruns True ?P k (\<lambda>_. True) (warn_select_unsatisfied k s)" for s
    by (rule kruns_warn_select [OF s sr]) simp
  show ?thesis
  proof (cases q)
    case (QVis i)
    then show ?thesis by (cases i) (auto simp: kbody_def intro: runs_cbind [OF t3] runs_cbind [OF t4])
  next
    case (QAsg i)
    then show ?thesis
      by (cases i) (auto simp: kbody_def kgood_def intro: runs_cbind [OF t6] runs_cbind [OF t7])
  qed (auto simp: kbody_def intro: runs_cbind [OF t1] runs_cbind [OF t2]
      intro!: runs_cbind [OF t5] runs_cbind [OF t8] simp: kgood_def [of k "QSel _"] kgood_def [of k "QUnsat _"])
qed

definition users_ok :: "kconf \<Rightarrow> kstate \<Rightarrow> bool" where
  "users_ok k st \<longleftrightarrow>
     (\<forall>s v. ks_user st s = Some v \<longrightarrow> valid_value (sy_type (k_sym k s)) v)
     \<and> (\<forall>c v. ks_cuser st c = Some v \<longrightarrow> tri v)
     \<and> (\<forall>c s. ks_csel st c = Some s \<longrightarrow> s \<in> set (ch_syms (k_chc k c)))"

lemma kinp_good: "users_ok k st \<Longrightarrow> kinp st q = Some a \<Longrightarrow> kgood k q a"
  by (cases q) (auto simp: kinp_def kgood_def users_ok_def)

lemma value_typed: "users_ok k st \<Longrightarrow> has (kbody k) (kinp st) q a \<Longrightarrow> kgood k q a"
  by (rule has_typed [where D = "\<lambda>_. True"]) (auto intro: kruns_body kinp_good)

end
