(* ===== verification/Kc_Total.thy ===== *)
theory Kc_Total
  imports Kc_Values
begin

text \<open>
  A configuration whose dependencies have a rank has a value for every property: reading a
  property raises no exception and its recursion ends. A choice and its symbols form one
  node of the dependency order, as they do in \<open>_check_dep_loop_sym\<close>.
\<close>

subsection \<open>Ranked configurations\<close>

definition rep :: "kconf \<Rightarrow> item \<Rightarrow> item" where
  "rep k i =
     (case i of
        Sym s \<Rightarrow> (case sy_choice (k_sym k s) of None \<Rightarrow> Sym s | Some c \<Rightarrow> Chc c)
      | Chc c \<Rightarrow> Chc c)"

definition needs :: "kconf \<Rightarrow> item \<Rightarrow> item list" where
  "needs k x =
     Sym sym_n # (if item_type k x = TRISTATE then [Sym sym_MODULES] else [])
     @ concat (map expr_items (case x of Sym s \<Rightarrow> sym_exprs k s | Chc c \<Rightarrow> choice_exprs k c))"

definition ranked :: "kconf \<Rightarrow> (item \<Rightarrow> nat) \<Rightarrow> bool" where
  "ranked k rr \<longleftrightarrow>
     (\<forall>x \<in> set (kitems k). \<forall>i \<in> set (needs k x).
        rr (rep k i) < rr (rep k x) \<or> i \<noteq> x \<and> i = rep k x)
     \<and> (\<forall>c \<in> set (k_choices k). \<forall>s \<in> set (ch_syms (k_chc k c)). sy_choice (k_sym k s) = Some c)
     \<and> (\<forall>s \<in> set (k_defined k). sane_sym k s)"

fun stage :: "query \<Rightarrow> nat" where
  "stage (QVis (Chc _)) = 0"
| "stage (QVis (Sym _)) = 1"
| "stage (QSel _) = 2"
| "stage (QUnsat _) = 3"
| "stage (QTri _) = 4"
| "stage (QStr _) = 5"
| "stage (QAsg _) = 6"
| "stage _ = 0"

definition qrank :: "kconf \<Rightarrow> (item \<Rightarrow> nat) \<Rightarrow> query \<Rightarrow> nat" where
  "qrank k rr q = 8 * rr (rep k (owner q)) + stage q"

text \<open>
  The queries that may be asked: \<open>assignable\<close> and the message about unsatisfied
  dependencies are only used for defined symbols.
\<close>

definition qdom :: "kconf \<Rightarrow> query \<Rightarrow> bool" where
  "qdom k q = (case q of QUnsat s \<Rightarrow> s \<in> set (k_defined k) | QAsg (Sym s) \<Rightarrow> s \<in> set (k_defined k) | _ \<Rightarrow> True)"

definition below :: "kconf \<Rightarrow> (item \<Rightarrow> nat) \<Rightarrow> kstate \<Rightarrow> nat \<Rightarrow> query \<Rightarrow> bool" where
  "below k rr st N q \<longleftrightarrow> qdom k q \<and> (kinp st q \<noteq> None \<or> qrank k rr q < N)"

lemma below_inp [simp]:
  "below k rr st N (QUser s)" "below k rr st N (QCUser c)" "below k rr st N (QCSel c)"
  by (auto simp: below_def kinp_def qdom_def)

lemma rep_Chc [simp]: "rep k (Chc c) = Chc c"
  by (simp add: rep_def)

lemma set_needs:
  "set (needs k x) = {Sym sym_n} \<union> (if item_type k x = TRISTATE then {Sym sym_MODULES} else {}) \<union> mentions k x"
  by (cases x) (simp_all add: needs_def mentions_def)

lemma rankedD:
  assumes "ranked k rr" "x \<in> set (kitems k)" "i \<in> set (needs k x)"
  shows "rr (rep k i) < rr (rep k x) \<or> i \<noteq> x \<and> i = rep k x"
  using assms by (auto simp: ranked_def)

lemma ranked_Sym:
  assumes "ranked k rr" "x \<in> set (kitems k)" "Sym t \<in> set (needs k x)"
  shows "rr (rep k (Sym t)) < rr (rep k x)"
  using rankedD [OF assms] by (auto simp: rep_def split: item.splits option.splits)

lemma choice_ready_ranked:
  assumes wf: "wf_conf k" and rk: "ranked k rr" and N: "8 * rr (Chc c) < N"
  shows "choice_ready (below k rr st N) k c"
proof -
  have "below k rr st N (QTri sym_MODULES)" if "ch_type (k_chc k c) = TRISTATE"
  proof -
    have "Chc c \<in> set (kitems k)"
      using wf_confD(7) [OF wf, of c] that by (force simp: kitems_iff Choice_def)
    then have "rr (rep k (Sym sym_MODULES)) < rr (Chc c)"
      using ranked_Sym [OF rk, of "Chc c" sym_MODULES] that by (simp add: set_needs item_type_def)
    with N show ?thesis by (simp add: below_def qdom_def qrank_def)
  qed
  with N show ?thesis by (simp add: choice_ready_def below_def qdom_def qrank_def)
qed

lemma expr_ready_ranked:
  assumes wf: "wf_conf k" and rk: "ranked k rr" and x: "x \<in> set (kitems k)" "i \<in> set (needs k x)"
    and N: "8 * rr (rep k x) \<le> N" "x \<noteq> rep k x \<Longrightarrow> 8 * rr (rep k x) < N"
  shows "expr_ready (below k rr st N) k i"
proof (cases i)
  case (Sym t)
  from ranked_Sym [OF rk x(1), of t] x Sym N show ?thesis
    by (simp add: expr_ready_def below_def qdom_def qrank_def)
next
  case (Chc c)
  with rankedD [OF rk x] N have "8 * rr (Chc c) < N" by auto
  from choice_ready_ranked [OF wf rk this] Chc show ?thesis by (simp add: expr_ready_def)
qed

lemma sym_ready_ranked:
  assumes wf: "wf_conf k" and rk: "ranked k rr" and s: "s \<in> set (k_defined k)"
    and N: "8 * rr (rep k (Sym s)) < N"
  shows "sym_ready (below k rr st N) k s"
proof -
  have x: "Sym s \<in> set (kitems k)" using s by (simp add: kitems_iff)
  have "expr_ready (below k rr st N) k i" if "i \<in> mentions k (Sym s)" for i
    by (rule expr_ready_ranked [OF wf rk x]) (use that N in \<open>auto simp: set_needs\<close>)
  then have "exprs_ready (below k rr st N) k (sym_exprs k s)"
    by (auto simp: exprs_ready_def mentions_def)
  moreover have "below k rr st N (QTri sym_MODULES)" if "sy_type (k_sym k s) = TRISTATE"
    using ranked_Sym [OF rk x, of sym_MODULES] that N
    by (simp add: set_needs item_type_def below_def qdom_def qrank_def)
  moreover have "choice_ready (below k rr st N) k c" if "sy_choice (k_sym k s) = Some c" for c
    by (rule choice_ready_ranked [OF wf rk]) (use that N in \<open>simp add: rep_def\<close>)
  ultimately show ?thesis by (simp add: sym_ready_def)
qed

lemma choice_exprs_ready_ranked:
  assumes wf: "wf_conf k" and rk: "ranked k rr" and N: "8 * rr (Chc c) \<le> N"
  shows "choice_exprs_ready (below k rr st N) k c"
proof (cases "c \<in> set (k_choices k)")
  case True
  then have x: "Chc c \<in> set (kitems k)" by (simp add: kitems_iff)
  have "expr_ready (below k rr st N) k i" if "i \<in> mentions k (Chc c)" for i
    by (rule expr_ready_ranked [OF wf rk x]) (use that N in \<open>auto simp: set_needs\<close>)
  moreover have "below k rr st N (QTri sym_MODULES)" if "ch_type (k_chc k c) = TRISTATE"
    using ranked_Sym [OF rk x, of sym_MODULES] that N
    by (simp add: set_needs item_type_def below_def qdom_def qrank_def)
  ultimately show ?thesis by (auto simp: choice_exprs_ready_def exprs_ready_def mentions_def)
next
  case False
  with wf_confD(7) [OF wf] have "k_chc k c = Choice None" by simp
  then show ?thesis
    by (simp add: choice_exprs_ready_def exprs_ready_def choice_exprs_def Choice_def prompt_conds_def)
qed

lemma selectors_ready_ranked:
  assumes wf: "wf_conf k" and rk: "ranked k rr" and s: "s \<in> set (k_defined k)"
    and N: "8 * rr (rep k (Sym s)) < N"
  shows "selectors_ready (below k rr st N) k s"
  unfolding selectors_ready_def
proof (intro allI impI ballI)
  fix t i assume t: "Sym t \<in> set (expr_items (sy_rev_dep (k_sym k s)))"
    and i: "i \<in> set (expr_items (sy_direct_dep (k_sym k t)))"
  have x: "Sym s \<in> set (kitems k)" using s by (simp add: kitems_iff)
  have less: "rr (rep k (Sym t)) < rr (rep k (Sym s))"
    by (rule ranked_Sym [OF rk x]) (use t in \<open>auto simp: set_needs mentions_def sym_exprs_def Let_def\<close>)
  show "expr_ready (below k rr st N) k i"
  proof (cases "t \<in> set (k_defined k)")
    case True
    then have "Sym t \<in> set (kitems k)" by (simp add: kitems_iff)
    then show ?thesis
      by (rule expr_ready_ranked [OF wf rk])
        (use i less N in \<open>auto simp: set_needs mentions_def sym_exprs_def Let_def\<close>)
  next
    case False
    with wf_confD(14) [OF wf] i have "i = Sym sym_n" by simp
    then show ?thesis
      by (intro expr_ready_ranked [OF wf rk x]) (use N in \<open>auto simp: set_needs\<close>)
  qed
qed

subsection \<open>Every property has a value\<close>

lemma kruns_undefined:
  assumes wf: "wf_conf k" and s: "s \<notin> set (k_defined k)" and P: "P (QTri s)"
  shows "kruns F P k (\<lambda>(v, w). kgood k (QTri s) (ATri v w)) (sym_tri_value k s)"
    "kruns F P k (\<lambda>(t, w). kgood k (QStr s) (AStr t w)) (sym_str_value k s)"
    "kruns F P k (\<lambda>v. kgood k (QVis (Sym s)) (AVis v)) (sym_visibility k s)"
proof -
  note u = wf_confD(4,5,6) [OF wf s]
  show "kruns F P k (\<lambda>(v, w). kgood k (QTri s) (ATri v w)) (sym_tri_value k s)"
    using u(3) by (auto simp: sym_tri_value_def Let_def kgood_def bool_tristate_def tri_def sym_consts)
  show "kruns F P k (\<lambda>(t, w). kgood k (QStr s) (AStr t w)) (sym_str_value k s)"
    using u(3) P by (auto simp: sym_str_value_def Let_def kgood_def bool_tristate_def TRI_TO_STR_def STR_TO_TRI_def)
  show "kruns F P k (\<lambda>v. kgood k (QVis (Sym s)) (AVis v)) (sym_visibility k s)"
    using u(1,2) by (simp add: sym_visibility_def prompt_vis_def promote_vis_def kgood_def)
qed

lemma wf_sane_choice: "wf_conf k \<Longrightarrow> sane_choice k c"
  unfolding sane_choice_def using wf_confD(11) by blast

definition before :: "kconf \<Rightarrow> (item \<Rightarrow> nat) \<Rightarrow> kstate \<Rightarrow> query \<Rightarrow> query \<Rightarrow> bool" where
  "before k rr st q = below k rr st (qrank k rr q)"

lemma kruns_ranked_Sym:
  assumes wf: "wf_conf k" and rk: "ranked k rr" and s: "s \<in> set (k_defined k)"
  shows "kruns F (before k rr st (QTri s)) k (\<lambda>(v, w). kgood k (QTri s) (ATri v w)) (sym_tri_value k s)"
    "kruns F (before k rr st (QStr s)) k (\<lambda>(t, w). kgood k (QStr s) (AStr t w)) (sym_str_value k s)"
    "kruns F (before k rr st (QVis (Sym s))) k (\<lambda>v. kgood k (QVis (Sym s)) (AVis v)) (sym_visibility k s)"
    "kruns F (before k rr st (QAsg (Sym s))) k (\<lambda>vs. \<forall>v \<in> set vs. tri v) (sym_assignable k s)"
    "kruns F (before k rr st (QUnsat s)) k (\<lambda>_. True) (warn_select_unsatisfied k s)"
proof -
  note ready = sym_ready_ranked [OF wf rk s]
  have sane: "F \<or> sane_sym k s" using rk s by (simp add: ranked_def)
  show "kruns F (before k rr st (QTri s)) k (\<lambda>(v, w). kgood k (QTri s) (ATri v w)) (sym_tri_value k s)"
    unfolding before_def
    by (rule kruns_sym_tri_value [OF ready]) (use s in \<open>auto simp: qrank_def below_def qdom_def kinp_def rep_def\<close>)
  show "kruns F (before k rr st (QStr s)) k (\<lambda>(t, w). kgood k (QStr s) (AStr t w)) (sym_str_value k s)"
    unfolding before_def
    by (rule kruns_sym_str_value [OF ready _ _ _ sane]) (auto simp: qrank_def below_def qdom_def kinp_def)
  show "kruns F (before k rr st (QVis (Sym s))) k (\<lambda>v. kgood k (QVis (Sym s)) (AVis v)) (sym_visibility k s)"
    unfolding before_def by (rule kruns_sym_visibility [OF ready]) (auto simp: qrank_def)
  show "kruns F (before k rr st (QAsg (Sym s))) k (\<lambda>vs. \<forall>v \<in> set vs. tri v) (sym_assignable k s)"
    unfolding before_def by (rule kruns_sym_assignable [OF ready]) (auto simp: qrank_def below_def qdom_def)
  show "kruns F (before k rr st (QUnsat s)) k (\<lambda>_. True) (warn_select_unsatisfied k s)"
    unfolding before_def
    by (rule kruns_warn_select [OF ready selectors_ready_ranked [OF wf rk s] sane]) (auto simp: qrank_def)
qed

lemma kruns_ranked_Chc:
  assumes wf: "wf_conf k" and rk: "ranked k rr"
  shows "kruns F (before k rr st (QVis (Chc c))) k (\<lambda>v. kgood k (QVis (Chc c)) (AVis v)) (choice_visibility k c)"
    "kruns F (before k rr st (QAsg (Chc c))) k (\<lambda>vs. \<forall>v \<in> set vs. tri v) (choice_assignable k c)"
    "kruns F (before k rr st (QSel c)) k (\<lambda>_. True) (choice_selection k c)"
proof -
  note ready = choice_exprs_ready_ranked [OF wf rk] choice_ready_ranked [OF wf rk]
  show "kruns F (before k rr st (QVis (Chc c))) k (\<lambda>v. kgood k (QVis (Chc c)) (AVis v)) (choice_visibility k c)"
    unfolding before_def by (rule kruns_choice_visibility [OF ready(1)]) (simp add: qrank_def)
  have "choice_ready (before k rr st (QAsg (Chc c))) k c"
    unfolding before_def by (rule ready(2)) (simp add: qrank_def)
  then show "kruns F (before k rr st (QAsg (Chc c))) k (\<lambda>vs. \<forall>v \<in> set vs. tri v) (choice_assignable k c)"
    by (intro kruns_choice_assignable) (auto simp: choice_ready_def)
  have syms: "before k rr st (QSel c) (QVis (Sym s))" if "s \<in> set (ch_syms (k_chc k c))" for s
  proof -
    have "c \<in> set (k_choices k)" using wf_confD(7) [OF wf, of c] that by (force simp: Choice_def)
    with rk that have "sy_choice (k_sym k s) = Some c" by (simp add: ranked_def)
    then show ?thesis by (simp add: before_def below_def qdom_def qrank_def rep_def)
  qed
  show "kruns F (before k rr st (QSel c)) k (\<lambda>_. True) (choice_selection k c)"
  proof (rule kruns_choice_selection)
    show "choice_exprs_ready (before k rr st (QSel c)) k c" "choice_ready (before k rr st (QSel c)) k c"
      unfolding before_def by (rule ready; simp add: qrank_def)+
  qed (use syms wf_confD(11) [OF wf] wf_sane_choice [OF wf] in \<open>auto simp: before_def dest!: wf_confD(11) [OF wf]\<close>)
qed

lemma kruns_ranked:
  assumes wf: "wf_conf k" and rk: "ranked k rr" and q: "kinp st q = None" "qdom k q"
  shows "runs False (\<lambda>q'. qdom k q' \<and> (kinp st q' \<noteq> None \<or> qrank k rr q' < qrank k rr q)) (kgood k) (kgood k q) (kbody k q)"
proof -
  define P where "P = before k rr st"
  have P: "(\<lambda>q'. qdom k q' \<and> (kinp st q' \<noteq> None \<or> qrank k rr q' < qrank k rr q)) = P q"
    by (simp add: P_def before_def below_def fun_eq_iff)
  note c = kruns_ranked_Chc [OF wf rk, where st = st and F = False, folded P_def]
  note s = kruns_ranked_Sym [OF wf rk, where st = st and F = False, folded P_def]
  note u = kruns_undefined [OF wf, where F = False]
  show ?thesis
    unfolding P
  proof (cases q)
    case (QTri t)
    have "kruns False (P (QTri t)) k (\<lambda>(v, w). kgood k (QTri t) (ATri v w)) (sym_tri_value k t)"
    proof (cases "t \<in> set (k_defined k)")
      case False
      from wf_confD(4,5,6) [OF wf False] show ?thesis
        by (auto simp: sym_tri_value_def Let_def kgood_def bool_tristate_def tri_def sym_consts)
    qed (use s in auto)
    with QTri show "kruns False (P q) k (kgood k q) (kbody k q)"
      by (auto simp: kbody_def intro: runs_cbind)
  next
    case (QStr t)
    have "kruns False (P (QStr t)) k (\<lambda>(v, w). kgood k (QStr t) (AStr v w)) (sym_str_value k t)"
      by (cases "t \<in> set (k_defined k)") (use s u in \<open>auto simp: P_def before_def below_def qdom_def qrank_def\<close>)
    with QStr show "kruns False (P q) k (kgood k q) (kbody k q)"
      by (auto simp: kbody_def intro: runs_cbind)
  next
    case (QVis i)
    have sym: "kruns False (P (QVis (Sym t))) k (\<lambda>v. kgood k (QVis (Sym t)) (AVis v)) (sym_visibility k t)" for t
    proof (cases "t \<in> set (k_defined k)")
      case False
      from wf_confD(4,5) [OF wf False] show ?thesis
        by (simp add: sym_visibility_def prompt_vis_def promote_vis_def kgood_def)
    qed (use s in auto)
    with QVis c show "kruns False (P q) k (kgood k q) (kbody k q)"
      by (cases i) (auto simp: kbody_def intro: runs_cbind [OF sym] runs_cbind [OF c(1)])
  next
    case (QAsg i)
    with q show "kruns False (P q) k (kgood k q) (kbody k q)"
      by (cases i) (auto simp: kbody_def kgood_def qdom_def intro: runs_cbind [OF s(4)] runs_cbind [OF c(2)])
  next
    case (QUnsat t)
    then have "t \<in> set (k_defined k)" using q by (simp add: qdom_def)
    then have "kruns False (P (QUnsat t)) k (kgood k (QUnsat t))
        (cbind (warn_select_unsatisfied k t) (\<lambda>v. Ret (AStr v False)))"
      by (intro runs_cbind [OF s(5)]) (auto simp: kgood_def)
    with QUnsat show "kruns False (P q) k (kgood k q) (kbody k q)" by (simp add: kbody_def)
  qed (use q in \<open>auto simp: kbody_def kinp_def kgood_def intro: runs_cbind [OF c(3)]\<close>)
qed

lemma evaluation_returns:
  assumes "wf_conf k" "ranked k rr" "users_ok k st" "qdom k q"
  shows "\<exists>a. eval (kbody k) (kinp st) (Suc (qrank k rr q)) q = Some a \<and> kgood k q a"
  by (rule eval_ranked [where D = "qdom k" and rk = "qrank k rr" and G = "kgood k",
        OF kruns_ranked [OF assms(1,2)] kinp_good [OF assms(3)] assms(4) lessI])

subsection \<open>Sequences of operations\<close>

text \<open>
  What a front end does with a configuration: it sets and unsets values and reads properties,
  in any order. \<open>n\<close> bounds the recursion depth of the reads.
\<close>

datatype kop =
    OSet nat uval
  | OUnset nat
  | OCSet nat uval
  | OCUnset nat
  | OUnsetAll
  | ORead query

definition kop_step :: "nat \<Rightarrow> kconf \<Rightarrow> kop \<Rightarrow> kstate \<Rightarrow> kstate option" where
  "kop_step n k op st =
     (case op of
        OSet s v \<Rightarrow> Some (snd (set_value k s v st))
      | OUnset s \<Rightarrow> Some (unset_value k s st)
      | OCSet c v \<Rightarrow> Some (snd (choice_set_value k c v st))
      | OCUnset c \<Rightarrow> Some (choice_unset_value k c st)
      | OUnsetAll \<Rightarrow> Some (unset_values k st)
      | ORead q \<Rightarrow> map_option snd (kask n k (Ask q Ret) st))"

primrec kops :: "nat \<Rightarrow> kconf \<Rightarrow> kop list \<Rightarrow> kstate \<Rightarrow> kstate option" where
  "kops n k [] st = Some st"
| "kops n k (op # ops) st = Option.bind (kop_step n k op st) (kops n k ops)"

definition kop_ok :: "kconf \<Rightarrow> kop \<Rightarrow> bool" where
  "kop_ok k op =
     (case op of
        OCSet c _ \<Rightarrow> c \<in> set (k_choices k)
      | OCUnset c \<Rightarrow> c \<in> set (k_choices k)
      | ORead q \<Rightarrow> kstored q \<and> qdom k q
      | _ \<Rightarrow> True)"

lemma fold_warn_msg [simp]:
  "kst_ok k (fold warn_msg ws st) = kst_ok k st" "users_ok k (fold warn_msg ws st) = users_ok k st"
  "kinp (fold warn_msg ws st) = kinp st"
proof (induction ws arbitrary: st)
  case (Cons w ws)
  case 2 show ?case using Cons(2) by (simp add: users_ok_def warn_msg_def)
next
  case (Cons w ws)
  case 3 show ?case using Cons(3) by (simp add: kinp_def fun_eq_iff warn_msg_def split: query.splits)
qed simp_all

lemma kinp_cache [simp]: "kinp (st\<lparr>ks_cache := m\<rparr>) = kinp st"
  by (simp add: kinp_def fun_eq_iff split: query.splits)

lemma users_ok_cache [simp]: "users_ok k (st\<lparr>ks_cache := m\<rparr>) = users_ok k st"
  by (simp add: users_ok_def)

lemma kask_ok:
  assumes ok: "kst_ok k st" and asks: "asks_only (\<lambda>q. kstored q \<or> kinp st q \<noteq> None) c"
    and run: "kask n k c st = Some (r, st')"
  shows "kst_ok k st'" "sem (kbody k) (kinp st) c r" "kinp st' = kinp st" "users_ok k st' = users_ok k st"
proof -
  from run obtain m ws where r: "kc.run n k st c (ks_cache st, []) = Some (r, m, ws)"
    and st': "st' = fold warn_msg ws (st\<lparr>ks_cache := m\<rparr>)"
    by (auto simp: kask_def kc.run_def split: option.splits)
  have m: "cache_ok (kbody k) (kinp st) m" "sem (kbody k) (kinp st) c r" "only_stored kstored m"
    using kc.run_sound [OF _ asks r] kc.run_stored [OF _ r] ok by (auto simp: kst_ok_def)
  then have "kst_ok k (st\<lparr>ks_cache := m\<rparr>)" using ok by (simp add: kst_ok_def)
  with m show "kst_ok k st'" "sem (kbody k) (kinp st) c r" "kinp st' = kinp st" "users_ok k st' = users_ok k st"
    by (simp_all add: st')
qed

lemma kask_returns:
  assumes wf: "wf_conf k" and rk: "ranked k rr" and us: "users_ok k st" and ok: "kst_ok k st"
    and c: "kruns False (below k rr st n) k R c" "asks_only (\<lambda>q. kstored q \<or> kinp st q \<noteq> None) c"
  shows "kask n k c st \<noteq> None"
proof -
  have "kc.run n k st c (ks_cache st, []) \<noteq> None"
    by (rule kc.run_returns [where D = "qdom k" and rk = "qrank k rr" and G = "kgood k",
          OF kruns_ranked [OF wf rk] kinp_good [OF us] c(1) [unfolded below_def] c(2)])
      (use ok in \<open>auto simp: kst_ok_def\<close>)
  then show ?thesis by (auto simp: kask_def kc.run_def split: option.splits)
qed

lemma invalidate_deps_users [simp]:
  "ks_user (invalidate_deps k is st) = ks_user st"
  "ks_cuser (invalidate_deps k is st) = ks_cuser st"
  "ks_csel (invalidate_deps k is st) = ks_csel st"
  by (induction k "is" st rule: invalidate_deps.induct; subst invalidate_deps.simps;
      simp add: invalidate_def invalidate_all_def)+

lemma rec_invalidate_users [simp]:
  "users_ok k (rec_invalidate k i st) = users_ok k st"
  by (simp add: rec_invalidate_def invalidate_all_def users_ok_def) (simp add: invalidate_def)

lemma users_ok_warn [simp]: "users_ok k (warn_msg w st) = users_ok k st"
  by (simp add: users_ok_def warn_msg_def)

lemma if_has_prompt_users [simp]:
  "users_ok k (rec_invalidate_if_has_prompt k s st) = users_ok k st"
  by (simp add: rec_invalidate_if_has_prompt_def)

lemma valid_tri: "valid_value ty (UTri z) \<Longrightarrow> tri z"
  by (auto simp: valid_value_def)

lemma set_value_users:
  assumes "wf_conf k" "users_ok k st"
  shows "users_ok k (snd (set_value k s v st))" "users_ok k (unset_value k s st)"
    "users_ok k (snd (choice_set_value k c v st))" "users_ok k (choice_unset_value k c st)"
proof -
  show "users_ok k (snd (set_value k s v st))"
    using assms(2) wf_confD(9) [OF assms(1)]
    by (auto simp: set_value_def Let_def split: option.splits) (auto simp: users_ok_def)
qed (use assms(2) in \<open>auto simp: unset_value_def choice_set_value_def choice_unset_value_def Let_def split: uval.splits\<close>,
     auto simp: users_ok_def dest: valid_tri)

lemma unset_values_ok:
  assumes wf: "wf_conf k" and ok: "kst_ok k st" "users_ok k st"
  shows "kst_ok k (unset_values k st)" "users_ok k (unset_values k st)"
proof -
  have 1: "kst_ok k (fold (unset_value k) ss st) \<and> users_ok k (fold (unset_value k) ss st)"
    if "kst_ok k st" "users_ok k st" for ss st
    using that by (induction ss arbitrary: st) (auto intro: unset_value_ok [OF wf] set_value_users [OF wf])
  have 2: "kst_ok k (fold (choice_unset_value k) cs st) \<and> users_ok k (fold (choice_unset_value k) cs st)"
    if "kst_ok k st" "users_ok k st" "set cs \<subseteq> set (k_choices k)" for cs st
    using that by (induction cs arbitrary: st) (auto intro: choice_unset_value_ok [OF wf] set_value_users [OF wf])
  have 3: "kst_ok k (st\<lparr>ks_warn_no_prompt := b\<rparr>)" if "kst_ok k st" for st b
    by (rule kst_ok_cong [THEN iffD2, OF _ _ _ _ that]) simp_all
  have 4: "users_ok k (st\<lparr>ks_warn_no_prompt := b\<rparr>) = users_ok k st" for st b
    by (simp add: users_ok_def)
  show "kst_ok k (unset_values k st)" "users_ok k (unset_values k st)"
    unfolding unset_values_def Let_def using 1 2 3 4 ok by simp_all
qed

lemma kop_step_ok:
  assumes wf: "wf_conf k" and ok: "kst_ok k st" "users_ok k st" and op: "kop_ok k op"
    and step: "kop_step n k op st = Some st'"
  shows "kst_ok k st'" "users_ok k st'"
proof -
  have "kst_ok k st' \<and> users_ok k st'"
  proof (cases op)
    case (ORead q)
    then obtain a where "kask n k (Ask q Ret) st = Some (a, st')"
      using step by (auto simp: kop_step_def)
    then show ?thesis using kask_ok [OF ok(1), of "Ask q Ret" n a st'] ok op ORead by (simp add: kop_ok_def)
  qed (use step ok op in \<open>auto simp: kop_step_def kop_ok_def set_value_users [OF wf] unset_values_ok [OF wf]
      set_value_ok [OF wf] unset_value_ok [OF wf] choice_set_value_ok [OF wf] choice_unset_value_ok [OF wf]\<close>)
  then show "kst_ok k st'" "users_ok k st'" by auto
qed

lemma kops_ok:
  "wf_conf k \<Longrightarrow> kst_ok k st \<Longrightarrow> users_ok k st \<Longrightarrow> \<forall>op \<in> set ops. kop_ok k op \<Longrightarrow>
     kops n k ops st = Some st' \<Longrightarrow> kst_ok k st' \<and> users_ok k st'"
proof (induction ops arbitrary: st)
  case (Cons op ops)
  from Cons.prems(5) obtain st1 where st1: "kop_step n k op st = Some st1" "kops n k ops st1 = Some st'"
    by (auto simp: bind_eq_Some_conv)
  from kop_step_ok [OF Cons.prems(1,2,3) _ st1(1)] Cons.IH [OF Cons.prems(1) _ _ _ st1(2)] Cons.prems(4)
  show ?case by simp
qed simp

lemma kops_return:
  assumes wf: "wf_conf k" and rk: "ranked k rr"
  shows "kst_ok k st \<Longrightarrow> users_ok k st \<Longrightarrow> \<forall>op \<in> set ops. kop_ok k op \<Longrightarrow>
     \<forall>q. ORead q \<in> set ops \<longrightarrow> qrank k rr q < n \<Longrightarrow> kops n k ops st \<noteq> None"
proof (induction ops arbitrary: st)
  case (Cons op ops)
  have "kop_step n k op st \<noteq> None"
  proof (cases op)
    case (ORead q)
    with Cons.prems have "kask n k (Ask q Ret) st \<noteq> None"
      by (intro kask_returns [OF wf rk, where R = "\<lambda>_. True"]) (auto simp: below_def kop_ok_def)
    with ORead show ?thesis by (simp add: kop_step_def)
  qed (auto simp: kop_step_def)
  then obtain st1 where st1: "kop_step n k op st = Some st1" by auto
  with kop_step_ok [OF wf Cons.prems(1,2) _ st1] Cons.IH [of st1] Cons.prems(3,4) show ?case by simp
qed simp

lemma init_ok: "kst_ok k kstate_init" "users_ok k kstate_init"
  by (auto simp: kst_ok_def users_ok_def kstate_init_def cache_ok_def sound_def closed_def only_stored_def)

lemma read_value:
  assumes "kst_ok k st" "kstored q" "kask n k (Ask q Ret) st = Some (a, st')"
  shows "has (kbody k) (kinp st) q a"
  using kask_ok(2) [OF assms(1) _ assms(3)] assms(2) by (simp add: sem_Ask)

end
