(* ===== verification/Kc_Loop.thy ===== *)
theory Kc_Loop
  imports Kc_Total
begin

text \<open>
  The dependency-loop check of \<open>Kconfig._init\<close>: it ends, a loop it reports is a loop, and
  for a configuration without choices it finds every loop, so that a configuration that
  passes has a value for every property.
\<close>

subsection \<open>The check ends\<close>

definition unvisited :: "kconf \<Rightarrow> (item \<Rightarrow> nat) \<Rightarrow> nat" where
  "unvisited k vis = card {i \<in> set (kitems k). vis i = 0}"

lemma unvisited_mono: "(\<And>i. vis i \<noteq> 0 \<Longrightarrow> vis' i \<noteq> 0) \<Longrightarrow> unvisited k vis' \<le> unvisited k vis"
  unfolding unvisited_def by (rule card_mono) (auto, metis neq0_conv)

lemma unvisited_mark:
  "i \<in> set (kitems k) \<Longrightarrow> vis i = 0 \<Longrightarrow> unvisited k (vis(i := Suc 0)) < unvisited k vis"
  unfolding unvisited_def by (rule psubset_card_mono) auto

lemma loop_calls_items:
  assumes wf: "wf_conf k" and x: "call_item x \<in> set (kitems k)" and y: "y \<in> set (loop_calls k (build_dep k) x)"
  shows "call_item y \<in> set (kitems k)"
proof (cases x)
  case (LSym s b)
  have "d \<in> set (kitems k)" if "d \<in> set (build_dep k (Sym s))" for d
    using that by (simp add: build_dep_iff)
  then show ?thesis
    using y wf_confD(8) [OF wf] LSym
    by (fastforce simp: loop_calls_def call_item_def dep_call_def kitems_iff split: option.splits if_splits item.splits)
qed (use y wf_confD(15) [OF wf] in \<open>auto simp: loop_calls_def call_item_def kitems_iff\<close>)

definition ends ::
  "kconf \<Rightarrow> nat \<Rightarrow> (loop_call \<Rightarrow> (item \<Rightarrow> nat) \<Rightarrow> (loop_res \<times> (item \<Rightarrow> nat)) option) \<Rightarrow> bool" where
  "ends k n f \<longleftrightarrow>
     (\<forall>x vis. call_item x \<in> set (kitems k) \<longrightarrow> unvisited k vis < n \<longrightarrow>
        (\<exists>r vis'. f x vis = Some (r, vis') \<and> (\<forall>i. vis i \<noteq> 0 \<longrightarrow> vis' i \<noteq> 0)))"

lemma first_loop_ends:
  assumes f: "ends k n f"
  shows "\<forall>y \<in> set xs. call_item y \<in> set (kitems k) \<Longrightarrow> unvisited k vis < n \<Longrightarrow>
     \<exists>r vis'. first_loop f cur xs vis = Some (r, vis') \<and> (\<forall>i. vis i \<noteq> 0 \<longrightarrow> vis' i \<noteq> 0)"
proof (induction xs arbitrary: vis)
  case (Cons x xs)
  from Cons.prems obtain r vis1 where r: "f x vis = Some (r, vis1)" "\<forall>i. vis i \<noteq> 0 \<longrightarrow> vis1 i \<noteq> 0"
    using f [unfolded ends_def, rule_format, of x vis] by auto
  with Cons.prems(2) unvisited_mono [of vis vis1 k] have "unvisited k vis1 < n" by simp
  with Cons r show ?case by (cases r) fastforce+
qed simp

lemma check_dep_loop_ends: "wf_conf k \<Longrightarrow> ends k n (check_dep_loop n k (build_dep k))"
proof (induction n)
  case (Suc n)
  show ?case
    unfolding ends_def
  proof (intro allI impI)
    fix x vis assume x: "call_item x \<in> set (kitems k)" and n: "unvisited k vis < Suc n"
    let ?i = "call_item x"
    show "\<exists>r vis'. check_dep_loop (Suc n) k (build_dep k) x vis = Some (r, vis')
        \<and> (\<forall>i. vis i \<noteq> 0 \<longrightarrow> vis' i \<noteq> 0)"
    proof (cases "vis ?i = 0")
      case True
      obtain r vis' where "first_loop (check_dep_loop n k (build_dep k)) ?i (loop_calls k (build_dep k) x)
          (vis(?i := Suc 0)) = Some (r, vis')" "\<And>i. (vis(?i := Suc 0)) i \<noteq> 0 \<Longrightarrow> vis' i \<noteq> 0"
        using first_loop_ends [OF Suc.IH [OF Suc.prems], of "loop_calls k (build_dep k) x" "vis(?i := Suc 0)" ?i]
          loop_calls_items [OF Suc.prems x] unvisited_mark [OF x, of vis] True n by auto
      with True show ?thesis by (cases r) (fastforce simp: Let_def)+
    qed (auto simp: Let_def)
  qed
qed (simp add: ends_def)

lemma check_dep_loops_ends:
  assumes wf: "wf_conf k"
  shows "\<exists>r vis. check_dep_loops k = Some (r, vis)"
proof -
  let ?f = "\<lambda>s r. case r of
      Some (NoLoop, vis) \<Rightarrow> check_dep_loop (Suc (length (kitems k))) k (build_dep k) (LSym s False) vis | _ \<Rightarrow> r"
  have le: "unvisited k vis \<le> length (kitems k)" for vis
  proof -
    have "unvisited k vis \<le> card (set (kitems k))" unfolding unvisited_def by (rule card_mono) auto
    also have "\<dots> \<le> length (kitems k)" by (rule card_length)
    finally show ?thesis .
  qed
  have "\<exists>r vis. fold ?f ss (Some (r0, vis0)) = Some (r, vis)" if "set ss \<subseteq> set (k_defined k)" for ss r0 vis0
    using that
  proof (induction ss arbitrary: r0 vis0)
    case (Cons s ss)
    have "\<exists>r vis. check_dep_loop (Suc (length (kitems k))) k (build_dep k) (LSym s False) vis0 = Some (r, vis)"
      using check_dep_loop_ends [OF wf, of "Suc (length (kitems k))", unfolded ends_def, rule_format, of "LSym s False" vis0]
        Cons.prems le [of vis0]
      by (auto simp: call_item_def kitems_iff simp del: check_dep_loop.simps)
    with Cons show ?case by (cases r0) (auto simp del: check_dep_loop.simps)
  qed simp
  then show ?thesis unfolding check_dep_loops_def by simp
qed

subsection \<open>A reported loop is a loop\<close>

text \<open>The steps of the search: from a call to the calls it makes, as a relation on the items.\<close>

definition call_rel :: "kconf \<Rightarrow> (item \<times> item) set" where
  "call_rel k = {(call_item x, call_item y) | x y. y \<in> set (loop_calls k (build_dep k) x)}"

text \<open>A result of a call for the item \<open>i\<close> that was entered with the marks \<open>vis\<close>.\<close>

definition loop_part :: "kconf \<Rightarrow> item \<Rightarrow> loop_res \<Rightarrow> bool" where
  "loop_part k i r =
     (case r of
        NoLoop \<Rightarrow> True
      | LoopPart loop \<Rightarrow> loop \<noteq> [] \<and> last loop = i \<and> successively (\<lambda>a b. (b, a) \<in> call_rel k) loop
      | DepLoop loop \<Rightarrow>
          loop \<noteq> [] \<and> successively (\<lambda>a b. (b, a) \<in> call_rel k) loop \<and> (hd loop, last loop) \<in> call_rel k)"

lemma found_dep_loop_part:
  assumes "loop_part k j (LoopPart loop)" "(i, j) \<in> call_rel k"
  shows "loop_part k i (found_dep_loop loop i)"
  using assms by (auto simp: loop_part_def found_dep_loop_def successively_append_iff)

lemma first_loop_part:
  assumes f: "\<And>x vis r vis'. f x vis = Some (r, vis') \<Longrightarrow> loop_part k (call_item x) r"
  shows "\<forall>y \<in> set xs. (i, call_item y) \<in> call_rel k \<Longrightarrow> first_loop f i xs vis = Some (r, vis') \<Longrightarrow> loop_part k i r"
proof (induction xs arbitrary: vis)
  case (Cons x xs)
  from Cons.prems(2) obtain r1 vis1 where r1: "f x vis = Some (r1, vis1)" by (cases "f x vis") auto
  have edge: "(i, call_item x) \<in> call_rel k" using Cons.prems(1) by simp
  show ?case
  proof (cases r1)
    case (LoopPart loop)
    with Cons.prems(2) r1 found_dep_loop_part [OF _ edge, of loop] f [OF r1] show ?thesis by simp
  next
    case (DepLoop loop)
    with Cons.prems(2) r1 f [OF r1] show ?thesis by (auto simp: loop_part_def)
  qed (use Cons r1 in auto)
qed (simp add: loop_part_def)

lemma check_dep_loop_part:
  "check_dep_loop n k (build_dep k) x vis = Some (r, vis') \<Longrightarrow> loop_part k (call_item x) r"
proof (induction n arbitrary: x vis r vis')
  case (Suc n)
  let ?calls = "loop_calls k (build_dep k) x"
  have edges: "\<forall>y \<in> set ?calls. (call_item x, call_item y) \<in> call_rel k" by (auto simp: call_rel_def)
  show ?case
  proof (cases "vis (call_item x) = 0")
    case True
    with Suc.prems obtain r1 vis1 where
      r1: "first_loop (check_dep_loop n k (build_dep k)) (call_item x) ?calls (vis(call_item x := 1)) = Some (r1, vis1)"
      by (auto simp: Let_def split: option.splits)
    have "loop_part k (call_item x) r1" by (rule first_loop_part [OF _ edges r1]) (rule Suc.IH)
    with Suc.prems True r1 show ?thesis by (cases r1) (auto simp: Let_def loop_part_def)
  qed (use Suc.prems in \<open>auto simp: Let_def loop_part_def split: if_splits\<close>)
qed simp

lemma check_dep_loops_part:
  assumes "check_dep_loops k = Some (r, vis)"
  shows "r = NoLoop \<or> (\<exists>i. loop_part k i r)"
proof -
  let ?f = "\<lambda>s r. case r of
      Some (NoLoop, vis) \<Rightarrow> check_dep_loop (Suc (length (kitems k))) k (build_dep k) (LSym s False) vis | _ \<Rightarrow> r"
  have "fold ?f ss r0 = Some (r, vis) \<Longrightarrow> (\<And>r vis. r0 = Some (r, vis) \<Longrightarrow> \<exists>i. loop_part k i r) \<Longrightarrow>
      \<exists>i. loop_part k i r" for ss r0
  proof (induction ss arbitrary: r0)
    case (Cons s ss)
    from Cons.prems(1) show ?case
    proof (simp del: check_dep_loop.simps, elim Cons.IH)
      fix r vis assume "?f s r0 = Some (r, vis)"
      then show "\<exists>i. loop_part k i r"
        using Cons.prems(2)
        by (auto dest!: check_dep_loop_part simp del: check_dep_loop.simps split: option.splits prod.splits loop_res.splits)
    qed
  qed auto
  from this [OF assms [unfolded check_dep_loops_def]] show ?thesis by (auto simp: loop_part_def)
qed

subsection \<open>Without choices every loop is found\<close>

definition dep_rel :: "kconf \<Rightarrow> (item \<times> item) set" where
  "dep_rel k = {(i, j). j \<in> set (build_dep k i)}"

lemma acyclic_insert_source:
  assumes ac: "acyclic (Restr E S)" and closed: "E `` S \<subseteq> S" "E `` {i} \<subseteq> S" and i: "i \<notin> S"
  shows "acyclic (Restr E (insert i S))"
proof (rule acyclicI, rule allI, rule notI)
  let ?R = "Restr E (insert i S)"
  have target: "b \<in> S" if "(a, b) \<in> ?R\<^sup>+" for a b using that closed by cases auto
  have stay: "(a, b) \<in> (Restr E S)\<^sup>+" if "(a, b) \<in> ?R\<^sup>+" "a \<in> S" for a b
    using that(1)
  proof (induction rule: trancl_induct)
    case (base b)
    then show ?case using that(2) closed by auto
  next
    case (step b c)
    then have "b \<in> S" by (simp add: target)
    with step closed have "(b, c) \<in> Restr E S" by auto
    with step.IH show ?case by (rule trancl_into_trancl)
  qed
  fix a assume "(a, a) \<in> ?R\<^sup>+"
  with stay [of a a] target [of a a] ac show False by (auto simp: acyclic_def)
qed

definition dfs_inv :: "kconf \<Rightarrow> (item \<Rightarrow> nat) \<Rightarrow> bool" where
  "dfs_inv k vis \<longleftrightarrow> dep_rel k `` {i. vis i = 2} \<subseteq> {i. vis i = 2} \<and> acyclic (Restr (dep_rel k) {i. vis i = 2})"

definition dfs_post :: "kconf \<Rightarrow> item set \<Rightarrow> (item \<Rightarrow> nat) \<Rightarrow> loop_res \<Rightarrow> (item \<Rightarrow> nat) \<Rightarrow> bool" where
  "dfs_post k I vis r vis' =
     (case r of
        NoLoop \<Rightarrow> dfs_inv k vis' \<and> (\<forall>i \<in> I. vis' i = 2) \<and> (\<forall>i. vis' i = vis i \<or> vis i = 0 \<and> vis' i = 2)
      | LoopPart loop \<Rightarrow> loop \<noteq> [] \<and> vis (hd loop) \<notin> {0, 2}
      | DepLoop _ \<Rightarrow> True)"

lemma first_loop_post:
  assumes f: "\<And>x vis r vis'. x \<in> set xs \<Longrightarrow> f x vis = Some (r, vis') \<Longrightarrow> dfs_inv k vis \<Longrightarrow>
      dfs_post k {call_item x} vis r vis'"
  shows "first_loop f cur xs vis = Some (r, vis') \<Longrightarrow> dfs_inv k vis \<Longrightarrow>
     dfs_post k (call_item ` set xs) vis r vis' \<and> (\<forall>loop. r = LoopPart loop \<longrightarrow> hd loop \<noteq> cur)"
  using f
proof (induction xs arbitrary: vis)
  case (Cons x xs)
  from Cons.prems(1) obtain r1 vis1 where r1: "f x vis = Some (r1, vis1)" by (cases "f x vis") auto
  have post: "dfs_post k {call_item x} vis r1 vis1" by (rule Cons.prems(3) [OF _ r1 Cons.prems(2)]) simp
  show ?case
  proof (cases r1)
    case NoLoop
    with post have 1: "dfs_inv k vis1" "vis1 (call_item x) = 2" "\<And>i. vis1 i = vis i \<or> vis i = 0 \<and> vis1 i = 2"
      by (auto simp: dfs_post_def)
    have "first_loop f cur xs vis1 = Some (r, vis')" using Cons.prems(1) r1 NoLoop by simp
    from Cons.IH [OF this 1(1) Cons.prems(3)] have
      2: "dfs_post k (call_item ` set xs) vis1 r vis'" "\<forall>loop. r = LoopPart loop \<longrightarrow> hd loop \<noteq> cur" by auto
    have "vis1 i \<notin> {0, 2} \<Longrightarrow> vis i \<notin> {0, 2}" for i using 1(3) [of i] by auto
    moreover have "vis' i = vis i \<or> vis i = 0 \<and> vis' i = 2" if "vis' i = vis1 i \<or> vis1 i = 0 \<and> vis' i = 2" for i
      using 1(3) [of i] that by auto
    moreover have "vis' (call_item x) = 2" if "vis' (call_item x) = vis1 (call_item x) \<or> vis1 (call_item x) = 0"
      using 1(2) that by auto
    ultimately show ?thesis using 1(1) 2 by (cases r) (auto simp: dfs_post_def)
  next
    case (LoopPart loop)
    with post Cons.prems(1) r1 show ?thesis
      by (cases "cur = hd loop") (auto simp: dfs_post_def found_dep_loop_def)
  qed (use Cons.prems(1) r1 in \<open>auto simp: dfs_post_def\<close>)
qed (auto simp: dfs_post_def)

lemma loop_calls_free:
  assumes wf: "wf_conf k" and free: "k_choices k = []"
  shows "set (loop_calls k (build_dep k) (LSym s b)) = (\<lambda>t. LSym t False) ` {t. (Sym s, Sym t) \<in> dep_rel k}"
    "(i, j) \<in> dep_rel k \<Longrightarrow> \<exists>t \<in> set (k_defined k). j = Sym t"
proof -
  have "sy_choice (k_sym k t) = None" for t
    using wf_confD(8) [OF wf, of t] free by (cases "sy_choice (k_sym k t)") auto
  moreover show j: "(i, j) \<in> dep_rel k \<Longrightarrow> \<exists>t \<in> set (k_defined k). j = Sym t" for i j
    using free by (auto simp: dep_rel_def build_dep_iff kitems_def)
  ultimately show "set (loop_calls k (build_dep k) (LSym s b)) = (\<lambda>t. LSym t False) ` {t. (Sym s, Sym t) \<in> dep_rel k}"
    by (force simp: loop_calls_def dep_call_def dep_rel_def)
qed

lemma check_dep_loop_post:
  assumes wf: "wf_conf k" and free: "k_choices k = []"
  shows "check_dep_loop n k (build_dep k) (LSym s b) vis = Some (r, vis') \<Longrightarrow> dfs_inv k vis \<Longrightarrow>
    dfs_post k {Sym s} vis r vis'"
proof (induction n arbitrary: s b vis r vis')
  case (Suc n)
  let ?calls = "loop_calls k (build_dep k) (LSym s b)" and ?vis = "vis(Sym s := 1)"
  note calls = loop_calls_free(1) [OF wf free]
  show ?case
  proof (cases "vis (Sym s) = 0")
    case True
    with Suc.prems obtain r1 vis1 where
      r1: "first_loop (check_dep_loop n k (build_dep k)) (Sym s) ?calls ?vis = Some (r1, vis1)"
      by (auto simp: Let_def call_item_def split: option.splits)
    have "{i. ?vis i = 2} = {i. vis i = 2}" using True by auto
    with Suc.prems have inv: "dfs_inv k ?vis" by (simp add: dfs_inv_def)
    have f: "dfs_post k {call_item x} vis r vis'"
      if "x \<in> set ?calls" "check_dep_loop n k (build_dep k) x vis = Some (r, vis')" "dfs_inv k vis" for x vis r vis'
      using that Suc.IH by (auto simp: calls call_item_def)
    have 1: "dfs_post k (call_item ` set ?calls) ?vis r1 vis1"
      and hd: "\<And>loop. r1 = LoopPart loop \<Longrightarrow> hd loop \<noteq> Sym s"
      using first_loop_post [OF f r1 inv] by auto
    show ?thesis
    proof (cases r1)
      case NoLoop
      have vis': "r = NoLoop" "vis' = vis1(Sym s := 2)"
        using Suc.prems(1) True r1 NoLoop by (auto simp: Let_def call_item_def)
      from 1 NoLoop have 2: "dfs_inv k vis1" "\<And>t. (Sym s, Sym t) \<in> dep_rel k \<Longrightarrow> vis1 (Sym t) = 2"
        "\<And>i. vis1 i = ?vis i \<or> ?vis i = 0 \<and> vis1 i = 2"
        by (auto simp: dfs_post_def calls call_item_def)
      have s: "vis1 (Sym s) = 1" using 2(3) [of "Sym s"] by simp
      have "dep_rel k `` {Sym s} \<subseteq> {i. vis1 i = 2}"
        using 2(2) loop_calls_free(2) [OF wf free] by auto
      moreover have "{i. vis' i = 2} = insert (Sym s) {i. vis1 i = 2}" by (auto simp: vis')
      ultimately have "dfs_inv k vis'"
        using 2(1) s acyclic_insert_source [of "dep_rel k" "{i. vis1 i = 2}" "Sym s"] by (auto simp: dfs_inv_def)
      moreover have "vis' i = vis i \<or> vis i = 0 \<and> vis' i = 2" for i
        using 2(3) [of i] True by (auto simp: vis' split: if_splits)
      moreover have "vis' (Sym s) = 2" by (simp add: vis')
      ultimately show ?thesis by (simp add: dfs_post_def vis'(1))
    next
      case (LoopPart loop)
      with 1 hd [of loop] Suc.prems(1) True r1 show ?thesis
        by (auto simp: Let_def call_item_def dfs_post_def split: if_splits)
    qed (use Suc.prems(1) True r1 in \<open>auto simp: Let_def call_item_def dfs_post_def\<close>)
  qed (use Suc.prems in \<open>auto simp: Let_def call_item_def dfs_post_def split: if_splits\<close>)
qed simp

lemma check_dep_loops_post:
  assumes wf: "wf_conf k" and free: "k_choices k = []" and run: "check_dep_loops k = Some (r, vis)"
  shows "dfs_post k (Sym ` set (k_defined k)) (\<lambda>_. 0) r vis"
proof -
  let ?f = "\<lambda>s r. case r of
      Some (NoLoop, vis) \<Rightarrow> check_dep_loop (Suc (length (kitems k))) k (build_dep k) (LSym s False) vis | _ \<Rightarrow> r"
  have stop: "fold ?f ss (Some (r, vis)) = Some (r, vis)" if "r \<noteq> NoLoop" for ss r vis
    using that by (induction ss) (auto split: loop_res.splits)
  have none: "fold ?f ss None = None" for ss by (induction ss) auto
  have "dfs_post k (I \<union> Sym ` set ss) (\<lambda>_. 0) r vis"
    if "fold ?f ss (Some (r0, vis0)) = Some (r, vis)" "dfs_post k I (\<lambda>_. 0) r0 vis0" for ss r0 vis0 I
    using that
  proof (induction ss arbitrary: r0 vis0 I)
    case (Cons s ss)
    show ?case
    proof (cases "r0 = NoLoop")
      case True
      with Cons.prems(2) have 0: "dfs_inv k vis0" "\<forall>i \<in> I. vis0 i = 2" "\<And>i. vis0 i = 0 \<or> vis0 i = 2"
        by (auto simp: dfs_post_def)
      from Cons.prems(1) True obtain r1 vis1 where
        r1: "check_dep_loop (Suc (length (kitems k))) k (build_dep k) (LSym s False) vis0 = Some (r1, vis1)"
        by (cases "check_dep_loop (Suc (length (kitems k))) k (build_dep k) (LSym s False) vis0")
          (auto simp: none simp del: check_dep_loop.simps)
      have "dfs_post k {Sym s} vis0 r1 vis1" by (rule check_dep_loop_post [OF wf free r1 0(1)])
      then have "dfs_post k (insert (Sym s) I) (\<lambda>_. 0) r1 vis1"
        using 0(2,3) by (cases r1) (auto simp: dfs_post_def, (metis zero_neq_numeral)+)
      from Cons.IH [OF _ this] Cons.prems(1) True r1 show ?thesis by (simp del: check_dep_loop.simps)
    next
      case False
      with Cons.prems stop [of r0 "s # ss" vis0] show ?thesis
        by (cases r) (auto simp: dfs_post_def simp del: fold.simps)
    qed
  qed simp
  from this [of "k_defined k" NoLoop "\<lambda>_. 0" "{}"] run show ?thesis
    by (simp add: check_dep_loops_def dfs_post_def dfs_inv_def acyclic_def del: check_dep_loop.simps)
qed

lemma loop_check_acyclic:
  assumes wf: "wf_conf k" and free: "k_choices k = []" and run: "check_dep_loops k = Some (NoLoop, vis)"
  shows "acyclic (dep_rel k)"
proof -
  let ?S = "{i. vis i = 2}"
  have inv: "dep_rel k `` ?S \<subseteq> ?S" "acyclic (Restr (dep_rel k) ?S)" "Sym ` set (k_defined k) \<subseteq> ?S"
    using check_dep_loops_post [OF wf free run] by (auto simp: dfs_post_def dfs_inv_def)
  have target: "b \<in> ?S" if "(a, b) \<in> (dep_rel k)\<^sup>+" for a b
    using that loop_calls_free(2) [OF wf free] inv(3) by cases blast+
  have stay: "(a, b) \<in> (Restr (dep_rel k) ?S)\<^sup>+" if "(a, b) \<in> (dep_rel k)\<^sup>+" "a \<in> ?S" for a b
    using that(1)
  proof (induction rule: trancl_induct)
    case (base b)
    then show ?case using that(2) inv(1) by auto
  next
    case (step b c)
    with target [OF step(1)] inv(1) have "(b, c) \<in> Restr (dep_rel k) ?S" by auto
    with step.IH show ?case by (rule trancl_into_trancl)
  qed
  have "(a, a) \<notin> (dep_rel k)\<^sup>+" for a
    using stay [of a a] target [of a a] inv(2) unfolding acyclic_def by blast
  then show ?thesis unfolding acyclic_def by blast
qed

lemma successively_rtrancl:
  "loop \<noteq> [] \<Longrightarrow> successively (\<lambda>a b. (b, a) \<in> E) loop \<Longrightarrow> (last loop, hd loop) \<in> E\<^sup>*"
  by (induction loop rule: induct_list012) (auto intro: rtrancl_into_rtrancl)

lemma loop_part_cycle: "loop_part k i (DepLoop loop) \<Longrightarrow> (hd loop, hd loop) \<in> (call_rel k)\<^sup>+"
  using successively_rtrancl [of loop "call_rel k"] by (auto simp: loop_part_def intro: rtrancl_into_trancl2)

lemma call_rel_free:
  assumes wf: "wf_conf k" and free: "k_choices k = []"
  shows "call_rel k \<subseteq> dep_rel k"
proof -
  have "y \<notin> set (loop_calls k (build_dep k) (LChc c skip))" for y c skip
    using wf_confD(7) [OF wf, of c] free by (simp add: loop_calls_def Choice_def)
  moreover have "(call_item x, call_item y) \<in> dep_rel k"
    if "y \<in> set (loop_calls k (build_dep k) x)" "x = LSym s b" for x y s b
    using that loop_calls_free(1) [OF wf free, of s b] by (auto simp: call_item_def)
  ultimately show ?thesis by (auto simp: call_rel_def) (metis loop_call.exhaust)
qed

lemma loop_check_result:
  assumes wf: "wf_conf k" and free: "k_choices k = []"
  obtains vis where "check_dep_loops k = Some (NoLoop, vis)" "acyclic (dep_rel k)"
    | loop vis where "check_dep_loops k = Some (DepLoop loop, vis)" "(hd loop, hd loop) \<in> (dep_rel k)\<^sup>+"
proof -
  obtain r vis where r: "check_dep_loops k = Some (r, vis)" using check_dep_loops_ends [OF wf] by blast
  show thesis
  proof (cases r)
    case NoLoop
    with r loop_check_acyclic [OF wf free] that(1) show ?thesis by blast
  next
    case (LoopPart loop)
    with check_dep_loops_post [OF wf free r] show ?thesis by (simp add: dfs_post_def)
  next
    case (DepLoop loop)
    with check_dep_loops_part [OF r] loop_part_cycle have "(hd loop, hd loop) \<in> (call_rel k)\<^sup>+" by auto
    then have "(hd loop, hd loop) \<in> (dep_rel k)\<^sup>+"
      using trancl_mono [OF _ call_rel_free [OF wf free]] by blast
    with r DepLoop that(2) show ?thesis by blast
  qed
qed

subsection \<open>A configuration that passes is ranked\<close>

definition dep_rank :: "kconf \<Rightarrow> item \<Rightarrow> nat" where
  "dep_rank k x = (if x \<in> set (kitems k) then Suc (card {y. (y, x) \<in> (dep_rel k)\<^sup>+}) else 0)"

lemma finite_mentions [simp]: "finite (mentions k x)"
  by (auto simp: mentions_def split: item.splits)

lemma dep_rank_less:
  assumes ac: "acyclic (dep_rel k)" and x: "x \<in> set (kitems k)" "(i, x) \<in> dep_rel k"
  shows "dep_rank k i < dep_rank k x"
proof -
  have "{y. (y, x) \<in> (dep_rel k)\<^sup>+} \<subseteq> (\<Union>z \<in> set (kitems k). mentions k z)"
    by (auto dest!: tranclD simp: dep_rel_def build_dep_iff)
  then have "finite {y. (y, x) \<in> (dep_rel k)\<^sup>+}" by (rule finite_subset) auto
  moreover have "{y. (y, i) \<in> (dep_rel k)\<^sup>+} \<subset> {y. (y, x) \<in> (dep_rel k)\<^sup>+}"
  proof
    show "{y. (y, i) \<in> (dep_rel k)\<^sup>+} \<subseteq> {y. (y, x) \<in> (dep_rel k)\<^sup>+}"
      using x(2) by (auto intro: trancl_into_trancl)
    have "i \<in> {y. (y, x) \<in> (dep_rel k)\<^sup>+}" using x(2) by auto
    moreover have "i \<notin> {y. (y, i) \<in> (dep_rel k)\<^sup>+}" using ac by (simp add: acyclic_def)
    ultimately show "{y. (y, i) \<in> (dep_rel k)\<^sup>+} \<noteq> {y. (y, x) \<in> (dep_rel k)\<^sup>+}" by blast
  qed
  ultimately have "card {y. (y, i) \<in> (dep_rel k)\<^sup>+} < card {y. (y, x) \<in> (dep_rel k)\<^sup>+}"
    by (rule psubset_card_mono)
  with x(1) show ?thesis by (simp add: dep_rank_def)
qed

text \<open>
  The check does not look at the symbol \<open>MODULES\<close>, which the type of every tristate symbol
  depends on; it is left undefined here.
\<close>

lemma acyclic_ranked:
  assumes wf: "wf_conf k" and free: "k_choices k = []" and ac: "acyclic (dep_rel k)"
    and modules: "sym_MODULES \<notin> set (k_defined k)"
    and sane: "\<forall>s \<in> set (k_defined k). sane_sym k s"
  shows "ranked k (dep_rank k)"
proof -
  have "sy_choice (k_sym k s) = None" for s
    using wf_confD(8) [OF wf, of s] free by (cases "sy_choice (k_sym k s)") auto
  then have rep: "rep k i = i" for i by (simp add: rep_def split: item.splits)
  have "dep_rank k i < dep_rank k x" if x: "x \<in> set (kitems k)" and i: "i \<in> set (needs k x)" for x i
  proof (cases "i \<in> set (kitems k)")
    case True
    have "\<not> item_const k i"
      by (cases i) (use True wf_confD(2) [OF wf] in \<open>auto simp: item_const_def kitems_iff\<close>)
    moreover have "i \<in> mentions k x"
      using i True modules wf_confD(3) [OF wf, of sym_n] by (auto simp: set_needs kitems_iff sym_consts split: if_splits)
    ultimately have "(i, x) \<in> dep_rel k" using x by (simp add: dep_rel_def build_dep_iff)
    from dep_rank_less [OF ac x this] show ?thesis .
  qed (use x in \<open>simp add: dep_rank_def\<close>)
  with free sane show ?thesis by (simp add: ranked_def rep)
qed

end
