(* ===== verification/Kc_Example.thy ===== *)
theory Kc_Example
  imports Kc_Loop
begin

text \<open>
  Two small configurations that the theorems are applied to. \<open>demo\<close> has a bool symbol \<open>A\<close>, a
  bool symbol \<open>B\<close> that depends on \<open>A\<close> and is on by default, an int symbol \<open>N\<close> with a range, and a
  choice of \<open>X\<close> and \<open>Y\<close>; \<open>looped\<close> has a dependency loop through two symbols of a choice.
\<close>

definition mk_node :: "item \<Rightarrow> string \<Rightarrow> expr \<Rightarrow> mnode" where
  "mk_node i p e = (MenuNode (NItem i) (Some 0) ''Kconfig'' 1)\<lparr>nd_prompt := Some (p, e)\<rparr>"

definition mk_sym :: "string \<Rightarrow> ktype \<Rightarrow> nat \<Rightarrow> expr \<Rightarrow> ksym" where
  "mk_sym name ty n dep = (Symbol name False)\<lparr>sy_type := ty, sy_nodes := [n], sy_direct_dep := dep\<rparr>"

definition const_sym :: "nat \<Rightarrow> ksym" where
  "const_sym s = (Symbol (TRI_TO_STR (int s)) True)\<lparr>sy_type := TRISTATE\<rparr>"

definition finish_conf :: "kconf \<Rightarrow> kconf" where
  "finish_conf k = k\<lparr>k_deps := add_choice_deps k (build_dep k)\<rparr>"

definition mk_conf ::
  "(nat \<times> ksym) list \<Rightarrow> (nat \<times> kchoice) list \<Rightarrow> (nat \<times> mnode) list \<Rightarrow> kconf" where
  "mk_conf ss cs ns =
     finish_conf
       \<lparr> k_sym = (\<lambda>s. case map_of ss s of
                     Some y \<Rightarrow> y
                   | None \<Rightarrow> if s \<le> sym_y then const_sym s else Symbol ''UNDEFINED'' False),
         k_chc = (\<lambda>c. case map_of cs c of Some y \<Rightarrow> y | None \<Rightarrow> Choice None),
         k_node = (\<lambda>n. case map_of ns n of Some y \<Rightarrow> y | None \<Rightarrow> MenuNode MENU None ''Kconfig'' 0),
         k_syms = map (\<lambda>(s, y). (sy_name y, s)) ss,
         k_defined = map fst (filter (\<lambda>(s, y). sy_nodes y \<noteq> []) ss), k_choices = map fst cs,
         k_deps = (\<lambda>_. []), k_top = 0, k_defconfig_list = None, k_prefix = ''CONFIG_'',
         k_config_header = [], k_header_header = [] \<rparr>"

definition demo :: kconf where
  "demo = mk_conf
     [(4, mk_sym ''A'' BOOL 1 e_y),
      (5, (mk_sym ''B'' BOOL 2 (EItem (Sym 4)))\<lparr>sy_defaults := [(e_y, EItem (Sym 4))]\<rparr>),
      (6, (mk_sym ''N'' KINT 3 e_y)\<lparr>sy_defaults := [(EItem (Sym 9), e_y)], sy_ranges := [(10, 11, e_y)]\<rparr>),
      (7, (mk_sym ''X'' BOOL 5 e_y)\<lparr>sy_choice := Some 0\<rparr>),
      (8, (mk_sym ''Y'' BOOL 6 e_y)\<lparr>sy_choice := Some 0\<rparr>),
      (9, Symbol ''64'' True), (10, Symbol ''16'' True), (11, Symbol ''128'' True)]
     [(0, (Choice None)\<lparr>ch_type := BOOL, ch_nodes := [4], ch_syms := [7, 8]\<rparr>)]
     [(1, mk_node (Sym 4) ''a'' e_y),
      (2, mk_node (Sym 5) ''b'' (EItem (Sym 4))),
      (3, mk_node (Sym 6) ''n'' e_y),
      (4, mk_node (Chc 0) ''c'' e_y),
      (5, mk_node (Sym 7) ''x'' (EItem (Chc 0))),
      (6, mk_node (Sym 8) ''y'' (EItem (Chc 0)))]"

definition looped :: kconf where
  "looped = mk_conf
     [(4, (mk_sym ''E'' BOOL 2 e_n)\<lparr>sy_choice := Some 0\<rparr>),
      (5, (mk_sym ''X'' BOOL 3 (EItem (Sym 7)))\<lparr>sy_choice := Some 0\<rparr>),
      (6, (mk_sym ''Y'' BOOL 4 e_y)\<lparr>sy_choice := Some 0\<rparr>),
      (7, mk_sym ''A'' BOOL 5 (EItem (Sym 6)))]
     [(0, (Choice None)\<lparr>ch_type := BOOL, ch_nodes := [6], ch_syms := [4, 5, 6]\<rparr>)]
     [(6, mk_node (Chc 0) ''c'' e_y),
      (2, mk_node (Sym 4) ''e'' (EAnd (EItem (Chc 0)) e_n)),
      (3, mk_node (Sym 5) ''x'' (EAnd (EItem (Chc 0)) (EItem (Sym 7)))),
      (4, mk_node (Sym 6) ''y'' (EItem (Chc 0))),
      (5, mk_node (Sym 7) ''a'' (EItem (Sym 6)))]"

lemma dep_cong:
  "sym_exprs (k\<lparr>k_deps := d\<rparr>) = sym_exprs k" "choice_exprs (k\<lparr>k_deps := d\<rparr>) = choice_exprs k"
  "item_const (k\<lparr>k_deps := d\<rparr>) = item_const k"
  by (simp_all add: fun_eq_iff sym_exprs_def choice_exprs_def item_const_def prompt_conds_def split: item.splits)

lemma depend_on_cong: "item_const k = item_const k' \<Longrightarrow> depend_on k = depend_on k'"
proof (rule ext, rule ext, rule ext)
  fix sc e d assume "item_const k = item_const k'"
  then show "depend_on k sc e d = depend_on k' sc e d"
    by (induction e arbitrary: d) (simp_all add: add_dep_def)
qed

lemma finish_conf_deps: "k_deps (finish_conf k) = add_choice_deps (finish_conf k) (build_dep (finish_conf k))"
proof -
  have "depend_on (k\<lparr>k_deps := d\<rparr>) = depend_on k" for d by (rule depend_on_cong) (simp add: dep_cong)
  then show ?thesis by (simp add: finish_conf_def add_choice_deps_def build_dep_def dep_cong)
qed

lemma mentions_finish [simp]: "mentions (finish_conf k) = mentions k"
  by (simp add: fun_eq_iff finish_conf_def mentions_def dep_cong split: item.splits)

lemma wf_finish:
  assumes "\<forall>s \<in> set (k_defined k). \<not> sy_const (k_sym k s) \<and> sym_y < s"
    and "\<forall>s. s \<notin> set (k_defined k) \<longrightarrow>
          sy_nodes (k_sym k s) = [] \<and> sy_choice (k_sym k s) = None \<and> sy_direct_dep (k_sym k s) = e_n
          \<and> (s \<le> sym_y \<and> sy_type (k_sym k s) = TRISTATE \<or> sy_type (k_sym k s) = UNKNOWN)"
    and "\<forall>s \<le> sym_y. sy_rev_dep (k_sym k s) = e_n \<and> sy_weak_rev_dep (k_sym k s) = e_n"
    and "\<forall>c. c \<notin> set (k_choices k) \<longrightarrow> k_chc k c = Choice None"
    and "\<forall>s c. sy_choice (k_sym k s) = Some c \<longrightarrow>
          c \<in> set (k_choices k) \<and> s \<in> set (ch_syms (k_chc k c)) \<and> Chc c \<in> mentions k (Sym s)"
    and "\<forall>c d cond. (d, cond) \<in> set (ch_defaults (k_chc k c)) \<longrightarrow>
          (\<exists>s \<in> set (ch_syms (k_chc k c)). d = EItem (Sym s))"
    and "\<forall>c s. s \<in> set (ch_syms (k_chc k c)) \<longrightarrow> s \<in> set (k_defined k)"
  shows "wf_conf (finish_conf k)"
proof -
  have f: "k_sym (finish_conf k) = k_sym k" "k_chc (finish_conf k) = k_chc k"
    "k_defined (finish_conf k) = k_defined k" "k_choices (finish_conf k) = k_choices k"
    by (simp_all add: finish_conf_def)
  show ?thesis unfolding wf_conf_def f mentions_finish using assms finish_conf_deps by blast
qed

lemmas conf_simps =
  mk_sym_def mk_node_def const_sym_def Symbol_def Choice_def MenuNode_def sym_consts mentions_def
  sym_exprs_def choice_exprs_def prompt_conds_def List.map_filter_def

lemma wf_demo: "wf_conf demo"
  unfolding demo_def mk_conf_def
  by (rule wf_finish) (auto simp: conf_simps split: if_splits)

lemma wf_looped: "wf_conf looped"
  unfolding looped_def mk_conf_def
  by (rule wf_finish) (auto simp: conf_simps split: if_splits)

definition demo_rank :: "item \<Rightarrow> nat" where
  "demo_rank i = (case i of Sym s \<Rightarrow> if s = 4 \<or> s = 6 then 1 else if s = 5 then 2 else 0 | Chc c \<Rightarrow> 1)"

lemma ranked_demo: "ranked demo demo_rank"
  unfolding ranked_def demo_def mk_conf_def
  by (auto simp: conf_simps finish_conf_def kitems_def needs_def rep_def item_type_def demo_rank_def sane_sym_def
      bool_tristate_def split: if_splits)

lemma looped_sym:
  "k_sym looped 2 = const_sym 2" "k_sym looped 0 = const_sym 0"
  "k_sym looped 4 = (mk_sym ''E'' BOOL 2 e_n)\<lparr>sy_choice := Some 0\<rparr>"
  "k_sym looped 5 = (mk_sym ''X'' BOOL 3 (EItem (Sym 7)))\<lparr>sy_choice := Some 0\<rparr>"
  "k_sym looped 6 = (mk_sym ''Y'' BOOL 4 e_y)\<lparr>sy_choice := Some 0\<rparr>"
  "k_sym looped 7 = mk_sym ''A'' BOOL 5 (EItem (Sym 6))"
  "k_chc looped 0 = (Choice None)\<lparr>ch_type := BOOL, ch_nodes := [6], ch_syms := [4, 5, 6]\<rparr>"
  "nd_prompt (k_node looped 6) = Some (''c'', e_y)"
  "nd_prompt (k_node looped 2) = Some (''e'', EAnd (EItem (Chc 0)) e_n)"
  "nd_prompt (k_node looped 3) = Some (''x'', EAnd (EItem (Chc 0)) (EItem (Sym 7)))"
  "nd_prompt (k_node looped 4) = Some (''y'', EItem (Chc 0))"
  "nd_prompt (k_node looped 5) = Some (''a'', EItem (Sym 6))"
  by (simp_all add: looped_def mk_conf_def finish_conf_def mk_node_def sym_consts)

lemmas body_simps =
  kbody_def sym_tri_value_def sym_visibility_def choice_visibility_def choice_selection_def
  selection_from_defaults_def prompt_vis_def promote_vis_def choice_tri_value_def item_tri_value_def
  choice_sym_tri_value_def plain_tri_value_def choice_type_def sym_type_def
  ask_tri_def ask_vis_def ask_sel_def ask_csel_def ask_cuser_def ask_user_def bool_tristate_def Let_def

text \<open>One evaluation step of each query of \<open>looped\<close>, with the answers \<open>g\<close> of the level below.\<close>

definition stuck :: "(query \<Rightarrow> ans option) \<Rightarrow> bool" where
  "stuck g \<longleftrightarrow>
     g (QTri 6) = None \<and> g (QSel 0) = None \<and> g (QVis (Sym 5)) = None \<and> g (QTri 7) = None
     \<and> g (QVis (Sym 7)) = None \<and> g (QVis (Sym 6)) \<in> {None, Some (AVis 2)}
     \<and> g (QVis (Chc 0)) \<in> {None, Some (AVis 2)} \<and> g (QVis (Sym 4)) \<in> {None, Some (AVis 0)}
     \<and> g (QTri 0) \<in> {None, Some (ATri 0 False)} \<and> g (QTri 2) \<in> {None, Some (ATri 2 False)}
     \<and> g (QCUser 0) = Some (ACUser None) \<and> g (QCSel 0) = Some (ASel None)"

lemmas looped_simps =
  body_simps looped_sym mk_sym_def Symbol_def Choice_def const_sym_def sym_consts stuck_def interp_cbind

lemma looped_mode: "stuck g \<Longrightarrow> interp g (choice_tri_value looped 0) \<in> {None, Some 2}"
  by (auto simp: looped_simps)

lemma looped_step:
  assumes "stuck g"
  shows "interp g (kbody looped (QTri 6)) = None"
    "interp g (kbody looped (QSel 0)) = None"
    "interp g (kbody looped (QVis (Sym 5))) = None"
    "interp g (kbody looped (QTri 7)) = None"
    "interp g (kbody looped (QVis (Sym 7))) = None"
    "interp g (kbody looped (QVis (Sym 6))) \<in> {None, Some (AVis 2)}"
    "interp g (kbody looped (QVis (Chc 0))) \<in> {None, Some (AVis 2)}"
    "interp g (kbody looped (QVis (Sym 4))) \<in> {None, Some (AVis 0)}"
    "interp g (kbody looped (QTri 0)) \<in> {None, Some (ATri 0 False)}"
    "interp g (kbody looped (QTri 2)) \<in> {None, Some (ATri 2 False)}"
  using assms by (auto simp: looped_simps)

lemma kinp_init:
  "kinp kstate_init (QTri s) = None" "kinp kstate_init (QSel c) = None" "kinp kstate_init (QVis i) = None"
  "kinp kstate_init (QCUser c) = Some (ACUser None)" "kinp kstate_init (QCSel c) = Some (ASel None)"
  by (simp_all add: kinp_def kstate_init_def)

lemma looped_stuck: "stuck (eval (kbody looped) (kinp kstate_init) n)"
proof (induction n)
  case 0
  show ?case by (simp add: stuck_def kinp_init)
next
  case (Suc n)
  note looped_step [OF this]
  then show ?case unfolding stuck_def by (simp add: kinp_init)
qed

end
