(* ===== verification/Kc_Claims.thy ===== *)
theory Kc_Claims
  imports Kc_Example
begin

text \<open>
  The properties of the values of a configuration: the caches are transparent, every read
  returns when the dependencies are acyclic, values are well typed, and what the
  dependency-loop check establishes and what it misses.
\<close>

text \<open>
  C23. Caching is transparent: after any sequence of \<open>set_value\<close>, \<open>unset_value\<close>, \<open>unset_values\<close>
  and reads on a freshly parsed configuration, reading a cached property returns the value
  that is computed from scratch, without any cache, from the present user values.
\<close>

theorem cached_reads_correct:
  assumes "wf_conf k" and "\<forall>op \<in> set ops. kop_ok k op" and "kops n k ops kstate_init = Some st"
    and "kstored q" and "kask n k (Ask q Ret) st = Some (a, st')"
  shows "\<exists>N. eval (kbody k) (kinp st) N q = Some a"
proof -
  have "kst_ok k st" using kops_ok [OF assms(1) init_ok assms(2,3)] by simp
  from read_value [OF this assms(4,5)] show ?thesis by (simp add: has_def)
qed

lemma demo_ops:
  "map_option fst (Option.bind (kops 40 demo
     [ORead (QStr 5), OSet 4 (UStr ''y''), ORead (QSel 0), OSet 8 (UTri 2), OUnset 5] kstate_init)
     (kask 40 demo (Ask (QStr 5) Ret))) = Some (AStr ''y'' True)"
  by code_simp

theorem cached_reads_correct_witness:
  "\<exists>st st'. kops 40 demo
     [ORead (QStr 5), OSet 4 (UStr ''y''), ORead (QSel 0), OSet 8 (UTri 2), OUnset 5] kstate_init = Some st
     \<and> kask 40 demo (Ask (QStr 5) Ret) st = Some (AStr ''y'' True, st')
     \<and> (\<exists>N. eval (kbody demo) (kinp st) N (QStr 5) = Some (AStr ''y'' True))"
proof -
  obtain st st' where st: "kops 40 demo
     [ORead (QStr 5), OSet 4 (UStr ''y''), ORead (QSel 0), OSet 8 (UTri 2), OUnset 5] kstate_init = Some st"
    "kask 40 demo (Ask (QStr 5) Ret) st = Some (AStr ''y'' True, st')"
    using demo_ops by (auto simp: bind_eq_Some_conv)
  from cached_reads_correct [OF wf_demo _ st(1) _ st(2)] st show ?thesis
    by (auto simp: kop_ok_def qdom_def)
qed

text \<open>
  C25. Reads end and raise nothing: in a configuration whose dependencies can be ranked, with
  a recursion depth above the ranks of the properties that are read, every sequence of
  operations runs to its end, and a further read returns a value of the right kind.
\<close>

theorem reads_return:
  assumes "wf_conf k" and "ranked k rr" and "\<forall>op \<in> set ops. kop_ok k op"
    and "\<forall>q'. ORead q' \<in> set ops \<longrightarrow> qrank k rr q' < n" and "kop_ok k (ORead q)" and "qrank k rr q < n"
  shows "\<exists>st a st'. kops n k ops kstate_init = Some st \<and> kask n k (Ask q Ret) st = Some (a, st') \<and> kgood k q a"
proof -
  obtain st where st: "kops n k ops kstate_init = Some st"
    using kops_return [OF assms(1,2) init_ok assms(3,4)] by blast
  have ok: "kst_ok k st" "users_ok k st" using kops_ok [OF assms(1) init_ok assms(3) st] by auto
  have "kask n k (Ask q Ret) st \<noteq> None"
    by (rule kask_returns [OF assms(1,2) ok(2,1), where R = "\<lambda>_. True"])
      (use assms(5,6) in \<open>auto simp: below_def kop_ok_def\<close>)
  then obtain a st' where a: "kask n k (Ask q Ret) st = Some (a, st')" by auto
  have "kgood k q a"
    by (rule value_typed [OF ok(2) read_value [OF ok(1) _ a]]) (use assms(5) in \<open>simp add: kop_ok_def\<close>)
  with st a show ?thesis by blast
qed

theorem reads_return_witness:
  "\<exists>st a st'. kops 40 demo [OSet 4 (UTri 2), ORead (QSel 0)] kstate_init = Some st
     \<and> kask 40 demo (Ask (QStr 6) Ret) st = Some (a, st') \<and> kgood demo (QStr 6) a"
  by (rule reads_return [OF wf_demo ranked_demo])
    (auto simp: kop_ok_def qdom_def qrank_def demo_rank_def rep_def demo_def mk_conf_def finish_conf_def conf_simps)

text \<open>
  C26. Values are well typed, whatever the user values that \<open>set_value\<close> accepted are: a
  \<open>tri_value\<close> is 0, 1 or 2, a bool symbol never has the value m, a symbol that is not bool or
  tristate has the tristate value n, a visibility is m only for tristate items, and
  assignable values are tristate values.
\<close>

theorem values_well_typed:
  assumes "users_ok k st" and "eval (kbody k) (kinp st) n q = Some a"
  shows "kgood k q a"
  by (rule value_typed [OF assms(1)]) (use assms(2) in \<open>auto simp: has_def\<close>)

theorem values_well_typed_witness:
  "kgood demo (QTri 5) (ATri 0 False) \<and> eval (kbody demo) (kinp kstate_init) 8 (QTri 5) = Some (ATri 0 False)"
proof -
  have "eval (kbody demo) (kinp kstate_init) 8 (QTri 5) = Some (ATri 0 False)" by code_simp
  with values_well_typed [OF init_ok(2) this] show ?thesis by simp
qed

text \<open>
  C27. For a configuration without choices the dependency-loop check is exact: it ends, it
  reports no loop exactly when the dependencies are acyclic, and otherwise it raises the
  error for an item that depends on itself.
\<close>

theorem loop_check_exact:
  assumes "wf_conf k" and "k_choices k = []"
  shows "(\<exists>vis. check_dep_loops k = Some (NoLoop, vis) \<and> acyclic (dep_rel k))
    \<or> (\<exists>loop vis. check_dep_loops k = Some (DepLoop loop, vis) \<and> (hd loop, hd loop) \<in> (dep_rel k)\<^sup>+)"
  by (rule loop_check_result [OF assms]) blast+

definition plain :: kconf where
  "plain = mk_conf [(4, mk_sym ''A'' BOOL 1 e_y), (5, mk_sym ''B'' BOOL 2 (EItem (Sym 4)))] []
     [(1, mk_node (Sym 4) ''a'' e_y), (2, mk_node (Sym 5) ''b'' (EItem (Sym 4)))]"

lemma wf_plain: "wf_conf plain" "k_choices plain = []"
proof -
  show "wf_conf plain"
    unfolding plain_def mk_conf_def by (rule wf_finish) (auto simp: conf_simps split: if_splits)
qed (simp add: plain_def mk_conf_def finish_conf_def)

lemma plain_passes: "map_option fst (check_dep_loops plain) = Some NoLoop"
  by code_simp

theorem loop_check_exact_witness: "acyclic (dep_rel plain)"
  using loop_check_exact [OF wf_plain] plain_passes by auto



text \<open>
  C29. With a choice the check misses loops: it passes a configuration in which a symbol of
  the choice depends on a symbol that depends on another symbol of the same choice, and
  reading its value never returns, whatever the recursion depth.
\<close>

theorem choice_loop_missed:
  "wf_conf looped \<and> (\<exists>vis. check_dep_loops looped = Some (NoLoop, vis))
   \<and> (\<forall>n. eval (kbody looped) (kinp kstate_init) n (QTri 6) = None)"
proof -
  have "map_option fst (check_dep_loops looped) = Some NoLoop" by code_simp
  with looped_stuck wf_looped show ?thesis by (auto simp: stuck_def)
qed

end
