(* ===== verification/Kc_Tree.thy ===== *)
theory Kc_Tree
  imports Kc_State "HOL-Library.Sublist"
begin

text \<open>
  The menu tree and the iterative walk over it that \<open>Kconfig.node_iter\<close> and
  \<open>Kconfig._config_contents\<close> share. The nodes are linked by \<open>list\<close>, \<open>next\<close> and \<open>parent\<close>; the
  lemmas show that the walk over links that represent a tree is the walk over the tree.
\<close>

subsection \<open>The iterative walk\<close>

text \<open>
  What the walk does, in order: it comes to a node, or it goes up to a parent because the
  last of its children has been dealt with. \<open>climb\<close> is the inner loop, with the nodes that are
  left; \<open>d\<close> bounds the depth of the tree and \<open>f\<close> the number of nodes.
\<close>

datatype event = Visit nat | Leave nat

primrec climb :: "nat \<Rightarrow> kconf \<Rightarrow> nat \<Rightarrow> (nat list \<times> nat option) option" where
  "climb 0 k n = None"
| "climb (Suc d) k n =
     (case nd_parent (k_node k n) of
        None \<Rightarrow> Some ([], None)
      | Some p \<Rightarrow>
          map_option (\<lambda>(ps, r). (p # ps, r))
            (case nd_next (k_node k p) of
               Some q \<Rightarrow> Some ([], Some q)
             | None \<Rightarrow> climb d k p))"

definition after_node :: "nat \<Rightarrow> kconf \<Rightarrow> nat \<Rightarrow> (nat list \<times> nat option) option" where
  "after_node d k n = (case nd_next (k_node k n) of Some q \<Rightarrow> Some ([], Some q) | None \<Rightarrow> climb d k n)"

definition next_node :: "nat \<Rightarrow> kconf \<Rightarrow> nat \<Rightarrow> (nat list \<times> nat option) option" where
  "next_node d k n =
     (case nd_list (k_node k n) of Some c \<Rightarrow> Some ([], Some c) | None \<Rightarrow> after_node d k n)"

primrec walk :: "nat \<Rightarrow> nat \<Rightarrow> kconf \<Rightarrow> nat \<Rightarrow> event list option" where
  "walk d 0 k n = None"
| "walk d (Suc f) k n =
     (case next_node d k n of
        None \<Rightarrow> None
      | Some (ps, None) \<Rightarrow> Some (map Leave ps)
      | Some (ps, Some m) \<Rightarrow> map_option (\<lambda>es. map Leave ps @ Visit m # es) (walk d f k m))"

text \<open>The nodes that \<open>node_iter\<close> yields; with \<open>unique_syms\<close> only the first node of a symbol.\<close>

fun yields :: "kconf \<Rightarrow> bool \<Rightarrow> nat list \<Rightarrow> event list \<Rightarrow> nat list" where
  "yields k u vis [] = []"
| "yields k u vis (Leave p # es) = yields k u vis es"
| "yields k u vis (Visit n # es) =
     (case nd_item (k_node k n) of
        NItem (Sym s) \<Rightarrow>
          if u \<and> s \<in> set vis then yields k u vis es
          else n # yields k u (if u then s # vis else vis) es
      | _ \<Rightarrow> n # yields k u vis es)"

definition node_iter :: "nat \<Rightarrow> nat \<Rightarrow> kconf \<Rightarrow> bool \<Rightarrow> nat list option" where
  "node_iter d f k unique_syms = map_option (yields k unique_syms []) (walk d f k (k_top k))"

subsection \<open>Trees\<close>

datatype mtree = MT nat "mtree list"

fun forest_at :: "kconf \<Rightarrow> nat option \<Rightarrow> nat option \<Rightarrow> mtree list \<Rightarrow> bool" where
  "forest_at k p first [] \<longleftrightarrow> first = None"
| "forest_at k p first (MT n ch # ts) \<longleftrightarrow>
     first = Some n \<and> nd_parent (k_node k n) = p
     \<and> forest_at k (Some n) (nd_list (k_node k n)) ch
     \<and> forest_at k p (nd_next (k_node k n)) ts"

fun preorder :: "mtree list \<Rightarrow> nat list" where
  "preorder [] = []"
| "preorder (MT n ch # ts) = n # preorder ch @ preorder ts"

fun height :: "mtree list \<Rightarrow> nat" where
  "height [] = 0"
| "height (MT n ch # ts) = max (Suc (height ch)) (height ts)"

fun events :: "mtree list \<Rightarrow> event list" where
  "events [] = []"
| "events (MT n ch # ts) = Visit n # events ch @ (if ch = [] then [] else [Leave n]) @ events ts"

text \<open>The links of a configuration form a tree under its top node.\<close>

definition tree_of :: "kconf \<Rightarrow> mtree list \<Rightarrow> bool" where
  "tree_of k ts \<longleftrightarrow>
     nd_parent (k_node k (k_top k)) = None \<and> nd_next (k_node k (k_top k)) = None
     \<and> forest_at k (Some (k_top k)) (nd_list (k_node k (k_top k))) ts"

lemma climb_mono: "climb d k n = Some r \<Longrightarrow> d \<le> d' \<Longrightarrow> climb d' k n = Some r"
proof (induction d arbitrary: d' n r)
  case (Suc d)
  then obtain e where "d' = Suc e" "d \<le> e" by (cases d') auto
  then show ?case
    using Suc.prems(1) Suc.IH [OF _ \<open>d \<le> e\<close>]
    by (cases "nd_parent (k_node k n)"; cases "nd_next (k_node k (the (nd_parent (k_node k n))))")
      (auto simp del: map_option_eq_Some simp: map_option_eq_Some)
qed simp

lemma after_node_mono: "after_node d k n = Some r \<Longrightarrow> d \<le> d' \<Longrightarrow> after_node d' k n = Some r"
  by (auto simp: after_node_def dest: climb_mono split: option.splits)

text \<open>The rest of the walk after the nodes \<open>ps\<close> were left and the node \<open>r\<close>, if any, was reached.\<close>

definition resume :: "nat \<Rightarrow> nat \<Rightarrow> kconf \<Rightarrow> nat list \<times> nat option \<Rightarrow> event list option" where
  "resume d f k x =
     (case x of
        (ps, None) \<Rightarrow> Some (map Leave ps)
      | (ps, Some m) \<Rightarrow> map_option (\<lambda>es. map Leave ps @ Visit m # es) (walk d f k m))"

lemma walk_Suc: "walk d (Suc f) k n = Option.bind (next_node d k n) (resume d f k)"
  by (auto simp: resume_def split: option.splits)

lemma resume_Cons: "resume d f k (p # ps, r) = map_option ((#) (Leave p)) (resume d f k (ps, r))"
  by (auto simp: resume_def option.map_comp o_def split: option.splits)

lemma resume_Some: "resume d f k ([], Some n) = map_option ((#) (Visit n)) (walk d f k n)"
  by (simp add: resume_def)

lemma resume_forest:
  "forest_at k (Some p) first ts \<Longrightarrow> ts \<noteq> [] \<Longrightarrow> after_node d0 k p = Some x \<Longrightarrow> d0 + height ts \<le> d \<Longrightarrow>
   resume d (f + length (preorder ts)) k ([], first) =
     map_option (\<lambda>es. events ts @ Leave p # es) (resume d f k x)"
proof (induction k "Some p" first ts arbitrary: p d0 x f rule: forest_at.induct)
  case (2 k first n ch ts)
  let ?nd = "k_node k n" and ?f = "f + length (preorder ts)"
  from 2(3) have n: "first = Some n" "nd_parent ?nd = Some p" "forest_at k (Some n) (nd_list ?nd) ch"
    "forest_at k (Some p) (nd_next ?nd) ts" by auto
  have nxt: "after_node (Suc d0) k n = (case nd_next ?nd of
      Some q \<Rightarrow> Some ([], Some q) | None \<Rightarrow> Some (p # fst x, snd x))"
    using 2(5) n(2) by (cases x) (auto simp: after_node_def split: option.splits)
  define y where "y = (case nd_next ?nd of Some q \<Rightarrow> ([], Some q) | None \<Rightarrow> (p # fst x, snd x))"
  have y: "after_node (Suc d0) k n = Some y" using nxt by (auto simp: y_def split: option.splits)
  have "after_node d k n = Some y" by (rule after_node_mono [OF y]) (use 2(6) in simp)
  moreover have rest: "resume d ?f k y = map_option (\<lambda>es. events ts @ Leave p # es) (resume d f k x)"
  proof (cases ts)
    case Nil
    with n(4) show ?thesis by (simp add: y_def resume_Cons)
  next
    case (Cons t ts')
    obtain m ch' where t: "t = MT m ch'" by (cases t)
    with n(4) Cons have "nd_next ?nd = Some m" by simp
    moreover have "resume d ?f k ([], nd_next ?nd) = map_option (\<lambda>es. events ts @ Leave p # es) (resume d f k x)"
      by (rule 2(2) [OF n(4) _ 2(5)]) (use Cons 2(6) in auto)
    ultimately show ?thesis by (simp add: y_def)
  qed
  moreover have "resume d (?f + length (preorder ch)) k ([], nd_list ?nd) =
      map_option (\<lambda>es. events ch @ Leave n # es) (resume d ?f k y)" if "ch \<noteq> []"
    by (rule 2(1) [OF n(3) that y]) (use 2(6) in simp)
  ultimately have "resume d (?f + length (preorder ch)) k
      (case nd_list ?nd of Some c \<Rightarrow> ([], Some c) | None \<Rightarrow> y) =
      map_option (\<lambda>es. events ch @ (if ch = [] then [] else [Leave n]) @ events ts @ Leave p # es) (resume d f k x)"
    using n(3) by (cases ch rule: preorder.cases; cases "nd_list ?nd") (auto simp: option.map_comp o_def)
  moreover have "next_node d k n = Some (case nd_list ?nd of Some c \<Rightarrow> ([], Some c) | None \<Rightarrow> y)"
    using \<open>after_node d k n = Some y\<close> by (simp add: next_node_def split: option.splits)
  ultimately have "walk d (Suc (?f + length (preorder ch))) k n =
      map_option (\<lambda>es. events ch @ (if ch = [] then [] else [Leave n]) @ events ts @ Leave p # es) (resume d f k x)"
    unfolding walk_Suc by simp
  moreover have "f + length (preorder (MT n ch # ts)) = Suc (?f + length (preorder ch))" by simp
  ultimately show ?case
    by (simp only: n(1) resume_Some option.map_comp) (simp add: o_def)
qed simp

lemma walk_tree:
  assumes tree: "tree_of k ts" and d: "height ts < d" and f: "length (preorder ts) < f"
  shows "walk d f k (k_top k) = Some (events ts @ (if ts = [] then [] else [Leave (k_top k)]))"
proof -
  have top: "after_node (Suc 0) k (k_top k) = Some ([], None)"
    using tree by (simp add: tree_of_def after_node_def)
  have at: "forest_at k (Some (k_top k)) (nd_list (k_node k (k_top k))) ts" using tree by (simp add: tree_of_def)
  obtain g where f': "f = Suc (g + length (preorder ts))" using f by (metis add.commute less_imp_Suc_add)
  show ?thesis
  proof (cases "ts = []")
    case True
    have "after_node d k (k_top k) = Some ([], None)" by (rule after_node_mono [OF top]) (use d in simp)
    with True at show ?thesis unfolding f' walk_Suc by (simp add: next_node_def resume_def)
  next
    case False
    then have "next_node d k (k_top k) = Some ([], nd_list (k_node k (k_top k)))"
      using at by (cases ts rule: preorder.cases) (auto simp: next_node_def)
    moreover have "resume d (g + length (preorder ts)) k ([], nd_list (k_node k (k_top k))) =
        map_option (\<lambda>es. events ts @ Leave (k_top k) # es) (resume d g k ([], None))"
      by (rule resume_forest [OF at False top]) (use d in simp)
    ultimately show ?thesis using False unfolding f' walk_Suc by (simp add: resume_def)
  qed
qed

lemma yields_all: "yields k False vis (events ts @ es) = preorder ts @ yields k False vis es"
proof (induction ts arbitrary: es rule: events.induct)
  case (2 n ch ts)
  then show ?case by (cases "nd_item (k_node k n)") (auto split: item.splits)
qed simp

text \<open>What \<open>node_iter(True)\<close> leaves out are the later nodes of a symbol.\<close>

definition node_sym :: "kconf \<Rightarrow> nat \<Rightarrow> nat option" where
  "node_sym k n = (case nd_item (k_node k n) of NItem (Sym s) \<Rightarrow> Some s | _ \<Rightarrow> None)"

lemma yields_Visit:
  "yields k u vis (Visit n # es) =
     (case node_sym k n of
        Some s \<Rightarrow> if u \<and> s \<in> set vis then yields k u vis es else n # yields k u (if u then s # vis else vis) es
      | None \<Rightarrow> n # yields k u vis es)"
  by (simp add: node_sym_def split: nitem.splits item.splits)

definition visited :: "event list \<Rightarrow> nat list" where
  "visited es = List.map_filter (\<lambda>e. case e of Visit n \<Rightarrow> Some n | Leave _ \<Rightarrow> None) es"

lemma visited_simps [simp]:
  "visited [] = []" "visited (Visit n # es) = n # visited es" "visited (Leave n # es) = visited es"
  "visited (es @ es') = visited es @ visited es'"
  by (simp_all add: visited_def List.map_filter_def)

lemma visited_events: "visited (events ts) = preorder ts"
  by (induction ts rule: events.induct) simp_all

lemma yields_unique:
  "subseq (yields k True vis es) (visited es)"
  "distinct (List.map_filter (node_sym k) (yields k True vis es))"
  "set (List.map_filter (node_sym k) (yields k True vis es)) = set (List.map_filter (node_sym k) (visited es)) - set vis"
  "filter (\<lambda>n. node_sym k n = None) (yields k True vis es) = filter (\<lambda>n. node_sym k n = None) (visited es)"
proof (induction es arbitrary: vis)
  case (Cons e es)
  {
    case 1 then show ?case by (cases e) (auto simp: yields_Visit Cons simp del: yields.simps(3) split: option.splits)
  next
    case 2 then show ?case
      using Cons(3) by (cases e) (auto simp: yields_Visit Cons List.map_filter_simps simp del: yields.simps(3) split: option.splits)
  next
    case 3 then show ?case
      by (cases e) (auto simp: yields_Visit Cons List.map_filter_simps simp del: yields.simps(3) split: option.splits)
  next
    case 4 then show ?case by (cases e) (auto simp: yields_Visit Cons simp del: yields.simps(3) split: option.splits)
  }
qed (simp_all add: List.map_filter_simps)

end
