(* ===== verification/Kc_Config.thy ===== *)
theory Kc_Config
  imports Kc_Tree
begin

text \<open>
  Configuration files: \<open>load_config\<close> reads assignments from a \<^verbatim>\<open>.config\<close> file, \<open>write_config\<close>,
  \<open>write_min_config\<close> and \<open>write_autoconf\<close> write the values, \<open>sync_deps\<close> marks the symbols
  whose value changed since its last run. The files are a map from names to contents; a file
  that is not there cannot be opened, and there are no symbolic links. Reads of symbol values
  take a recursion bound \<open>n\<close>; a read that does not return is the error \<open>RecursionError\<close>.
\<close>

subsection \<open>Files\<close>

record fsys =
  fs_file :: "string \<Rightarrow> string option"
  fs_writable :: "string \<Rightarrow> bool"
  fs_isdir :: "string \<Rightarrow> bool"
  fs_env :: "string \<Rightarrow> string option"
  fs_srctree :: string

definition path_join :: "string \<Rightarrow> string \<Rightarrow> string" where
  "path_join a b = (if take 1 b = ''/'' \<or> a = [] then b else if last a = CHR ''/'' then a @ b else a @ ''/'' @ b)"

text \<open>Universal newlines: what reading in text mode makes of carriage returns.\<close>

abbreviation cr :: char where "cr \<equiv> CHR 0x0D"

fun univ_nl :: "string \<Rightarrow> string" where
  "univ_nl [] = []"
| "univ_nl (c # cs) =
     (if c = cr then (case cs of c' # cs' \<Rightarrow> if c' = newline then newline # univ_nl cs' else newline # univ_nl cs
                      | [] \<Rightarrow> [newline])
      else c # univ_nl cs)"

definition open_r :: "fsys \<Rightarrow> string \<Rightarrow> string res" where
  "open_r fs name = (case fs_file fs name of Some t \<Rightarrow> Inr (univ_nl t) | None \<Rightarrow> Inl (OSError name))"

definition write_file :: "string \<Rightarrow> string \<Rightarrow> fsys \<Rightarrow> fsys res" where
  "write_file name t fs =
     (if fs_writable fs name then Inr (fs\<lparr>fs_file := (fs_file fs)(name \<mapsto> t)\<rparr>) else Inl (OSError name))"

text \<open>The name under which the file was opened, and its contents.\<close>

definition open_config :: "fsys \<Rightarrow> string \<Rightarrow> (string \<times> string) res" where
  "open_config fs filename =
     (let alt = path_join (fs_srctree fs) filename in
      case open_r fs filename of
        Inr t \<Rightarrow> Inr (filename, t)
      | Inl _ \<Rightarrow>
          (case open_r fs alt of
             Inr t \<Rightarrow> Inr (alt, t)
           | Inl _ \<Rightarrow>
               Inl (OSError (''Could not open '' @ [CHR 0x27] @ filename @ [CHR 0x27]
                 @ '' (ENOENT: No such file or directory). Check that the $srctree environment variable ('' @
                 (if fs_srctree fs \<noteq> [] then ''set to '' @ [CHR 0x27] @ fs_srctree fs @ [CHR 0x27] else ''unset or blank'')
                 @ '') is set correctly.''))))"

definition contents_eq :: "fsys \<Rightarrow> string \<Rightarrow> string \<Rightarrow> bool" where
  "contents_eq fs filename contents =
     (case open_r fs filename of Inr t \<Rightarrow> take (length contents + 1) t = contents | Inl _ \<Rightarrow> False)"

definition write_if_changed :: "string \<Rightarrow> string \<Rightarrow> fsys \<Rightarrow> (bool \<times> fsys) res" where
  "write_if_changed filename contents fs =
     (if contents_eq fs filename contents then Inr (False, fs)
      else rbind (write_file filename contents fs) (\<lambda>fs. Inr (True, fs)))"

text \<open>\<open>os.replace\<close> of the file, with every error ignored.\<close>

definition save_old :: "string \<Rightarrow> fsys \<Rightarrow> fsys" where
  "save_old filename fs =
     (let old = filename @ ''.old'' in
      case fs_file fs filename of
        None \<Rightarrow> fs
      | Some t \<Rightarrow>
          if fs_writable fs old then fs\<lparr>fs_file := (fs_file fs)(filename := None, old \<mapsto> t)\<rparr> else fs)"

text \<open>Lines with their newline, as iterating over a file gives them.\<close>

fun file_lines :: "string \<Rightarrow> string list" where
  "file_lines [] = []"
| "file_lines (c # cs) =
     (if c = newline then [newline] # file_lines cs
      else case file_lines cs of
             [] \<Rightarrow> [[c]]
           | l # ls \<Rightarrow> (c # l) # ls)"

subsection \<open>The regular expressions of \<^verbatim>\<open>.config\<close> lines\<close>

definition set_match :: "kconf \<Rightarrow> string \<Rightarrow> (string \<times> string) option" where
  "set_match k line =
     (let p = k_prefix k; r = drop (length p) line;
          name = takeWhile (\<lambda>c. c \<noteq> CHR ''='') r; rest = dropWhile (\<lambda>c. c \<noteq> CHR ''='') r
      in if take (length p) line = p \<and> name \<noteq> [] \<and> rest \<noteq> []
         then Some (name, takeWhile (\<lambda>c. c \<noteq> newline) (tl rest)) else None)"

definition unset_match :: "kconf \<Rightarrow> string \<Rightarrow> string option" where
  "unset_match k line =
     (let p = ''# '' @ k_prefix k; r = drop (length p) line;
          name = takeWhile (\<lambda>c. c \<noteq> CHR '' '') r; rest = dropWhile (\<lambda>c. c \<noteq> CHR '' '') r;
          tail = '' is not set''
      in if take (length p) line = p \<and> name \<noteq> [] \<and> take (length tail) rest = tail then Some name else None)"

fun conf_body :: "string \<Rightarrow> string option" where
  "conf_body [] = None"
| "conf_body (c # cs) =
     (if c = dquote then Some []
      else if c = bslash
      then (case cs of
              [] \<Rightarrow> None
            | c' # cs' \<Rightarrow> if c' = newline then None else map_option (\<lambda>t. c # c' # t) (conf_body cs'))
      else map_option ((#) c) (conf_body cs))"

definition conf_string_match :: "string \<Rightarrow> string option" where
  "conf_string_match s = (case s of c # cs \<Rightarrow> if c = dquote then conf_body cs else None | [] \<Rightarrow> None)"

subsection \<open>Loading\<close>

definition undef_assign :: "string \<Rightarrow> string \<Rightarrow> string \<Rightarrow> nat \<Rightarrow> kstate \<Rightarrow> kstate" where
  "undef_assign name val filename linenr st =
     (let st = st\<lparr>ks_missing := ks_missing st @ [(name, val)]\<rparr> in
      if ks_warn_undef st
      then warn_at (''attempt to assign the value '' @ [CHR 0x27] @ val @ [CHR 0x27] @ '' to the undefined symbol '' @ name)
             filename linenr st
      else st)"

text \<open>
  \<open>TRI_TO_STR\<close> of the user value raises \<open>KeyError\<close> when there is none; the string \<open>None\<close> is what
  formatting it gives for the other types.
\<close>

definition assigned_twice :: "kconf \<Rightarrow> nat \<Rightarrow> string \<Rightarrow> string \<Rightarrow> nat \<Rightarrow> kstate \<Rightarrow> kstate res" where
  "assigned_twice k s new_val filename linenr st =
     rbind (case ks_user st s of
              Some (UTri z) \<Rightarrow> Inr (Some (TRI_TO_STR z))
            | Some (UStr t) \<Rightarrow> if bool_tristate (sy_type (k_sym k s)) then Inl KeyError else Inr (Some t)
            | None \<Rightarrow> if bool_tristate (sy_type (k_sym k s)) then Inl KeyError else Inr None) (\<lambda>user_val.
     let msg = name_and_loc k (Sym s) @ '' set more than once. Old value '' @ [dquote]
               @ (case user_val of None \<Rightarrow> ''None'' | Some t \<Rightarrow> t) @ [dquote] @ '', new value '' @ [dquote] @ new_val
               @ [dquote] @ ''.''
     in Inr (if user_val = Some new_val
             then (if ks_warn_redun st then warn_at msg filename linenr st else st)
             else if ks_warn_override st then warn_at msg filename linenr st else st))"

text \<open>The last step of an assignment, and the mode of a choice that is inferred from it.\<close>

definition assign :: "kconf \<Rightarrow> string \<Rightarrow> nat \<Rightarrow> nat \<Rightarrow> string \<Rightarrow> kstate \<Rightarrow> kstate res" where
  "assign k filename linenr s val st =
     rbind (if ks_was_set st s then assigned_twice k s val filename linenr st else Inr st) (\<lambda>st.
       Inr (snd (set_value k s (UStr val) st)))"

definition infer_mode :: "kconf \<Rightarrow> string \<Rightarrow> nat \<Rightarrow> nat \<Rightarrow> string \<Rightarrow> kstate \<Rightarrow> kstate" where
  "infer_mode k filename linenr s val st =
     (case sy_choice (k_sym k s) of
        None \<Rightarrow> st
      | Some c \<Rightarrow>
          if val = ''n'' then st
          else let st = (case ks_cuser st c of
                           None \<Rightarrow> st
                         | Some z \<Rightarrow>
                             if TRI_TO_STR z \<noteq> val
                             then warn_at ''both m and y assigned to symbols within the same choice'' filename linenr st
                             else st)
               in snd (choice_set_value k c (UStr val) st))"

definition defined_sym :: "kconf \<Rightarrow> string \<Rightarrow> nat option" where
  "defined_sym k name =
     (case map_of (k_syms k) name of
        None \<Rightarrow> None
      | Some s \<Rightarrow> if sy_nodes (k_sym k s) = [] then None else Some s)"

definition set_line :: "kconf \<Rightarrow> string \<Rightarrow> nat \<Rightarrow> string \<Rightarrow> string \<Rightarrow> kstate \<Rightarrow> kstate res" where
  "set_line k filename linenr name val st =
     (case defined_sym k name of
        None \<Rightarrow> Inr (undef_assign name val filename linenr st)
      | Some s \<Rightarrow>
          let ty = sy_type (k_sym k s) in
          if bool_tristate ty
          then (if ty = BOOL \<and> take 1 val \<in> {''y'', ''n''} \<or> ty = TRISTATE \<and> take 1 val \<in> {''y'', ''m'', ''n''}
                then assign k filename linenr s (take 1 val) (infer_mode k filename linenr s (take 1 val) st)
                else Inr (warn_at ([CHR 0x27] @ val @ [CHR 0x27] @ '' is not a valid value for the '' @ TYPE_TO_STR ty
                            @ '' symbol '' @ name_and_loc k (Sym s) @ ''. Assignment ignored.'') filename linenr st))
          else if ty = STRING
          then (case conf_string_match val of
                  None \<Rightarrow> Inr (warn_at (''malformed string literal in assignment to '' @ name_and_loc k (Sym s)
                             @ ''. Assignment ignored.'') filename linenr st)
                | Some t \<Rightarrow> assign k filename linenr s (unescape t) st)
          else assign k filename linenr s val st)"

definition unset_line :: "kconf \<Rightarrow> string \<Rightarrow> nat \<Rightarrow> string \<Rightarrow> kstate \<Rightarrow> kstate res" where
  "unset_line k filename linenr name st =
     (case defined_sym k name of
        None \<Rightarrow> Inr (undef_assign name ''n'' filename linenr st)
      | Some s \<Rightarrow>
          if bool_tristate (sy_type (k_sym k s)) then assign k filename linenr s ''n'' st else Inr st)"

definition load_line :: "kconf \<Rightarrow> string \<Rightarrow> kstate \<Rightarrow> nat \<times> string \<Rightarrow> kstate res" where
  "load_line k filename st x =
     (let (linenr, line) = x; line = py_rstrip line in
      case set_match k line of
        Some (name, val) \<Rightarrow> set_line k filename linenr name val st
      | None \<Rightarrow>
          (case unset_match k line of
             Some name \<Rightarrow> unset_line k filename linenr name st
           | None \<Rightarrow>
               if line \<noteq> [] \<and> take 1 (py_lstrip line) \<noteq> ''#''
               then Inr (warn_at (''ignoring malformed line '' @ [CHR 0x27] @ line @ [CHR 0x27]) filename linenr st)
               else Inr st))"

definition clear_was_set :: "kconf \<Rightarrow> kstate \<Rightarrow> kstate" where
  "clear_was_set k st =
     st\<lparr>ks_missing := [],
        ks_was_set := (\<lambda>s. if s \<in> set (k_defined k) then False else ks_was_set st s),
        ks_cwas_set := (\<lambda>c. if c \<in> set (k_choices k) then False else ks_cwas_set st c)\<rparr>"

definition unset_rest :: "kconf \<Rightarrow> kstate \<Rightarrow> kstate" where
  "unset_rest k st =
     fold (\<lambda>c st. if ks_cwas_set st c then st else choice_unset_value k c st) (k_choices k)
       (fold (\<lambda>s st. if ks_was_set st s then st else unset_value k s st) (k_defined k) st)"

text \<open>\<open>_load_config\<close> on the text of the file.\<close>

definition load_text :: "kconf \<Rightarrow> string \<Rightarrow> string \<Rightarrow> bool \<Rightarrow> kstate \<Rightarrow> kstate res" where
  "load_text k filename txt replace st =
     (let st = (if replace then clear_was_set k st else st) in
      rbind (rfold (load_line k filename) st (zip [1..<length (file_lines txt) + 1] (file_lines txt))) (\<lambda>st.
      Inr (if replace then unset_rest k st else st)))"

definition standard_config_filename :: "fsys \<Rightarrow> string" where
  "standard_config_filename fs = (case fs_env fs ''KCONFIG_CONFIG'' of None \<Rightarrow> ''.config'' | Some f \<Rightarrow> f)"

definition kread :: "nat \<Rightarrow> kconf \<Rightarrow> 'r kcomp \<Rightarrow> kstate \<Rightarrow> ('r \<times> kstate) res" where
  "kread n k c st = (case kask n k c st of None \<Rightarrow> Inl RecursionError | Some x \<Rightarrow> Inr x)"

fun first_defconfig :: "nat \<Rightarrow> kconf \<Rightarrow> fsys \<Rightarrow> (expr \<times> expr) list \<Rightarrow> kstate \<Rightarrow> (string option \<times> kstate) res" where
  "first_defconfig n k fs [] st = Inr (None, st)"
| "first_defconfig n k fs ((filename, cond) # ds) st =
     rbind (kread n k (expr_value k cond) st) (\<lambda>(v, st).
       if v = 0 then first_defconfig n k fs ds st
       else case filename of
              EItem (Sym f) \<Rightarrow>
                rbind (kread n k (ask_str f) st) (\<lambda>(name, st).
                  case open_config fs name of
                    Inr (opened, _) \<Rightarrow> Inr (Some opened, st)
                  | Inl _ \<Rightarrow> first_defconfig n k fs ds st)
            | _ \<Rightarrow> Inl TypeError)"

definition defconfig_filename :: "nat \<Rightarrow> kconf \<Rightarrow> fsys \<Rightarrow> kstate \<Rightarrow> (string option \<times> kstate) res" where
  "defconfig_filename n k fs st =
     (case k_defconfig_list k of
        None \<Rightarrow> Inr (None, st)
      | Some s \<Rightarrow> first_defconfig n k fs (sy_defaults (k_sym k s)) st)"

text \<open>\<open>exists\<close> on a name: only regular files are modelled.\<close>

definition load_named :: "kconf \<Rightarrow> fsys \<Rightarrow> string \<Rightarrow> bool \<Rightarrow> string \<Rightarrow> kstate \<Rightarrow> (string \<times> kstate) res" where
  "load_named k fs filename replace msg st =
     rbind (open_config fs filename) (\<lambda>(_, txt).
     rbind (load_text k filename txt replace (st\<lparr>ks_warn_no_prompt := False\<rparr>)) (\<lambda>st.
     Inr ((if replace then ''Loaded'' else ''Merged'') @ msg, st\<lparr>ks_warn_no_prompt := True\<rparr>)))"

definition quoted :: "string \<Rightarrow> string" where
  "quoted t = [CHR 0x27] @ t @ [CHR 0x27]"

definition load_config :: "nat \<Rightarrow> kconf \<Rightarrow> fsys \<Rightarrow> string option \<Rightarrow> bool \<Rightarrow> kstate \<Rightarrow> (string \<times> kstate) res" where
  "load_config n k fs filename replace st =
     (case filename of
        Some f \<Rightarrow> load_named k fs f replace ('' configuration '' @ quoted f) st
      | None \<Rightarrow>
          let f = standard_config_filename fs in
          if fs_file fs f = None \<and> fs_file fs (path_join (fs_srctree fs) f) = None
          then rbind (defconfig_filename n k fs st) (\<lambda>(d, st).
               case d of
                 None \<Rightarrow> Inr (''Using default symbol values (no '' @ quoted f @ '')'', st)
               | Some d \<Rightarrow>
                   load_named k fs d replace
                     ('' default configuration '' @ quoted d @ '' (no '' @ quoted f @ '')'') st)
          else load_named k fs f replace ('' configuration '' @ quoted f) st)"

text \<open>\<open>KCONFIG_ALLCONFIG\<close>; the message printed is the first component.\<close>

definition load_allconfig :: "nat \<Rightarrow> kconf \<Rightarrow> fsys \<Rightarrow> string \<Rightarrow> kstate \<Rightarrow> (string \<times> kstate) res" where
  "load_allconfig n k fs filename st =
     (case fs_env fs ''KCONFIG_ALLCONFIG'' of
        None \<Rightarrow> Inr ([], st)
      | Some a \<Rightarrow>
          let st' = st\<lparr>ks_warn_override := False, ks_warn_redun := False\<rparr>;
              load = (\<lambda>f. load_config n k fs (Some f) False st');
              done = (\<lambda>(msg, st2). Inr (msg, st2\<lparr>ks_warn_override := ks_warn_override st, ks_warn_redun := ks_warn_redun st\<rparr>))
          in if a = [] \<or> a = ''1''
             then (case load filename of
                     Inr r \<Rightarrow> done r
                   | Inl (OSError _) \<Rightarrow>
                       (case load ''all.config'' of
                          Inr r \<Rightarrow> done r
                        | Inl (OSError _) \<Rightarrow>
                            Inl (SystemExit (''error: KCONFIG_ALLCONFIG is set, but neither '' @ filename
                              @ '' nor all.config could be opened''))
                        | Inl e \<Rightarrow> Inl e)
                   | Inl e \<Rightarrow> Inl e)
             else (case load a of
                     Inr r \<Rightarrow> done r
                   | Inl (OSError _) \<Rightarrow>
                       Inl (SystemExit (''error: KCONFIG_ALLCONFIG is set to '' @ quoted a @ '', which could not be opened''))
                   | Inl e \<Rightarrow> Inl e))"

end
