(* ===== verification/Kc_Write.thy ===== *)
theory Kc_Write
  imports Kc_Config
begin

text \<open>
  What is written: the C header, the full and the minimal \<^verbatim>\<open>.config\<close> file, and the directory
  of dependency files. The text is computed from the values of the symbols (a computation that
  asks for them) and then written unless the file has this text already.
\<close>

subsection \<open>C headers\<close>

definition autoconf_line :: "kconf \<Rightarrow> nat \<Rightarrow> string \<Rightarrow> string" where
  "autoconf_line k s val =
     (let y = k_sym k s; full = ''#define '' @ k_prefix k @ sy_name y in
      if bool_tristate (sy_type y)
      then (if val = ''y'' then full @ '' 1'' @ [newline]
            else if val = ''m'' then full @ ''_MODULE 1'' @ [newline] else [])
      else if sy_type y = STRING then full @ '' '' @ [dquote] @ escape val @ [dquote, newline]
      else (let val = (if sy_type y = HEX \<and> take 2 val \<noteq> ''0x'' \<and> take 2 val \<noteq> ''0X'' then ''0x'' @ val else val)
            in full @ '' '' @ val @ [newline]))"

definition autoconf_contents :: "kconf \<Rightarrow> string option \<Rightarrow> string kcomp" where
  "autoconf_contents k header =
     fold_c (\<lambda>out s. Ask (QStr s) (\<lambda>a. case a of
               AStr val w \<Rightarrow> Ret (if w then out @ autoconf_line k s val else out)
             | _ \<Rightarrow> Fail))
       (case header of None \<Rightarrow> k_header_header k | Some h \<Rightarrow> h) (k_defined k)"

definition write_autoconf ::
  "nat \<Rightarrow> kconf \<Rightarrow> string option \<Rightarrow> string option \<Rightarrow> kstate \<Rightarrow> fsys \<Rightarrow> (string \<times> kstate \<times> fsys) res" where
  "write_autoconf n k filename header st fs =
     (let f = (case filename of
                 Some f \<Rightarrow> f
               | None \<Rightarrow> (case fs_env fs ''KCONFIG_AUTOHEADER'' of
                           None \<Rightarrow> ''include/generated/autoconf.h'' | Some f \<Rightarrow> f))
      in rbind (kread n k (autoconf_contents k header) st) (\<lambda>(txt, st).
         rbind (write_if_changed f txt fs) (\<lambda>(changed, fs).
         Inr (if changed then ''Kconfig header saved to '' @ quoted f else ''No change to Kconfig header in '' @ quoted f,
              st, fs))))"

subsection \<open>Configuration files\<close>

text \<open>
  The body of the loop of \<open>_config_contents\<close> on one step of the walk. The state holds the symbols
  that were written, whether the last thing written was an \<open>end of\<close> comment, and the text.
\<close>

type_synonym cstate = "nat list \<times> bool \<times> string"

definition prompt_text :: "kconf \<Rightarrow> nat \<Rightarrow> string kcomp" where
  "prompt_text k n = (case nd_prompt (k_node k n) of None \<Rightarrow> Fail | Some (t, _) \<Rightarrow> Ret t)"

definition leave_node :: "kconf \<Rightarrow> cstate \<Rightarrow> nat \<Rightarrow> cstate kcomp" where
  "leave_node k st p =
     (case st of (vis, end_comment, out) \<Rightarrow>
      if nd_item (k_node k p) \<noteq> MENU then Ret st
      else cbind (expr_value k (nd_dep (k_node k p))) (\<lambda>d.
           if d = 0 then Ret st
           else cbind (expr_value k (nd_visibility (k_node k p))) (\<lambda>v.
                if v = 0 \<or> p = k_top k then Ret st
                else cbind (prompt_text k p) (\<lambda>t. Ret (vis, True, out @ ''# end of '' @ t @ [newline])))))"

definition menu_comment :: "kconf \<Rightarrow> cstate \<Rightarrow> nat \<Rightarrow> cstate kcomp" where
  "menu_comment k st n =
     (case st of (vis, end_comment, out) \<Rightarrow>
      cbind (prompt_text k n) (\<lambda>t.
        Ret (vis, False, out @ [newline] @ ''#'' @ [newline] @ ''# '' @ t @ [newline] @ ''#'' @ [newline])))"

definition visit_node :: "kconf \<Rightarrow> cstate \<Rightarrow> nat \<Rightarrow> cstate kcomp" where
  "visit_node k st n =
     (case st of (vis, end_comment, out) \<Rightarrow>
      case nd_item (k_node k n) of
        NItem (Sym s) \<Rightarrow>
          if s \<in> set vis then Ret st
          else cbind (config_string k s) (\<lambda>c.
               Ret (if c = [] then (s # vis, end_comment, out)
                    else (s # vis, False, out @ (if end_comment then [newline] else []) @ c)))
      | item \<Rightarrow>
          cbind (expr_value k (nd_dep (k_node k n))) (\<lambda>d.
            if d = 0 then Ret st
            else if item = MENU
            then cbind (expr_value k (nd_visibility (k_node k n))) (\<lambda>v.
                 if v = 0 then Ret st else menu_comment k st n)
            else if item = COMMENT then menu_comment k st n
            else Ret st))"

definition config_event :: "kconf \<Rightarrow> cstate \<Rightarrow> event \<Rightarrow> cstate kcomp" where
  "config_event k st e = (case e of Leave p \<Rightarrow> leave_node k st p | Visit n \<Rightarrow> visit_node k st n)"

definition config_contents :: "nat \<Rightarrow> nat \<Rightarrow> kconf \<Rightarrow> string option \<Rightarrow> string kcomp" where
  "config_contents d f k header =
     (case walk d f k (k_top k) of
        None \<Rightarrow> Fail
      | Some es \<Rightarrow>
          cbind (fold_c (config_event k)
                   ([], False, case header of None \<Rightarrow> k_config_header k | Some h \<Rightarrow> h) es)
            (\<lambda>(_, _, out). Ret out))"

definition write_config ::
  "nat \<Rightarrow> nat \<Rightarrow> nat \<Rightarrow> kconf \<Rightarrow> string option \<Rightarrow> string option \<Rightarrow> bool \<Rightarrow> kstate \<Rightarrow> fsys \<Rightarrow>
     (string \<times> kstate \<times> fsys) res" where
  "write_config n d f k filename header keep_old st fs =
     (let name = (case filename of Some x \<Rightarrow> x | None \<Rightarrow> standard_config_filename fs) in
      rbind (kread n k (config_contents d f k header) st) (\<lambda>(contents, st).
      if contents_eq fs name contents then Inr (''No change to configuration in '' @ quoted name, st, fs)
      else rbind (write_file name contents (if keep_old then save_old name fs else fs)) (\<lambda>fs.
           Inr (''Configuration saved to '' @ quoted name, st, fs))))"

subsection \<open>Minimal configuration files\<close>

definition min_config_string :: "kconf \<Rightarrow> nat \<Rightarrow> string kcomp" where
  "min_config_string k s =
     (let y = k_sym k s;
          write = config_string k s;
          by_choice = (case sy_choice y of
              None \<Rightarrow> write
            | Some c \<Rightarrow>
                if ch_optional (k_chc k c) then write
                else cbind (selection_from_defaults k c) (\<lambda>sel.
                     if sel = Some s \<and> sy_type y = BOOL
                     then cbind (ask_tri s) (\<lambda>v. if v = 2 then Ret [] else write)
                     else write));
          by_default = cbind (ask_str s) (\<lambda>v. cbind (str_default k s) (\<lambda>d. if v = d then Ret [] else by_choice))
      in if sy_choice y = None
         then cbind (ask_vis (Sym s)) (\<lambda>vis. cbind (expr_value k (sy_rev_dep y)) (\<lambda>r.
                if vis \<le> r then Ret [] else by_default))
         else by_default)"

definition min_config_contents :: "kconf \<Rightarrow> string option \<Rightarrow> string kcomp" where
  "min_config_contents k header =
     fold_c (\<lambda>out s. cbind (min_config_string k s) (\<lambda>c. Ret (out @ c)))
       (case header of None \<Rightarrow> k_config_header k | Some h \<Rightarrow> h) (k_defined k)"

definition write_min_config ::
  "nat \<Rightarrow> kconf \<Rightarrow> string \<Rightarrow> string option \<Rightarrow> kstate \<Rightarrow> fsys \<Rightarrow> (string \<times> kstate \<times> fsys) res" where
  "write_min_config n k filename header st fs =
     rbind (kread n k (min_config_contents k header) st) (\<lambda>(txt, st).
     rbind (write_if_changed filename txt fs) (\<lambda>(changed, fs).
     Inr (if changed then ''Minimal configuration saved to '' @ quoted filename
          else ''No change to minimal configuration in '' @ quoted filename, st, fs)))"

subsection \<open>Dependency files\<close>

definition lower_char :: "char \<Rightarrow> char" where
  "lower_char c =
     (let n = (of_char c :: nat) in
      if 65 \<le> n \<and> n \<le> 90 \<or> 192 \<le> n \<and> n \<le> 222 \<and> n \<noteq> 215 then char_of (n + 32) else c)"

definition dep_file :: "string \<Rightarrow> string \<Rightarrow> string" where
  "dep_file dir name =
     dir @ ''/'' @ map (\<lambda>c. if c = CHR ''_'' then CHR ''/'' else c) (map lower_char name) @ ''.h''"

definition dirname :: "string \<Rightarrow> string" where
  "dirname p = (let h = rev (dropWhile (\<lambda>c. c \<noteq> CHR ''/'') (rev p)); b = rev (dropWhile (\<lambda>c. c = CHR ''/'') (rev h))
                in if b = [] then h else b)"

definition touch_dep_file :: "string \<Rightarrow> string \<Rightarrow> fsys \<Rightarrow> fsys" where
  "touch_dep_file dir name fs =
     (let p = dep_file dir name; d = dirname p in
      fs\<lparr>fs_isdir := (\<lambda>x. x = d \<or> fs_isdir fs x), fs_file := (fs_file fs)(p \<mapsto> [])\<rparr>)"

text \<open>The \<open>_old_val\<close> fields, and the files touched for symbols that no longer exist.\<close>

definition old_val_line :: "kconf \<Rightarrow> string \<Rightarrow> (nat \<Rightarrow> string option) \<times> fsys \<Rightarrow> string \<Rightarrow> (nat \<Rightarrow> string option) \<times> fsys" where
  "old_val_line k dir x line =
     (case x of (old, fs) \<Rightarrow>
      case set_match k line of
        None \<Rightarrow> (old, fs)
      | Some (name, val) \<Rightarrow>
          (case map_of (k_syms k) name of
             None \<Rightarrow> (old, touch_dep_file dir name fs)
           | Some s \<Rightarrow>
               if sy_type (k_sym k s) = STRING
               then (case conf_string_match val of
                       None \<Rightarrow> (old, fs)
                     | Some t \<Rightarrow> (old(s \<mapsto> unescape t), fs))
               else (old(s \<mapsto> val), fs)))"

definition load_old_vals :: "kconf \<Rightarrow> string \<Rightarrow> fsys \<Rightarrow> (nat \<Rightarrow> string option) \<times> fsys" where
  "load_old_vals k dir fs =
     (case open_r fs (path_join dir ''auto.conf'') of
        Inl _ \<Rightarrow> (\<lambda>_. None, fs)
      | Inr txt \<Rightarrow> foldl (old_val_line k dir) (\<lambda>_. None, fs) (file_lines txt))"

definition old_val_string :: "kconf \<Rightarrow> nat \<Rightarrow> string kcomp" where
  "old_val_string k s =
     (if bool_tristate (sy_type (k_sym k s))
      then cbind (ask_tri s) (\<lambda>v. if v = 0 then Ret [] else config_string k s)
      else config_string k s)"

definition old_vals_contents :: "kconf \<Rightarrow> string kcomp" where
  "old_vals_contents k = fold_c (\<lambda>out s. cbind (old_val_string k s) (\<lambda>c. Ret (out @ c))) [] (k_defined k)"

definition write_old_vals :: "nat \<Rightarrow> kconf \<Rightarrow> string \<Rightarrow> kstate \<Rightarrow> fsys \<Rightarrow> (kstate \<times> fsys) res" where
  "write_old_vals n k dir st fs =
     rbind (kread n k (old_vals_contents k) st) (\<lambda>(txt, st).
     rbind (write_if_changed (path_join dir ''auto.conf'') txt fs) (\<lambda>(_, fs). Inr (st, fs)))"

text \<open>Is the new value of a symbol different from the one in \<^verbatim>\<open>auto.conf\<close>?\<close>

definition sym_changed :: "kconf \<Rightarrow> nat \<Rightarrow> string option \<Rightarrow> string \<Rightarrow> bool \<Rightarrow> bool" where
  "sym_changed k s old val w =
     (if w then \<not> (old = None \<and> bool_tristate (sy_type (k_sym k s)) \<and> val = ''n'') \<and> Some val \<noteq> old
      else old \<noteq> None)"

definition changed_syms :: "kconf \<Rightarrow> (nat \<Rightarrow> string option) \<Rightarrow> nat list kcomp" where
  "changed_syms k old =
     fold_c (\<lambda>out s. Ask (QStr s) (\<lambda>a. case a of
               AStr val w \<Rightarrow> Ret (if sym_changed k s (old s) val w then out @ [s] else out)
             | _ \<Rightarrow> Fail)) [] (k_defined k)"

definition sync_deps :: "nat \<Rightarrow> kconf \<Rightarrow> string \<Rightarrow> kstate \<Rightarrow> fsys \<Rightarrow> (nat list \<times> kstate \<times> fsys) res" where
  "sync_deps n k dir st fs =
     (let fs = (if fs_isdir fs dir then fs else fs\<lparr>fs_isdir := (\<lambda>x. x = dir \<or> fs_isdir fs x)\<rparr>);
          (old, fs) = load_old_vals k dir fs
      in rbind (kread n k (changed_syms k old) st) (\<lambda>(ss, st).
         rbind (write_old_vals n k dir st (foldl (\<lambda>fs s. touch_dep_file dir (sy_name (k_sym k s)) fs) fs ss)) (\<lambda>(st, fs).
         Inr (ss, st, fs))))"

end
