(* ===== verification/Kc_Lines.thy ===== *)
theory Kc_Lines
  imports Kc_Write
begin

text \<open>
  Lines of \<^verbatim>\<open>.config\<close> files: the line that is written for a symbol is read back as the
  assignment of its value, and comments and blank lines are read as nothing.
\<close>

named_theorems line_simps "reading back written lines"

subsection \<open>Splitting and stripping\<close>

lemma univ_nl_id: "cr \<notin> set t \<Longrightarrow> univ_nl t = t"
  by (induction t) auto

lemma file_lines_line: "newline \<notin> set l \<Longrightarrow> file_lines (l @ newline # t) = (l @ [newline]) # file_lines t"
  by (induction l) auto

definition unlines :: "string list \<Rightarrow> string" where
  "unlines ls = concat (map (\<lambda>l. l @ [newline]) ls)"

lemma unlines_simps [simp]:
  "unlines [] = []" "unlines (l # ls) = l @ newline # unlines ls" "unlines (ls @ ls') = unlines ls @ unlines ls'"
  by (simp_all add: unlines_def)

lemma file_lines_unlines:
  "\<forall>l \<in> set ls. newline \<notin> set l \<Longrightarrow> file_lines (unlines ls) = map (\<lambda>l. l @ [newline]) ls"
  by (induction ls) (auto simp: file_lines_line)

lemma py_isspace_simps [simp]: "py_isspace newline" "py_isspace cr" "py_isspace (CHR '' '')"
  by (simp_all add: py_isspace_def)

lemma rstrip_line: "l = [] \<or> \<not> py_isspace (last l) \<Longrightarrow> py_rstrip (l @ [newline]) = l"
  by (cases l rule: rev_cases) (auto simp: py_rstrip_def)

subsection \<open>Matching\<close>

text \<open>Names of symbols, as the tokenizer lets them through.\<close>

definition name_ok :: "string \<Rightarrow> bool" where
  "name_ok name \<longleftrightarrow> name \<noteq> [] \<and> (\<forall>c \<in> set name. c \<noteq> CHR ''='' \<and> \<not> py_isspace c)"

lemma name_okD:
  assumes "name_ok name"
  shows "CHR ''='' \<notin> set name" "CHR '' '' \<notin> set name" "newline \<notin> set name" "cr \<notin> set name"
proof -
  have ok: "c \<noteq> CHR ''='' \<and> \<not> py_isspace c" if "c \<in> set name" for c
    using assms that unfolding name_ok_def by blast
  show "CHR ''='' \<notin> set name" "CHR '' '' \<notin> set name" "newline \<notin> set name" "cr \<notin> set name"
    using ok [of "CHR ''=''"] ok [of "CHR '' ''"] ok [of newline] ok [of cr] py_isspace_simps by blast+
qed

lemma takeWhile_stop: "c \<notin> set xs \<Longrightarrow> takeWhile (\<lambda>x. x \<noteq> c) (xs @ c # ys) = xs"
  by (induction xs) auto

lemma dropWhile_stop: "c \<notin> set xs \<Longrightarrow> dropWhile (\<lambda>x. x \<noteq> c) (xs @ c # ys) = c # ys"
  by (induction xs) auto

lemma takeWhile_all: "c \<notin> set xs \<Longrightarrow> takeWhile (\<lambda>x. x \<noteq> c) xs = xs"
  by (induction xs) auto

lemma set_match_set [line_simps]:
  assumes "name_ok name" "newline \<notin> set v"
  shows "set_match k (k_prefix k @ name @ CHR ''='' # v) = Some (name, v)"
  using assms name_okD [OF assms(1)]
  by (simp add: set_match_def Let_def takeWhile_stop dropWhile_stop takeWhile_all name_ok_def)

lemma set_match_hash [line_simps]: "k_prefix k = ''CONFIG_'' \<Longrightarrow> set_match k (CHR ''#'' # t) = None"
  by (simp add: set_match_def)

lemma set_match_Nil [line_simps]: "k_prefix k = ''CONFIG_'' \<Longrightarrow> set_match k [] = None"
  by (simp add: set_match_def)

lemma unset_match_unset [line_simps]:
  assumes "name_ok name"
  shows "unset_match k (CHR ''#'' # CHR '' '' # k_prefix k @ name @ '' is not set'') = Some name"
  using assms name_okD [OF assms(1)]
  by (simp add: unset_match_def Let_def takeWhile_stop dropWhile_stop name_ok_def)

lemma unset_match_comment [line_simps]:
  "k_prefix k = ''CONFIG_'' \<Longrightarrow> \<not> startswith t ''CONFIG_'' \<Longrightarrow> unset_match k (CHR ''#'' # CHR '' '' # t) = None"
  "k_prefix k = ''CONFIG_'' \<Longrightarrow> unset_match k ''#'' = None" "k_prefix k = ''CONFIG_'' \<Longrightarrow> unset_match k [] = None"
  by (auto simp: unset_match_def Let_def startswith_def)

lemma conf_body_escape: "conf_body (escape t @ dquote # u) = Some (escape t)"
  if "newline \<notin> set t"
  using that
  by (induction t) auto

lemma conf_string_match_escape [line_simps]:
  "newline \<notin> set t \<Longrightarrow> conf_string_match (dquote # escape t @ [dquote]) = Some (escape t)"
  by (simp add: conf_string_match_def conf_body_escape)

end
