(* ===== verification/Kc_Saved.thy ===== *)
theory Kc_Saved
  imports Kc_Lines Kc_Loop
begin

text \<open>
  What \<open>_config_contents\<close> writes, as a list of lines: comments, and one line for each symbol
  whose value is written.
\<close>

subsection \<open>Lines of symbols and comments\<close>

datatype out_line = OComment string | OSym nat string

definition sym_line :: "kconf \<Rightarrow> nat \<Rightarrow> string \<Rightarrow> string" where
  "sym_line k s val =
     (let y = k_sym k s; full = k_prefix k @ sy_name y in
      if bool_tristate (sy_type y)
      then (if val \<noteq> ''n'' then full @ ''='' @ val else ''# '' @ full @ '' is not set'')
      else if int_hex (sy_type y) then full @ ''='' @ val
      else full @ ''='' @ [dquote] @ escape val @ [dquote])"

lemma config_line_sym_line: "config_line k s val = sym_line k s val @ [newline]"
  by (simp add: config_line_def sym_line_def Let_def)

definition render :: "kconf \<Rightarrow> out_line \<Rightarrow> string" where
  "render k l = (case l of OComment t \<Rightarrow> t | OSym s v \<Rightarrow> sym_line k s v)"

definition harmless :: "string \<Rightarrow> bool" where
  "harmless l \<longleftrightarrow>
     newline \<notin> set l \<and> cr \<notin> set l \<and> (l = [] \<or> hd l = CHR ''#'' \<and> \<not> startswith l ''# CONFIG_'')"

lemma rstrip_prefix: "\<exists>u. l = py_rstrip l @ u"
proof -
  have "rev l = takeWhile py_isspace (rev l) @ dropWhile py_isspace (rev l)" by simp
  then have "l = rev (dropWhile py_isspace (rev l)) @ rev (takeWhile py_isspace (rev l))"
    by (metis rev_append rev_rev_ident)
  then show ?thesis unfolding py_rstrip_def by blast
qed

lemma rstrip_newline: "py_rstrip (l @ [newline]) = py_rstrip l"
  by (simp add: py_rstrip_def)

lemma load_harmless:
  assumes p: "k_prefix k = ''CONFIG_''" and l: "harmless l"
  shows "load_line k f st (n, l @ [newline]) = Inr st"
proof -
  obtain u where u: "l = py_rstrip l @ u" using rstrip_prefix by blast
  show ?thesis
  proof (cases "py_rstrip l")
    case Nil
    then show ?thesis using p by (simp add: load_line_def Let_def rstrip_newline line_simps)
  next
    case (Cons c r)
    with u have l': "l = c # r @ u" by simp
    with l have c: "c = CHR ''#''" by (auto simp: harmless_def)
    have "unset_match k (c # r) = None"
    proof (cases r)
      case (Cons d r')
      show ?thesis
      proof (cases "d = CHR '' ''")
        case True
        have "\<not> startswith r' ''CONFIG_''"
          using l l' Cons True c by (auto simp: harmless_def startswith_def take_Cons' split: if_splits)
        with True Cons c p show ?thesis by (simp add: line_simps)
      qed (use Cons c p in \<open>simp add: unset_match_def\<close>)
    qed (use c p in \<open>simp add: line_simps\<close>)
    with Cons c p show ?thesis
      by (simp add: load_line_def Let_def rstrip_newline line_simps py_lstrip_def) (simp add: py_isspace_def)
  qed
qed

lemma harmless_simps [simp]: "harmless []" "harmless ''#''"
  by (simp_all add: harmless_def startswith_def)

lemma startswith_Cons [simp]: "startswith (c # t) (d # u) \<longleftrightarrow> c = d \<and> startswith t u"
  by (simp add: startswith_def)

lemma harmless_texts:
  "harmless (''# end of '' @ t) \<longleftrightarrow> newline \<notin> set t \<and> cr \<notin> set t"
  "harmless (''# '' @ t) \<longleftrightarrow> newline \<notin> set t \<and> cr \<notin> set t \<and> \<not> startswith t ''CONFIG_''"
  by (auto simp: harmless_def startswith_def)

lemmas harmless_texts_simps [simp] = harmless_texts [simplified]

subsection \<open>The contents of a configuration file\<close>

text \<open>
  Conditions on the text of a configuration: its prompts are one line and are not taken for
  an assignment, its symbols are known by their names.
\<close>

definition prompts_ok :: "kconf \<Rightarrow> bool" where
  "prompts_ok k \<longleftrightarrow>
     (\<forall>n t e. nd_item (k_node k n) \<in> {MENU, COMMENT} \<longrightarrow> nd_prompt (k_node k n) = Some (t, e) \<longrightarrow>
        newline \<notin> set t \<and> cr \<notin> set t \<and> \<not> startswith t ''CONFIG_'')"

definition written :: "kconf \<Rightarrow> kstate \<Rightarrow> nat \<Rightarrow> string \<Rightarrow> bool" where
  "written k st s v \<longleftrightarrow> has (kbody k) (kinp st) (QStr s) (AStr v True)"

definition out_inv :: "kconf \<Rightarrow> kstate \<Rightarrow> nat list \<Rightarrow> string \<Rightarrow> out_line list \<Rightarrow> bool" where
  "out_inv k st vis out ls \<longleftrightarrow>
     out = unlines (map (render k) ls)
     \<and> (\<forall>t. OComment t \<in> set ls \<longrightarrow> harmless t)
     \<and> (\<forall>s v. OSym s v \<in> set ls \<longleftrightarrow> s \<in> set vis \<and> written k st s v)
     \<and> distinct [s. OSym s v \<leftarrow> ls]"

lemma written_unique: "written k st s v \<Longrightarrow> written k st s w \<Longrightarrow> v = w"
  unfolding written_def by (drule (1) has_unique) simp

lemma out_inv_comment:
  "out_inv k st vis out ls \<Longrightarrow> harmless t \<Longrightarrow> out_inv k st vis (out @ t @ [newline]) (ls @ [OComment t])"
  by (auto simp: out_inv_def render_def)

lemma out_inv_sym:
  assumes "out_inv k st vis out ls" "s \<notin> set vis" "written k st s v"
  shows "out_inv k st (s # vis) (out @ config_line k s v) (ls @ [OSym s v])"
proof -
  have w: "written k st s w \<longleftrightarrow> w = v" for w
    using assms(3) by (auto dest: written_unique)
  have ls: "OSym s w \<notin> set ls" for w using assms(1,2) by (simp add: out_inv_def)
  show ?thesis
    using assms(1,2) ls by (auto simp: out_inv_def render_def config_line_sym_line w)
qed

lemma out_inv_skip:
  assumes "out_inv k st vis out ls" "\<And>v. \<not> written k st s v"
  shows "out_inv k st (s # vis) out ls"
  using assms by (auto simp: out_inv_def)

lemma sem_prompt_text: "sem body inp (prompt_text k n) t \<longleftrightarrow> (\<exists>e. nd_prompt (k_node k n) = Some (t, e))"
  by (auto simp: prompt_text_def split: option.splits)

lemma leave_out:
  assumes p: "prompts_ok k" and inv: "out_inv k st vis out ls"
    and sem: "sem (kbody k) (kinp st) (leave_node k (vis, e, out) n) (vis', e', out')"
  shows "vis' = vis \<and> (\<exists>ls'. out_inv k st vis' out' ls')"
proof -
  have "vis' = vis \<and> (out' = out \<or> (\<exists>t. out' = out @ (''# end of '' @ t) @ [newline] \<and> harmless (''# end of '' @ t)))"
    using sem p
    by (auto simp: leave_node_def sem_cbind sem_prompt_text prompts_ok_def split: if_splits)
  with inv out_inv_comment [OF inv] show ?thesis by blast
qed

lemma menu_comment_out:
  assumes p: "prompts_ok k" and inv: "out_inv k st vis out ls" and n: "nd_item (k_node k n) \<in> {MENU, COMMENT}"
    and sem: "sem (kbody k) (kinp st) (menu_comment k (vis, e, out) n) (vis', e', out')"
  shows "vis' = vis \<and> (\<exists>ls'. out_inv k st vis' out' ls')"
proof -
  obtain t where t: "out' = (((out @ [] @ [newline]) @ ''#'' @ [newline]) @ (''# '' @ t) @ [newline]) @ ''#'' @ [newline]"
    "vis' = vis" "harmless (''# '' @ t)"
    using sem p n by (auto simp: menu_comment_def sem_cbind sem_prompt_text prompts_ok_def)
  note step = out_inv_comment
  from step [OF step [OF step [OF step [OF inv harmless_simps(1)] harmless_simps(2)] t(3)] harmless_simps(2)]
  show ?thesis unfolding t(1,2) by blast
qed

lemma config_line_nonempty [simp]: "config_line k s v \<noteq> []" "[] \<noteq> config_line k s v"
  unfolding config_line_sym_line by auto

lemma sem_config_string:
  "sem body inp (config_string k s) c \<longleftrightarrow>
     (\<exists>v w. has body inp (QStr s) (AStr v w) \<and> c = (if w then config_line k s v else []))"
proof
  assume "sem body inp (config_string k s) c"
  then obtain a where a: "has body inp (QStr s) a"
    "sem body inp (case a of AStr val w \<Rightarrow> Ret (if w then config_line k s val else []) | _ \<Rightarrow> Fail) c"
    unfolding config_string_def sem_Ask by blast
  show "\<exists>v w. has body inp (QStr s) (AStr v w) \<and> c = (if w then config_line k s v else [])"
  proof (cases a)
    case (AStr v w)
    with a have "has body inp (QStr s) (AStr v w) \<and> c = (if w then config_line k s v else [])" by simp
    then show ?thesis by blast
  qed (use a in simp_all)
next
  assume "\<exists>v w. has body inp (QStr s) (AStr v w) \<and> c = (if w then config_line k s v else [])"
  then obtain v w where "has body inp (QStr s) (AStr v w)" "c = (if w then config_line k s v else [])" by blast
  then show "sem body inp (config_string k s) c"
    unfolding config_string_def sem_Ask by (intro exI [of _ "AStr v w"]) simp
qed

lemma has_str_AStr:
  assumes "users_ok k st" "has (kbody k) (kinp st) (QStr s) a"
  shows "\<exists>v w. a = AStr v w"
  using value_typed [OF assms] by (auto simp: kgood_def)

lemma visit_out:
  assumes p: "prompts_ok k" and inv: "out_inv k st vis out ls"
    and sem: "sem (kbody k) (kinp st) (visit_node k (vis, e, out) n) (vis', e', out')"
  shows "set vis' = set vis \<union> {s. nd_item (k_node k n) = NItem (Sym s)} \<and> (\<exists>ls'. out_inv k st vis' out' ls')"
proof (cases "nd_item (k_node k n)")
  case (NItem i)
  show ?thesis
  proof (cases i)
    case (Sym s)
    note item = NItem Sym
    show ?thesis
    proof (cases "s \<in> set vis")
      case True
      with sem item inv show ?thesis by (auto simp: visit_node_def)
    next
      case False
      with sem item obtain v w where v: "has (kbody k) (kinp st) (QStr s) (AStr v w)"
        and st': "(vis', e', out') = (if w then (s # vis, False, out @ (if e then [newline] else []) @ config_line k s v)
            else (s # vis, e, out))"
        by (auto simp: visit_node_def sem_cbind sem_config_string split: if_splits)
      have inv': "\<exists>ls'. out_inv k st vis (out @ (if e then [newline] else [])) ls'"
        using out_inv_comment [OF inv, of "[]"] inv by auto
      show ?thesis
      proof (cases w)
        case True
        with v have "written k st s v" by (simp add: written_def)
        with inv' False out_inv_sym st' True item show ?thesis by fastforce
      next
        case w: False
        have "\<not> written k st s v'" for v'
          using has_unique [OF v] w by (auto simp: written_def)
        from out_inv_skip [OF inv this] st' w item show ?thesis by auto
      qed
    qed
  next
    case (Chc c)
    with sem NItem inv show ?thesis by (auto simp: visit_node_def sem_cbind split: if_splits)
  qed
next
  case MENU
  with sem inv menu_comment_out [OF p inv, of n] show ?thesis
    by (auto simp: visit_node_def sem_cbind split: if_splits)
next
  case COMMENT
  with sem inv menu_comment_out [OF p inv, of n] show ?thesis
    by (auto simp: visit_node_def sem_cbind split: if_splits)
next
  case NIf
  with sem inv show ?thesis by (auto simp: visit_node_def sem_cbind split: if_splits)
qed

lemma fold_events_out:
  assumes p: "prompts_ok k"
  shows "out_inv k st vis out ls \<Longrightarrow>
     sem (kbody k) (kinp st) (fold_c (config_event k) (vis, e, out) es) (vis', e', out') \<Longrightarrow>
     set vis' = set vis \<union> {s. \<exists>n. Visit n \<in> set es \<and> nd_item (k_node k n) = NItem (Sym s)}
     \<and> (\<exists>ls'. out_inv k st vis' out' ls')"
proof (induction es arbitrary: vis e out ls)
  case (Cons ev es)
  from Cons.prems(2) obtain vis1 e1 out1 where
    1: "sem (kbody k) (kinp st) (config_event k (vis, e, out) ev) (vis1, e1, out1)"
    and 2: "sem (kbody k) (kinp st) (fold_c (config_event k) (vis1, e1, out1) es) (vis', e', out')"
    by (auto simp: sem_cbind)
  have "set vis1 = set vis \<union> {s. \<exists>n. ev = Visit n \<and> nd_item (k_node k n) = NItem (Sym s)}
      \<and> (\<exists>ls'. out_inv k st vis1 out1 ls')"
  proof (cases ev)
    case (Visit n)
    with 1 visit_out [OF p Cons.prems(1), of e n vis1 e1 out1] show ?thesis by (simp add: config_event_def)
  next
    case (Leave n)
    with 1 leave_out [OF p Cons.prems(1), of e n vis1 e1 out1] show ?thesis by (auto simp: config_event_def)
  qed
  with Cons.IH [OF _ 2] show ?case by auto
qed auto

lemma config_contents_out:
  assumes p: "prompts_ok k" and header: "k_config_header k = []"
    and sem: "sem (kbody k) (kinp st) (config_contents d f k None) txt"
  shows "\<exists>es vis ls. walk d f k (k_top k) = Some es \<and> out_inv k st vis txt ls
     \<and> set vis = {s. \<exists>n. Visit n \<in> set es \<and> nd_item (k_node k n) = NItem (Sym s)}"
proof -
  have init: "out_inv k st [] [] []" by (simp add: out_inv_def)
  from sem header obtain es vis e where es: "walk d f k (k_top k) = Some es"
    and fold: "sem (kbody k) (kinp st) (fold_c (config_event k) ([], False, []) es) (vis, e, txt)"
    by (auto simp: config_contents_def sem_cbind split: option.splits)
  from fold_events_out [OF p init fold] es show ?thesis by auto
qed

end
