(* ===== verification/Kc_Load.thy ===== *)
theory Kc_Load
  imports Kc_Saved
begin

text \<open>
  What loading does to the user values: every symbol line assigns its value, and the symbols
  without a valid line are unset.
\<close>

subsection \<open>The user-visible part of the state\<close>

definition core where
  "core st = (ks_user st, ks_cuser st, ks_csel st, ks_was_set st, ks_cwas_set st)"

lemma core_invalidate_deps [simp]: "core (invalidate_deps k is st) = core st"
  by (induction k "is" st rule: invalidate_deps.induct)
    (subst invalidate_deps.simps, simp add: core_def invalidate_def invalidate_all_def)+

lemma core_simps [simp]:
  "core (rec_invalidate k i st) = core st" "core (warn_msg w st) = core st" "core (warn_at w f n st) = core st"
  "core (rec_invalidate_if_has_prompt k s st) = core st"
  by (simp_all add: rec_invalidate_def rec_invalidate_if_has_prompt_def invalidate_all_def warn_msg_def warn_at_def)
    (simp_all add: core_def invalidate_def)

lemma users_ok_core: "core st = core st' \<Longrightarrow> users_ok k st = users_ok k st'"
  by (simp add: core_def users_ok_def)

text \<open>A value for a symbol, as \<open>set_value\<close> stores it, when it is accepted.\<close>

definition accepted :: "kconf \<Rightarrow> nat \<Rightarrow> string \<Rightarrow> uval option" where
  "accepted k s v =
     (let u = norm_value (sy_type (k_sym k s)) (UStr v)
      in if valid_value (sy_type (k_sym k s)) u then Some u else None)"

lemma set_value_core:
  assumes "users_ok k st"
  shows "core (snd (set_value k s (UStr v) st)) =
    (case accepted k s v of
       None \<Rightarrow> core st
     | Some u \<Rightarrow>
         ((ks_user st)(s \<mapsto> u), ks_cuser st,
          case sy_choice (k_sym k s) of
            Some c \<Rightarrow> if u = UTri 2 then (ks_csel st)(c \<mapsto> s) else ks_csel st
          | None \<Rightarrow> ks_csel st,
          (ks_was_set st)(s := True),
          case sy_choice (k_sym k s) of
            Some c \<Rightarrow> if u = UTri 2 then (ks_cwas_set st)(c := True) else ks_cwas_set st
          | None \<Rightarrow> ks_cwas_set st))"
proof -
  let ?u = "norm_value (sy_type (k_sym k s)) (UStr v)"
  have same: "(ks_user st)(s \<mapsto> ?u) = ks_user st" "valid_value (sy_type (k_sym k s)) ?u" if "ks_user st s = Some ?u"
    using that assms by (auto simp: users_ok_def)
  have upd: "core (st\<lparr>ks_user := a, ks_was_set := b\<rparr>) = (a, ks_cuser st, ks_csel st, b, ks_cwas_set st)"
    "core (st\<lparr>ks_was_set := b\<rparr>) = (ks_user st, ks_cuser st, ks_csel st, b, ks_cwas_set st)"
    "core (st\<lparr>ks_user := a, ks_was_set := b, ks_csel := d, ks_cwas_set := e\<rparr>) = (a, ks_cuser st, d, b, e)" for a b d e
    by (simp_all add: core_def)
  show ?thesis
    using same by (auto simp: set_value_def Let_def accepted_def upd split: option.splits)
qed

lemma choice_yes_core:
  assumes "ch_type (k_chc k c) = BOOL"
  shows "core (snd (choice_set_value k c (UStr ''y'') st)) =
    (ks_user st, (ks_cuser st)(c \<mapsto> 2), ks_csel st, ks_was_set st, (ks_cwas_set st)(c := True))"
proof -
  have norm: "norm_value BOOL (UStr ''y'') = UTri 2" "valid_value BOOL (UTri 2)"
    by (simp_all add: norm_value_def bool_tristate_def STR_TO_TRI_def valid_value_def)
  have "(ks_cuser st)(c \<mapsto> 2) = ks_cuser st" if "ks_cuser st c = Some 2" using that by auto
  then show ?thesis
    by (auto simp: choice_set_value_def Let_def norm assms) (auto simp: core_def)
qed

subsection \<open>Loading one line\<close>

definition text_conf :: "kconf \<Rightarrow> bool" where
  "text_conf k \<longleftrightarrow>
     k_prefix k = ''CONFIG_'' \<and> k_config_header k = [] \<and> prompts_ok k
     \<and> (\<forall>s \<in> set (k_defined k). name_ok (sy_name (k_sym k s))
          \<and> map_of (k_syms k) (sy_name (k_sym k s)) = Some s \<and> sy_nodes (k_sym k s) \<noteq> [])"

text \<open>No tristate symbols and only mandatory bool choices, whose symbols are bool.\<close>

definition bool_conf :: "kconf \<Rightarrow> bool" where
  "bool_conf k \<longleftrightarrow>
     (\<forall>s \<in> set (k_defined k). sy_type (k_sym k s) \<noteq> TRISTATE)
     \<and> (\<forall>c \<in> set (k_choices k). ch_type (k_chc k c) = BOOL \<and> \<not> ch_optional (k_chc k c)
          \<and> (\<forall>s \<in> set (ch_syms (k_chc k c)). sy_type (k_sym k s) = BOOL \<and> sy_choice (k_sym k s) = Some c))"

text \<open>A value that survives being written and read.\<close>

definition clean_value :: "ktype \<Rightarrow> string \<Rightarrow> bool" where
  "clean_value ty v \<longleftrightarrow>
     newline \<notin> set v \<and> cr \<notin> set v
     \<and> (ty = BOOL \<longrightarrow> v = ''y'' \<or> v = ''n'') \<and> (int_hex ty \<longrightarrow> v = [] \<or> \<not> py_isspace (last v))"

lemma defined_sym_name: "text_conf k \<Longrightarrow> s \<in> set (k_defined k) \<Longrightarrow> defined_sym k (sy_name (k_sym k s)) = Some s"
  by (simp add: text_conf_def defined_sym_def)

definition assign_line :: "kconf \<Rightarrow> string \<Rightarrow> nat \<Rightarrow> nat \<Rightarrow> string \<Rightarrow> kstate \<Rightarrow> kstate res" where
  "assign_line k f n s v st =
     assign k f n s v (if sy_type (k_sym k s) = BOOL \<and> v = ''y'' then infer_mode k f n s ''y'' st else st)"

lemma load_sym_line:
  assumes tx: "text_conf k" and s: "s \<in> set (k_defined k)" and v: "clean_value (sy_type (k_sym k s)) v"
    and ty: "sy_type (k_sym k s) \<noteq> TRISTATE" "sy_type (k_sym k s) \<noteq> UNKNOWN"
  shows "load_line k f st (n, sym_line k s v @ [newline]) = assign_line k f n s v st"
proof -
  let ?name = "sy_name (k_sym k s)"
  have p: "k_prefix k = ''CONFIG_''" and name: "name_ok ?name" using tx s by (auto simp: text_conf_def)
  note sym = defined_sym_name [OF tx s]
  have nl: "newline \<notin> set v" using v by (simp add: clean_value_def)
  have set_l: "load_line k f st (n, (k_prefix k @ ?name @ CHR ''='' # t) @ [newline]) = set_line k f n ?name t st"
    if "newline \<notin> set t" "t = [] \<or> \<not> py_isspace (last t)" for t
  proof -
    have "py_rstrip ((k_prefix k @ ?name @ CHR ''='' # t) @ [newline]) = k_prefix k @ ?name @ CHR ''='' # t"
      by (rule rstrip_line) (use that in \<open>auto simp: py_isspace_def\<close>)
    then show ?thesis using set_match_set [OF name that(1)] by (simp add: load_line_def Let_def)
  qed
  consider "sy_type (k_sym k s) = BOOL" "v = ''n''" | "sy_type (k_sym k s) = BOOL" "v = ''y''"
    | "int_hex (sy_type (k_sym k s))" | "sy_type (k_sym k s) = STRING"
    using v ty by (cases "sy_type (k_sym k s)") (auto simp: clean_value_def int_hex_def)
  then show ?thesis
  proof cases
    case 1
    have "py_rstrip ((CHR ''#'' # CHR '' '' # k_prefix k @ ?name @ '' is not set'') @ [newline]) =
        CHR ''#'' # CHR '' '' # k_prefix k @ ?name @ '' is not set''"
      by (rule rstrip_line) (simp add: py_isspace_def)
    with 1 p unset_match_unset [OF name, of k] sym show ?thesis
      by (simp add: sym_line_def Let_def bool_tristate_def load_line_def line_simps unset_line_def assign_line_def)
  next
    case 2
    with set_l [of "''y''"] sym show ?thesis
      by (simp add: sym_line_def Let_def bool_tristate_def set_line_def assign_line_def py_isspace_def)
  next
    case 3
    with set_l [of v] nl v sym show ?thesis
      by (auto simp: sym_line_def Let_def bool_tristate_def int_hex_def set_line_def assign_line_def clean_value_def)
  next
    case 4
    have "newline \<notin> set (escape v)" using nl by (induction v) auto
    with 4 set_l [of "dquote # escape v @ [dquote]"] nl sym show ?thesis
      by (simp add: sym_line_def Let_def bool_tristate_def int_hex_def set_line_def assign_line_def
          line_simps unescape_escape py_isspace_def)
  qed
qed

lemma core_fields:
  "core st = core st' \<longleftrightarrow>
     ks_user st = ks_user st' \<and> ks_cuser st = ks_cuser st' \<and> ks_csel st = ks_csel st'
     \<and> ks_was_set st = ks_was_set st' \<and> ks_cwas_set st = ks_cwas_set st'"
  by (simp add: core_def)

lemma infer_mode_yes:
  assumes wf: "wf_conf k" and bc: "bool_conf k" and ok: "kst_ok k st" "users_ok k st"
  shows "kst_ok k (infer_mode k f n s ''y'' st)" "users_ok k (infer_mode k f n s ''y'' st)"
    "core (infer_mode k f n s ''y'' st) =
      (case sy_choice (k_sym k s) of
         None \<Rightarrow> core st
       | Some c \<Rightarrow> (ks_user st, (ks_cuser st)(c \<mapsto> 2), ks_csel st, ks_was_set st, (ks_cwas_set st)(c := True)))"
proof -
  define st1 where "st1 c = (case ks_cuser st c of
      None \<Rightarrow> st
    | Some z \<Rightarrow> if TRI_TO_STR z \<noteq> ''y''
        then warn_at ''both m and y assigned to symbols within the same choice'' f n st else st)" for c
  have st1: "core (st1 c) = core st" "kst_ok k (st1 c)" for c
    using ok by (auto simp: st1_def split: option.splits)
  have im: "infer_mode k f n s ''y'' st = (case sy_choice (k_sym k s) of
      None \<Rightarrow> st | Some c \<Rightarrow> snd (choice_set_value k c (UStr ''y'') (st1 c)))"
    by (simp add: infer_mode_def st1_def split: option.splits)
  have us: "users_ok k (st1 c)" for c using st1(1) ok(2) users_ok_core by blast
  show "kst_ok k (infer_mode k f n s ''y'' st)" "users_ok k (infer_mode k f n s ''y'' st)"
    using ok us st1(2) wf_confD(8) [OF wf] unfolding im
    by (auto intro: choice_set_value_ok [OF wf] set_value_users [OF wf] split: option.splits)
  have "ch_type (k_chc k c) = BOOL" if "sy_choice (k_sym k s) = Some c" for c
    using bc wf_confD(8) [OF wf that] by (auto simp: bool_conf_def)
  then show "core (infer_mode k f n s ''y'' st) =
      (case sy_choice (k_sym k s) of
         None \<Rightarrow> core st
       | Some c \<Rightarrow> (ks_user st, (ks_cuser st)(c \<mapsto> 2), ks_csel st, ks_was_set st, (ks_cwas_set st)(c := True)))"
    using st1(1) unfolding im by (auto simp: choice_yes_core core_fields split: option.splits)
qed

lemma assign_line_core:
  assumes wf: "wf_conf k" and bc: "bool_conf k" and ok: "kst_ok k st" "users_ok k st"
    and s: "s \<in> set (k_defined k)" "\<not> ks_was_set st s" and v: "clean_value (sy_type (k_sym k s)) v"
  shows "\<exists>st'. assign_line k f n s v st = Inr st' \<and> kst_ok k st' \<and> users_ok k st' \<and>
    core st' = (case accepted k s v of
        None \<Rightarrow> core st
      | Some u \<Rightarrow>
          (case (if u = UTri 2 then sy_choice (k_sym k s) else None) of
             None \<Rightarrow> ((ks_user st)(s \<mapsto> u), ks_cuser st, ks_csel st, (ks_was_set st)(s := True), ks_cwas_set st)
           | Some c \<Rightarrow> ((ks_user st)(s \<mapsto> u), (ks_cuser st)(c \<mapsto> 2), (ks_csel st)(c \<mapsto> s),
                        (ks_was_set st)(s := True), (ks_cwas_set st)(c := True))))"
proof -
  define st1 where "st1 = (if sy_type (k_sym k s) = BOOL \<and> v = ''y'' then infer_mode k f n s ''y'' st else st)"
  note im = infer_mode_yes [OF wf bc ok, of f n s]
  have ok1: "kst_ok k st1" "users_ok k st1" using im ok by (auto simp: st1_def)
  have acc: "accepted k s ''y'' = Some (UTri 2)" if "sy_type (k_sym k s) = BOOL"
    using that by (simp add: accepted_def norm_value_def bool_tristate_def STR_TO_TRI_def valid_value_def)
  have choice: "sy_type (k_sym k s) = BOOL" if "sy_choice (k_sym k s) = Some c" for c
    using bc wf_confD(8,9) [OF wf that] by (auto simp: bool_conf_def)
  have no: "accepted k s v \<noteq> Some (UTri 2)" if "\<not> (sy_type (k_sym k s) = BOOL \<and> v = ''y'')" "sy_choice (k_sym k s) = Some c" for c
    using that v choice [OF that(2)]
    by (auto simp: clean_value_def accepted_def norm_value_def bool_tristate_def STR_TO_TRI_def Let_def split: if_splits)
  have was: "\<not> ks_was_set st1 s"
    using s(2) im(3) by (auto simp: st1_def core_fields core_def split: option.splits)
  then have "assign_line k f n s v st = Inr (snd (set_value k s (UStr v) st1))"
    by (simp add: assign_line_def assign_def st1_def [symmetric])
  moreover have "kst_ok k (snd (set_value k s (UStr v) st1))" "users_ok k (snd (set_value k s (UStr v) st1))"
    using ok1 by (auto intro: set_value_ok [OF wf] set_value_users [OF wf])
  moreover have "core (snd (set_value k s (UStr v) st1)) =
    (case accepted k s v of
        None \<Rightarrow> core st
      | Some u \<Rightarrow>
          (case (if u = UTri 2 then sy_choice (k_sym k s) else None) of
             None \<Rightarrow> ((ks_user st)(s \<mapsto> u), ks_cuser st, ks_csel st, (ks_was_set st)(s := True), ks_cwas_set st)
           | Some c \<Rightarrow> ((ks_user st)(s \<mapsto> u), (ks_cuser st)(c \<mapsto> 2), (ks_csel st)(c \<mapsto> s),
                        (ks_was_set st)(s := True), (ks_cwas_set st)(c := True))))"
    unfolding set_value_core [OF ok1(2)]
    using im(3) acc no by (auto simp: st1_def core_def fun_eq_iff split: option.splits if_splits)
  ultimately show ?thesis by blast
qed

subsection \<open>Loading a file\<close>

text \<open>The assignments \<open>A\<close> have been made since \<open>clear_was_set\<close>.\<close>

definition loaded :: "kconf \<Rightarrow> (nat \<Rightarrow> uval option) \<Rightarrow> kstate \<Rightarrow> bool" where
  "loaded k A st \<longleftrightarrow>
     (\<forall>s u. A s = Some u \<longrightarrow> ks_user st s = Some u)
     \<and> (\<forall>s \<in> set (k_defined k). ks_was_set st s \<longleftrightarrow> A s \<noteq> None)
     \<and> (\<forall>s c. sy_choice (k_sym k s) = Some c \<longrightarrow> A s = Some (UTri 2) \<longrightarrow>
          ks_csel st c = Some s \<and> ks_cuser st c = Some 2 \<and> ks_cwas_set st c)
     \<and> (\<forall>c \<in> set (k_choices k). ks_cwas_set st c \<longrightarrow>
          (\<exists>s. ks_csel st c = Some s \<and> sy_choice (k_sym k s) = Some c \<and> A s = Some (UTri 2)))"

definition add_asg :: "kconf \<Rightarrow> out_line \<Rightarrow> (nat \<Rightarrow> uval option) \<Rightarrow> nat \<Rightarrow> uval option" where
  "add_asg k l A =
     (case l of
        OComment _ \<Rightarrow> A
      | OSym s v \<Rightarrow> (case accepted k s v of None \<Rightarrow> A | Some u \<Rightarrow> A(s \<mapsto> u)))"

text \<open>A file that assigns every symbol at most once and at most one symbol of a choice to y.\<close>

definition fresh :: "kconf \<Rightarrow> (nat \<Rightarrow> uval option) \<Rightarrow> nat \<Rightarrow> string \<Rightarrow> bool" where
  "fresh k A s v \<longleftrightarrow>
     s \<in> set (k_defined k) \<and> A s = None \<and> clean_value (sy_type (k_sym k s)) v
     \<and> sy_type (k_sym k s) \<noteq> UNKNOWN
     \<and> (\<forall>t c. v = ''y'' \<longrightarrow> sy_choice (k_sym k s) = Some c \<longrightarrow> sy_choice (k_sym k t) = Some c \<longrightarrow> A t \<noteq> Some (UTri 2))"

lemma accepted_yes: "accepted k s v = Some (UTri 2) \<Longrightarrow> v = ''y''"
  by (auto simp: accepted_def norm_value_def STR_TO_TRI_def Let_def split: if_splits option.splits)

lemma loadedD:
  assumes "loaded k A st"
  shows "A s = Some u \<Longrightarrow> ks_user st s = Some u" "s \<in> set (k_defined k) \<Longrightarrow> ks_was_set st s \<longleftrightarrow> A s \<noteq> None"
    "sy_choice (k_sym k s) = Some c \<Longrightarrow> A s = Some (UTri 2) \<Longrightarrow>
       ks_csel st c = Some s \<and> ks_cuser st c = Some 2 \<and> ks_cwas_set st c"
    "c \<in> set (k_choices k) \<Longrightarrow> ks_cwas_set st c \<Longrightarrow>
       \<exists>s. ks_csel st c = Some s \<and> sy_choice (k_sym k s) = Some c \<and> A s = Some (UTri 2)"
  using assms unfolding loaded_def by blast+

lemma loaded_set:
  assumes ld: "loaded k A st" and s: "A s = None" and u: "u = UTri 2 \<Longrightarrow> sy_choice (k_sym k s) = None"
    and c: "core st' = ((ks_user st)(s \<mapsto> u), ks_cuser st, ks_csel st, (ks_was_set st)(s := True), ks_cwas_set st)"
  shows "loaded k (A(s \<mapsto> u)) st'"
proof -
  have f: "ks_user st' = (ks_user st)(s \<mapsto> u)" "ks_cuser st' = ks_cuser st" "ks_csel st' = ks_csel st"
    "ks_was_set st' = (ks_was_set st)(s := True)" "ks_cwas_set st' = ks_cwas_set st"
    using c by (simp_all add: core_def)
  have "\<exists>t. ks_csel st c = Some t \<and> sy_choice (k_sym k t) = Some c \<and> (A(s \<mapsto> u)) t = Some (UTri 2)"
    if "c \<in> set (k_choices k)" "ks_cwas_set st c" for c
    using loadedD(4) [OF ld that] s by (metis fun_upd_apply option.distinct(1))
  then show ?thesis
    unfolding loaded_def f using loadedD(1-3) [OF ld] u by auto
qed

lemma loaded_set_choice:
  assumes ld: "loaded k A st" and s: "A s = None" and ch: "sy_choice (k_sym k s) = Some c0"
    and one: "\<And>t. sy_choice (k_sym k t) = Some c0 \<Longrightarrow> A t \<noteq> Some (UTri 2)"
    and c: "core st' = ((ks_user st)(s \<mapsto> UTri 2), (ks_cuser st)(c0 \<mapsto> 2), (ks_csel st)(c0 \<mapsto> s),
        (ks_was_set st)(s := True), (ks_cwas_set st)(c0 := True))"
  shows "loaded k (A(s \<mapsto> UTri 2)) st'"
proof -
  have f: "ks_user st' = (ks_user st)(s \<mapsto> UTri 2)" "ks_cuser st' = (ks_cuser st)(c0 \<mapsto> 2)"
    "ks_csel st' = (ks_csel st)(c0 \<mapsto> s)" "ks_was_set st' = (ks_was_set st)(s := True)"
    "ks_cwas_set st' = (ks_cwas_set st)(c0 := True)"
    using c by (simp_all add: core_def)
  have "\<exists>t. ((ks_csel st)(c0 \<mapsto> s)) c = Some t \<and> sy_choice (k_sym k t) = Some c \<and> (A(s \<mapsto> UTri 2)) t = Some (UTri 2)"
    if "c \<in> set (k_choices k)" "((ks_cwas_set st)(c0 := True)) c" for c
  proof (cases "c = c0")
    case False
    with that have "ks_cwas_set st c" by simp
    from loadedD(4) [OF ld that(1) this] False s show ?thesis by (metis fun_upd_apply option.distinct(1))
  qed (use ch in auto)
  then show ?thesis
    unfolding loaded_def f using loadedD(1-3) [OF ld] ch one by auto
qed

lemma load_out_line:
  assumes wf: "wf_conf k" and bc: "bool_conf k" and tx: "text_conf k"
    and ok: "kst_ok k st" "users_ok k st" "loaded k A st"
    and l: "case l of OComment t \<Rightarrow> harmless t | OSym s v \<Rightarrow> fresh k A s v"
  shows "\<exists>st'. load_line k f st (n, render k l @ [newline]) = Inr st' \<and> kst_ok k st' \<and> users_ok k st'
    \<and> loaded k (add_asg k l A) st'"
proof (cases l)
  case (OComment t)
  with l tx have "load_line k f st (n, render k l @ [newline]) = Inr st"
    by (auto simp: render_def text_conf_def intro: load_harmless)
  with ok OComment show ?thesis by (simp add: add_asg_def)
next
  case (OSym s v)
  with l have s: "s \<in> set (k_defined k)" "A s = None" "clean_value (sy_type (k_sym k s)) v"
    "sy_type (k_sym k s) \<noteq> UNKNOWN"
    and one: "\<And>t c. v = ''y'' \<Longrightarrow> sy_choice (k_sym k s) = Some c \<Longrightarrow> sy_choice (k_sym k t) = Some c \<Longrightarrow> A t \<noteq> Some (UTri 2)"
    by (auto simp: fresh_def)
  have "\<not> ks_was_set st s" using s ok(3) by (auto simp: loaded_def)
  from assign_line_core [OF wf bc ok(1,2) s(1) this s(3), of f n]
  obtain st' where st': "assign_line k f n s v st = Inr st'" "kst_ok k st'" "users_ok k st'"
    and c: "core st' = (case accepted k s v of
        None \<Rightarrow> core st
      | Some u \<Rightarrow>
          (case (if u = UTri 2 then sy_choice (k_sym k s) else None) of
             None \<Rightarrow> ((ks_user st)(s \<mapsto> u), ks_cuser st, ks_csel st, (ks_was_set st)(s := True), ks_cwas_set st)
           | Some c \<Rightarrow> ((ks_user st)(s \<mapsto> u), (ks_cuser st)(c \<mapsto> 2), (ks_csel st)(c \<mapsto> s),
                        (ks_was_set st)(s := True), (ks_cwas_set st)(c := True))))" by blast
  have "sy_type (k_sym k s) \<noteq> TRISTATE" using bc s(1) by (simp add: bool_conf_def)
  from load_sym_line [OF tx s(1,3) this s(4)] st' have run: "load_line k f st (n, render k l @ [newline]) = Inr st'"
    by (simp add: OSym render_def)
  have "loaded k (add_asg k l A) st'"
  proof (cases "accepted k s v")
    case None
    with c ok(3) OSym show ?thesis by (simp add: add_asg_def loaded_def core_fields)
  next
    case (Some u)
    show ?thesis
    proof (cases "if u = UTri 2 then sy_choice (k_sym k s) else None")
      case None
      with Some c OSym show ?thesis
        by (auto simp: add_asg_def intro!: loaded_set [OF ok(3) s(2)] split: if_splits)
    next
      case ch: (Some c0)
      with Some accepted_yes have v: "v = ''y''" "u = UTri 2" "sy_choice (k_sym k s) = Some c0"
        by (auto split: if_splits)
      with Some c OSym show ?thesis
        by (auto simp: add_asg_def intro!: loaded_set_choice [OF ok(3) s(2) v(3) one [OF v(1,3)]])
    qed
  qed
  with run st' show ?thesis by blast
qed

primrec fresh_lines :: "kconf \<Rightarrow> (nat \<Rightarrow> uval option) \<Rightarrow> out_line list \<Rightarrow> bool" where
  "fresh_lines k A [] = True"
| "fresh_lines k A (l # ls) =
     ((case l of OComment t \<Rightarrow> harmless t | OSym s v \<Rightarrow> fresh k A s v) \<and> fresh_lines k (add_asg k l A) ls)"

lemma load_out_lines:
  assumes wf: "wf_conf k" and bc: "bool_conf k" and tx: "text_conf k"
  shows "kst_ok k st \<Longrightarrow> users_ok k st \<Longrightarrow> loaded k A st \<Longrightarrow> fresh_lines k A ls \<Longrightarrow> length ns = length ls \<Longrightarrow>
    \<exists>st'. rfold (load_line k f) st (zip ns (map (\<lambda>l. render k l @ [newline]) ls)) = Inr st'
      \<and> kst_ok k st' \<and> users_ok k st' \<and> loaded k (fold (add_asg k) ls A) st'"
proof (induction ls arbitrary: st A ns)
  case (Cons l ls)
  then obtain n ns' where ns: "ns = n # ns'" "length ns' = length ls" by (cases ns) auto
  from Cons.prems load_out_line [OF wf bc tx, of st A l f n] obtain st1 where
    st1: "load_line k f st (n, render k l @ [newline]) = Inr st1" "kst_ok k st1" "users_ok k st1"
      "loaded k (add_asg k l A) st1" by auto
  from Cons.IH [OF st1(2-4) _ ns(2)] Cons.prems(4) st1(1) ns(1) show ?case by simp
qed simp

lemma unset_value_core:
  "core (unset_value k s st) = ((ks_user st)(s := None), ks_cuser st, ks_csel st, ks_was_set st, ks_cwas_set st)"
  "core (choice_unset_value k c st) =
     (ks_user st, (ks_cuser st)(c := None), (ks_csel st)(c := None), ks_was_set st, ks_cwas_set st)"
  by (auto simp: unset_value_def choice_unset_value_def) (auto simp: core_def)

lemma unset_syms_core:
  "core (fold (\<lambda>s st. if ks_was_set st s then st else unset_value k s st) ss st) =
     ((\<lambda>s. if s \<in> set ss \<and> \<not> ks_was_set st s then None else ks_user st s),
      ks_cuser st, ks_csel st, ks_was_set st, ks_cwas_set st)"
proof (induction ss arbitrary: st)
  case (Cons s ss)
  have "ks_was_set (unset_value k s st) = ks_was_set st" "ks_cwas_set (unset_value k s st) = ks_cwas_set st"
    "ks_cuser (unset_value k s st) = ks_cuser st" "ks_csel (unset_value k s st) = ks_csel st"
    "ks_user (unset_value k s st) = (ks_user st)(s := None)"
    using unset_value_core(1) [of k s st] by (simp_all add: core_def)
  then show ?case by (auto simp: Cons.IH fun_eq_iff)
qed (simp add: core_def)

lemma unset_choices_core:
  "core (fold (\<lambda>c st. if ks_cwas_set st c then st else choice_unset_value k c st) cs st) =
     (ks_user st, (\<lambda>c. if c \<in> set cs \<and> \<not> ks_cwas_set st c then None else ks_cuser st c),
      (\<lambda>c. if c \<in> set cs \<and> \<not> ks_cwas_set st c then None else ks_csel st c), ks_was_set st, ks_cwas_set st)"
proof (induction cs arbitrary: st)
  case (Cons c cs)
  have "ks_was_set (choice_unset_value k c st) = ks_was_set st" "ks_cwas_set (choice_unset_value k c st) = ks_cwas_set st"
    "ks_cuser (choice_unset_value k c st) = (ks_cuser st)(c := None)" "ks_csel (choice_unset_value k c st) = (ks_csel st)(c := None)"
    "ks_user (choice_unset_value k c st) = ks_user st"
    using unset_value_core(2) [of k c st] by (simp_all add: core_def)
  then show ?case by (auto simp: Cons.IH fun_eq_iff)
qed (simp add: core_def)

lemma unset_rest_ok:
  assumes wf: "wf_conf k" and ok: "kst_ok k st" "users_ok k st"
  shows "kst_ok k (unset_rest k st)" "users_ok k (unset_rest k st)"
proof -
  have 1: "kst_ok k (fold (\<lambda>s st. if ks_was_set st s then st else unset_value k s st) ss st)
    \<and> users_ok k (fold (\<lambda>s st. if ks_was_set st s then st else unset_value k s st) ss st)"
    if "kst_ok k st" "users_ok k st" for ss st
    using that by (induction ss arbitrary: st) (auto intro: unset_value_ok [OF wf] set_value_users [OF wf])
  have 2: "kst_ok k (fold (\<lambda>c st. if ks_cwas_set st c then st else choice_unset_value k c st) cs st)
    \<and> users_ok k (fold (\<lambda>c st. if ks_cwas_set st c then st else choice_unset_value k c st) cs st)"
    if "kst_ok k st" "users_ok k st" "set cs \<subseteq> set (k_choices k)" for cs st
    using that by (induction cs arbitrary: st) (auto intro: choice_unset_value_ok [OF wf] set_value_users [OF wf])
  show "kst_ok k (unset_rest k st)" "users_ok k (unset_rest k st)"
    unfolding unset_rest_def using 1 [OF ok] 2 by blast+
qed

text \<open>The user values are exactly the assignments \<open>A\<close>.\<close>

definition holds_asg :: "kconf \<Rightarrow> (nat \<Rightarrow> uval option) \<Rightarrow> kstate \<Rightarrow> bool" where
  "holds_asg k A st \<longleftrightarrow>
     (\<forall>s \<in> set (k_defined k). ks_user st s = A s)
     \<and> (\<forall>c \<in> set (k_choices k). \<forall>s. ks_csel st c = Some s \<longleftrightarrow> sy_choice (k_sym k s) = Some c \<and> A s = Some (UTri 2))"

lemma unset_rest_holds:
  assumes "loaded k A st"
  shows "holds_asg k A (unset_rest k st)"
proof -
  let ?st = "fold (\<lambda>s st. if ks_was_set st s then st else unset_value k s st) (k_defined k) st"
  have g: "ks_user ?st = (\<lambda>s. if s \<in> set (k_defined k) \<and> \<not> ks_was_set st s then None else ks_user st s)"
    "ks_csel ?st = ks_csel st" "ks_cwas_set ?st = ks_cwas_set st"
    using unset_syms_core [of k "k_defined k" st] by (simp_all add: core_def)
  have f: "ks_user (unset_rest k st) = (\<lambda>s. if s \<in> set (k_defined k) \<and> \<not> ks_was_set st s then None else ks_user st s)"
    "ks_csel (unset_rest k st) = (\<lambda>c. if c \<in> set (k_choices k) \<and> \<not> ks_cwas_set st c then None else ks_csel st c)"
    using g unset_choices_core [of k "k_choices k" ?st] by (simp_all add: unset_rest_def core_def fun_eq_iff)
  have "ks_user (unset_rest k st) s = A s" if "s \<in> set (k_defined k)" for s
    using loadedD(1) [OF assms, of s] loadedD(2) [OF assms that] that by (cases "A s") (auto simp: f)
  moreover have "ks_csel (unset_rest k st) c = Some s \<longleftrightarrow> sy_choice (k_sym k s) = Some c \<and> A s = Some (UTri 2)"
    if "c \<in> set (k_choices k)" for c s
    using loadedD(3) [OF assms, of s c] loadedD(4) [OF assms that] that by (auto simp: f)
  ultimately show ?thesis by (simp add: holds_asg_def)
qed

lemma clear_was_set_ok:
  assumes "kst_ok k st" "users_ok k st"
  shows "kst_ok k (clear_was_set k st)" "users_ok k (clear_was_set k st)" "loaded k Map.empty (clear_was_set k st)"
proof -
  show "kst_ok k (clear_was_set k st)"
    by (rule kst_ok_cong [THEN iffD2, OF _ _ _ _ assms(1)]) (simp_all add: clear_was_set_def)
qed (use assms(2) in \<open>auto simp: clear_was_set_def users_ok_def loaded_def\<close>)

lemma load_text_out:
  assumes wf: "wf_conf k" and bc: "bool_conf k" and tx: "text_conf k"
    and ok: "kst_ok k st" "users_ok k st" and fr: "fresh_lines k Map.empty ls"
    and nl: "\<forall>l \<in> set ls. newline \<notin> set (render k l)"
  shows "\<exists>st'. load_text k f (unlines (map (render k) ls)) True st = Inr st' \<and> kst_ok k st' \<and> users_ok k st'
    \<and> holds_asg k (fold (add_asg k) ls Map.empty) st'"
proof -
  have lines: "file_lines (unlines (map (render k) ls)) = map (\<lambda>l. render k l @ [newline]) ls"
    using nl by (simp add: file_lines_unlines o_def)
  note c = clear_was_set_ok [OF ok]
  from load_out_lines [OF wf bc tx c(1,2,3) fr, of "[1..<length ls + 1]" f] obtain st1 where
    st1: "rfold (load_line k f) (clear_was_set k st) (zip [1..<length ls + 1] (map (\<lambda>l. render k l @ [newline]) ls)) = Inr st1"
      "kst_ok k st1" "users_ok k st1" "loaded k (fold (add_asg k) ls Map.empty) st1" by (auto simp del: upt_Suc)
  then have "load_text k f (unlines (map (render k) ls)) True st = Inr (unset_rest k st1)"
    by (simp add: load_text_def lines del: upt_Suc)
  with unset_rest_ok [OF wf st1(2,3)] unset_rest_holds [OF st1(4)] show ?thesis by blast
qed

end
