(* ===== verification/Kc_Reload.thy ===== *)
theory Kc_Reload
  imports Kc_Load
begin

text \<open>
  A configuration file that was written and is read again gives every symbol and every choice
  the value it had: the written values, taken as user values, reproduce themselves.
\<close>

abbreviation hask :: "kconf \<Rightarrow> kstate \<Rightarrow> query \<Rightarrow> ans \<Rightarrow> bool" where
  "hask k st \<equiv> has (kbody k) (kinp st)"

abbreviation semk :: "kconf \<Rightarrow> kstate \<Rightarrow> 'r kcomp \<Rightarrow> 'r \<Rightarrow> bool" where
  "semk k st \<equiv> sem (kbody k) (kinp st)"

lemma kinp_None [simp]:
  "kinp st (QTri s) = None" "kinp st (QStr s) = None" "kinp st (QVis i) = None" "kinp st (QSel c) = None"
  by (simp_all add: kinp_def)

lemma hask_user:
  "hask k st (QUser s) a \<longleftrightarrow> a = AUser (ks_user st s)" "hask k st (QCUser c) a \<longleftrightarrow> a = ACUser (ks_cuser st c)"
  "hask k st (QCSel c) a \<longleftrightarrow> a = ASel (ks_csel st c)"
  by (auto simp: has_inp kinp_def)

lemma sem_ask:
  "semk k st (ask_user s) u \<longleftrightarrow> u = ks_user st s" "semk k st (ask_cuser c) v \<longleftrightarrow> v = ks_cuser st c"
  "semk k st (ask_csel c) t \<longleftrightarrow> t = ks_csel st c"
  by (simp_all add: ask_user_def ask_cuser_def ask_csel_def sem_Ask hask_user)

lemma sem_ask_value:
  "semk k st (ask_tri s) v \<longleftrightarrow> (\<exists>w. hask k st (QTri s) (ATri v w))"
  "semk k st (ask_str s) t \<longleftrightarrow> (\<exists>w. hask k st (QStr s) (AStr t w))"
  "semk k st (ask_vis i) v \<longleftrightarrow> hask k st (QVis i) (AVis v)"
  "semk k st (ask_sel c) x \<longleftrightarrow> hask k st (QSel c) (ASel x)"
  unfolding ask_tri_def ask_str_def ask_vis_def ask_sel_def sem_Ask
  by (rule iffI; (elim exE conjE; split ans.splits; auto)?; auto split: ans.splits)+


subsection \<open>The lines of a written file\<close>

text \<open>A file lists every symbol of the menu tree whose value is written.\<close>

definition covers :: "kconf \<Rightarrow> mtree list \<Rightarrow> bool" where
  "covers k ts \<longleftrightarrow> {s. \<exists>n \<in> set (preorder ts). nd_item (k_node k n) = NItem (Sym s)} = set (k_defined k)"

lemma choice_sym_value:
  assumes us: "users_ok k st" and ty: "sy_type (k_sym k s) = BOOL" "sym_y < s" and c: "sy_choice (k_sym k s) = Some c"
  shows "hask k st (QTri s) (ATri v w) \<longleftrightarrow>
    (hask k st (QVis (Sym s)) (AVis 0) \<and> v = 0 \<and> \<not> w
     \<or> hask k st (QVis (Sym s)) (AVis 2) \<and> (\<exists>sel. hask k st (QSel c) (ASel sel) \<and> v = (if sel = Some s then 2 else 0) \<and> w))"
proof -
  have vis: "x = 0 \<or> x = 2" if "hask k st (QVis (Sym s)) (AVis x)" for x
    using value_typed [OF us that] ty by (auto simp: kgood_def item_type_def tri_def)
  have "hask k st (QTri s) (ATri v w) \<longleftrightarrow>
      (\<exists>x. hask k st (QVis (Sym s)) (AVis x) \<and> semk k st (choice_sym_tri_value s c x) (v, w))"
    using ty c by (auto simp: has_body kbody_def sem_cbind sym_tri_value_def Let_def bool_tristate_def sem_ask_value)
  also have "\<dots> \<longleftrightarrow> (hask k st (QVis (Sym s)) (AVis 0) \<and> semk k st (choice_sym_tri_value s c 0) (v, w)
      \<or> hask k st (QVis (Sym s)) (AVis 2) \<and> semk k st (choice_sym_tri_value s c 2) (v, w))"
    using vis by auto
  also have "semk k st (choice_sym_tri_value s c 0) (v, w) \<longleftrightarrow> v = 0 \<and> \<not> w"
    by (auto simp: choice_sym_tri_value_def)
  also have "semk k st (choice_sym_tri_value s c 2) (v, w) \<longleftrightarrow>
      (\<exists>sel. hask k st (QSel c) (ASel sel) \<and> v = (if sel = Some s then 2 else 0) \<and> w)"
    by (auto simp: choice_sym_tri_value_def sem_cbind sem_ask_value)
  finally show ?thesis .
qed

lemma written_bool:
  assumes "users_ok k st" "bool_tristate (sy_type (k_sym k s))"
  shows "written k st s v \<longleftrightarrow> (\<exists>z. hask k st (QTri s) (ATri z True) \<and> v = TRI_TO_STR z)"
proof -
  have "\<exists>z w. a = ATri z w" if "hask k st (QTri s) a" for a
    using value_typed [OF assms(1) that] by (auto simp: kgood_def)
  then have "semk k st (sym_str_value k s) (v, True) \<longleftrightarrow> (\<exists>z. hask k st (QTri s) (ATri z True) \<and> v = TRI_TO_STR z)"
    using assms(2) by (fastforce simp: sym_str_value_def Let_def sem_Ask)
  then show ?thesis by (auto simp: written_def has_body kbody_def sem_cbind)
qed

lemma choice_sym_type:
  assumes "wf_conf k" "bool_conf k" "sy_choice (k_sym k s) = Some c"
  shows "sy_type (k_sym k s) = BOOL" "s \<in> set (k_defined k)" "sym_y < s"
  using assms wf_confD(8,9) [OF assms(1,3)] wf_confD(3,15) [OF assms(1)] by (auto simp: bool_conf_def)

lemma written_exclusive:
  assumes wf: "wf_conf k" and bc: "bool_conf k" and us: "users_ok k st"
    and s: "written k st s ''y''" "sy_choice (k_sym k s) = Some c"
  shows "hask k st (QSel c) (ASel (Some s))"
proof -
  note ty = choice_sym_type [OF wf bc s(2)]
  from s(1) obtain z where z: "hask k st (QTri s) (ATri z True)" "''y'' = TRI_TO_STR z"
    using written_bool [OF us] ty(1) by (auto simp: bool_tristate_def)
  then have "z \<noteq> 0" by (auto simp: TRI_TO_STR_def)
  with z choice_sym_value [OF us ty(1,3) s(2), of z True] show ?thesis by (auto split: if_splits)
qed

lemma written_exclusive_eq:
  assumes "wf_conf k" "bool_conf k" "users_ok k st"
    and "written k st s ''y''" "sy_choice (k_sym k s) = Some c" "written k st t ''y''" "sy_choice (k_sym k t) = Some c"
  shows "s = t"
  using has_unique [OF written_exclusive [OF assms(1-5)] written_exclusive [OF assms(1-3,6,7)]] by simp

abbreviation line_syms :: "out_line list \<Rightarrow> nat list" where
  "line_syms ls \<equiv> [s. OSym s v \<leftarrow> ls]"

lemma add_asg_simps:
  "add_asg k (OComment t) A = A"
  "add_asg k (OSym s v) A = (case accepted k s v of None \<Rightarrow> A | Some u \<Rightarrow> A(s \<mapsto> u))"
  by (simp_all add: add_asg_def)

lemma fold_add_asg:
  "distinct (line_syms ls) \<Longrightarrow> (\<And>s. s \<in> set (line_syms ls) \<Longrightarrow> A s = None) \<Longrightarrow>
   fold (add_asg k) ls A s = Some u \<longleftrightarrow> A s = Some u \<or> (\<exists>v. OSym s v \<in> set ls \<and> accepted k s v = Some u)"
proof (induction ls arbitrary: A)
  case (Cons l ls)
  show ?case
  proof (cases l)
    case (OComment t)
    with Cons show ?thesis by (simp add: add_asg_simps)
  next
    case (OSym t v)
    with Cons.prems have t: "A t = None" "t \<notin> set (line_syms ls)" by auto
    have IH: "fold (add_asg k) ls (add_asg k l A) s = Some u \<longleftrightarrow>
        add_asg k l A s = Some u \<or> (\<exists>v. OSym s v \<in> set ls \<and> accepted k s v = Some u)"
      by (rule Cons.IH) (use Cons.prems OSym in \<open>auto simp: add_asg_simps split: option.splits\<close>)
    have "OSym t w \<notin> set ls" for w using t(2) by force
    then show ?thesis using OSym IH t(1) by (auto simp: add_asg_simps split: option.splits if_splits)
  qed
qed simp

lemma written_fresh:
  assumes wf: "wf_conf k" and bc: "bool_conf k" and us: "users_ok k st"
    and good: "\<And>s v. OSym s v \<in> set ls \<Longrightarrow> s \<in> set (k_defined k) \<and> written k st s v \<and> clean_value (sy_type (k_sym k s)) v
        \<and> sy_type (k_sym k s) \<noteq> UNKNOWN"
    and "\<And>t. OComment t \<in> set ls \<Longrightarrow> harmless t"
    and "distinct (line_syms ls)"
    and "\<And>s u. A s = Some u \<Longrightarrow> s \<notin> set (line_syms ls) \<and> (\<exists>v. written k st s v \<and> accepted k s v = Some u)"
  shows "fresh_lines k A ls"
  using assms(4-)
proof (induction ls arbitrary: A)
  case (Cons l ls)
  have "fresh_lines k (add_asg k l A) ls"
  proof (rule Cons.IH)
    fix s u assume a: "add_asg k l A s = Some u"
    show "s \<notin> set (line_syms ls) \<and> (\<exists>v. written k st s v \<and> accepted k s v = Some u)"
    proof (cases l)
      case (OComment t)
      with a Cons.prems(4) show ?thesis by (fastforce simp: add_asg_simps)
    next
      case (OSym t v)
      with Cons.prems(1) [of t v] a Cons.prems(3) Cons.prems(4) [of s u] show ?thesis
        by (auto simp: add_asg_simps split: option.splits if_splits)
    qed
  qed (use Cons.prems(1-3) in \<open>auto split: out_line.splits\<close>)
  moreover have "fresh k A s v" if "l = OSym s v" for s v
  proof -
    have g: "s \<in> set (k_defined k) \<and> written k st s v \<and> clean_value (sy_type (k_sym k s)) v \<and> sy_type (k_sym k s) \<noteq> UNKNOWN"
      by (rule Cons.prems(1)) (simp add: that)
    have "A s = None" using Cons.prems(4) [of s] that by (cases "A s") auto
    moreover have "A t \<noteq> Some (UTri 2)"
      if "v = ''y''" "sy_choice (k_sym k s) = Some c" "sy_choice (k_sym k t) = Some c" for t c
    proof
      assume t: "A t = Some (UTri 2)"
      with Cons.prems(4) [OF this] accepted_yes [of k t] have "written k st t ''y''" "t \<noteq> s"
        using \<open>A s = None\<close> by auto
      with written_exclusive_eq [OF wf bc us, of s c t] g that show False by auto
    qed
    ultimately show ?thesis using g by (simp add: fresh_def)
  qed
  ultimately show ?case using Cons.prems(2) by (auto split: out_line.splits)
qed simp

subsection \<open>Computations with the same result\<close>

text \<open>
  \<open>agrees k st g\<close>: the answers \<open>g\<close> to queries for values are the values in the state \<open>st\<close>;
  \<open>keeps k st g c\<close>: what the computation \<open>c\<close> gives with the answers \<open>g\<close> it gives in \<open>st\<close>.
\<close>

fun valueq :: "query \<Rightarrow> bool" where
  "valueq (QTri _) = True"
| "valueq (QStr _) = True"
| "valueq (QVis _) = True"
| "valueq (QSel _) = True"
| "valueq _ = False"

definition agrees :: "kconf \<Rightarrow> kstate \<Rightarrow> (query \<Rightarrow> ans option) \<Rightarrow> bool" where
  "agrees k st g \<longleftrightarrow> (\<forall>q a. valueq q \<longrightarrow> g q = Some a \<longrightarrow> hask k st q a)"

definition keeps :: "kconf \<Rightarrow> kstate \<Rightarrow> (query \<Rightarrow> ans option) \<Rightarrow> 'r kcomp \<Rightarrow> bool" where
  "keeps k st g c \<longleftrightarrow> (\<forall>r. interp g c = Some r \<longrightarrow> semk k st c r)"

named_theorems keeps_intro "computations that keep their result"

lemma keepsD: "keeps k st g c \<Longrightarrow> interp g c = Some r \<Longrightarrow> semk k st c r"
  by (simp add: keeps_def)

lemma keeps_basic [keeps_intro]:
  "keeps k st g (Ret r)" "keeps k st g Fail" "keeps k st g c \<Longrightarrow> keeps k st g (Warn w c)"
  "keeps k st g c \<Longrightarrow> keeps k st g (Note q c)"
  by (simp_all add: keeps_def)

lemma keeps_cbind [keeps_intro]: "keeps k st g c \<Longrightarrow> (\<And>r. keeps k st g (f r)) \<Longrightarrow> keeps k st g (cbind c f)"
  by (auto simp: keeps_def interp_cbind sem_cbind bind_eq_Some_conv)

lemma keeps_if [keeps_intro]: "(b \<Longrightarrow> keeps k st g c) \<Longrightarrow> (\<not> b \<Longrightarrow> keeps k st g d) \<Longrightarrow> keeps k st g (if b then c else d)"
  by simp

lemma keeps_option [keeps_intro]:
  "keeps k st g c \<Longrightarrow> (\<And>x. keeps k st g (f x)) \<Longrightarrow> keeps k st g (case v of None \<Rightarrow> c | Some x \<Rightarrow> f x)"
  by (simp split: option.splits)

lemma keeps_prod [keeps_intro]: "(\<And>a b. keeps k st g (f a b)) \<Longrightarrow> keeps k st g (case v of (a, b) \<Rightarrow> f a b)"
  by (simp split: prod.splits)

lemma keeps_expr [keeps_intro]:
  "(\<And>s. keeps k st g (f s)) \<Longrightarrow> (\<And>c. keeps k st g (h c)) \<Longrightarrow>
   keeps k st g (case e of EItem (Sym s) \<Rightarrow> f s | EItem (Chc c) \<Rightarrow> h c | _ \<Rightarrow> Fail)"
  by (auto intro: keeps_basic split: expr.splits item.splits)

lemma keeps_expr_sym [keeps_intro]:
  "(\<And>s. keeps k st g (f s)) \<Longrightarrow> keeps k st g (case e of EItem (Sym s) \<Rightarrow> f s | _ \<Rightarrow> Fail)"
  by (auto intro: keeps_basic split: expr.splits item.splits)

lemma keeps_first_c [keeps_intro]: "(\<And>x. keeps k st g (f x)) \<Longrightarrow> keeps k st g (first_c f xs)"
  by (induction xs) (auto intro!: keeps_intro)

lemma keeps_fold_c [keeps_intro]: "(\<And>s x. keeps k st g (f s x)) \<Longrightarrow> keeps k st g (fold_c f s xs)"
  by (induction xs arbitrary: s) (auto intro!: keeps_intro)

lemma keeps_Ask: "agrees k st g \<Longrightarrow> valueq q \<Longrightarrow> (\<And>a. keeps k st g (f a)) \<Longrightarrow> keeps k st g (Ask q f)"
  unfolding keeps_def agrees_def sem_Ask by (simp split: option.splits) blast

lemma keeps_ask [keeps_intro]:
  assumes "agrees k st g"
  shows "keeps k st g (ask_tri s)" "keeps k st g (ask_str s)" "keeps k st g (ask_vis i)" "keeps k st g (ask_sel c)"
  unfolding ask_tri_def ask_str_def ask_vis_def ask_sel_def
  by (rule keeps_Ask [OF assms]; simp add: keeps_basic split: ans.splits)+

text \<open>The mode of a mandatory bool choice does not depend on the mode the user set.\<close>

lemma bool_choice_mode:
  assumes wf: "wf_conf k" and bc: "bool_conf k" and us: "users_ok k st"
  shows "semk k st (choice_tri_value k c) v \<longleftrightarrow>
    (\<exists>x. hask k st (QVis (Chc c)) (AVis x) \<and> v = (if x = 0 then 0 else 2))"
proof -
  have u: "tri z" if "ks_cuser st c = Some z" for z using us that by (simp add: users_ok_def)
  have opt: "\<not> ch_optional (k_chc k c)"
    using bc wf_confD(7) [OF wf, of c] by (cases "c \<in> set (k_choices k)") (auto simp: bool_conf_def Choice_def)
  have ty: "ch_type (k_chc k c) = BOOL \<and> (x = 0 \<or> x = 2) \<or> ch_type (k_chc k c) \<noteq> TRISTATE \<and> x = 0"
    if "hask k st (QVis (Chc c)) (AVis x)" for x
  proof (cases "c \<in> set (k_choices k)")
    case True
    with value_typed [OF us that] bc show ?thesis by (auto simp: bool_conf_def kgood_def item_type_def tri_def)
  next
    case False
    then have "k_chc k c = Choice None" by (rule wf_confD(7) [OF wf])
    with that show ?thesis
      by (auto simp: has_body kbody_def sem_cbind choice_visibility_def prompt_vis_def promote_vis_def Choice_def)
  qed
  have "semk k st (choice_tri_value k c) v \<longleftrightarrow> (\<exists>x. hask k st (QVis (Chc c)) (AVis x) \<and>
      semk k st (let val = min (case ks_cuser st c of None \<Rightarrow> 1 | Some v \<Rightarrow> max 1 v) x
        in if val = 1 then cbind (choice_type k c) (\<lambda>t. Ret (if t = BOOL then 2 else val)) else Ret val) v)"
    using opt by (auto simp: choice_tri_value_def sem_cbind sem_ask sem_ask_value Let_def)
  also have "\<dots> \<longleftrightarrow> (\<exists>x. hask k st (QVis (Chc c)) (AVis x) \<and> v = (if x = 0 then 0 else 2))"
  proof (rule ex_cong1, rule conj_cong [OF refl])
    fix x assume "hask k st (QVis (Chc c)) (AVis x)"
    from ty [OF this] show "semk k st (let val = min (case ks_cuser st c of None \<Rightarrow> 1 | Some v \<Rightarrow> max 1 v) x
        in if val = 1 then cbind (choice_type k c) (\<lambda>t. Ret (if t = BOOL then 2 else val)) else Ret val) v \<longleftrightarrow>
        v = (if x = 0 then 0 else 2)"
      using u by (cases "ks_cuser st c") (fastforce simp: choice_type_def sem_cbind Let_def tri_def)+
  qed
  finally show ?thesis .
qed

text \<open>Two states, the second of which has the values that the first has at depth \<open>n\<close>.\<close>

definition sim :: "kconf \<Rightarrow> kstate \<Rightarrow> nat \<Rightarrow> kstate \<Rightarrow> bool" where
  "sim k st0 n st \<longleftrightarrow> wf_conf k \<and> bool_conf k \<and> users_ok k st0 \<and> users_ok k st \<and> agrees k st (eval (kbody k) (kinp st0) n)"

abbreviation simk :: "kconf \<Rightarrow> kstate \<Rightarrow> nat \<Rightarrow> kstate \<Rightarrow> 'r kcomp \<Rightarrow> bool" where
  "simk k st0 n st \<equiv> keeps k st (eval (kbody k) (kinp st0) n)"

lemma sim_ask [keeps_intro]:
  assumes "sim k st0 n st"
  shows "simk k st0 n st (ask_tri s)" "simk k st0 n st (ask_str s)" "simk k st0 n st (ask_vis i)" "simk k st0 n st (ask_sel c)"
  using keeps_ask assms by (auto simp: sim_def)

lemma sim_choice_tri_value [keeps_intro]:
  assumes "sim k st0 n st"
  shows "simk k st0 n st (choice_tri_value k c)"
  unfolding keeps_def
proof (intro allI impI)
  let ?g = "eval (kbody k) (kinp st0) n"
  have wf: "wf_conf k" "bool_conf k" "users_ok k st0" "users_ok k st" "agrees k st ?g" using assms by (auto simp: sim_def)
  fix v assume run: "interp ?g (choice_tri_value k c) = Some v"
  then have "semk k st0 (choice_tri_value k c) v" unfolding sem_def by blast
  then obtain x where x: "hask k st0 (QVis (Chc c)) (AVis x)" "v = (if x = 0 then 0 else 2)"
    using bool_choice_mode [OF wf(1-3)] by blast
  from run obtain a where a: "?g (QVis (Chc c)) = Some a"
    by (auto simp: choice_tri_value_def interp_cbind ask_vis_def Let_def bind_eq_Some_conv split: option.splits)
  then have "hask k st0 (QVis (Chc c)) a" by (auto simp: has_def)
  with x(1) have "a = AVis x" by (auto dest: has_unique)
  with a wf(5) have "hask k st (QVis (Chc c)) (AVis x)" by (simp add: agrees_def)
  with x(2) show "semk k st (choice_tri_value k c) v" using bool_choice_mode [OF wf(1,2,4)] by blast
qed

lemma sim_types [keeps_intro]:
  assumes "sim k st0 n st"
  shows "simk k st0 n st (choice_type k c)" "simk k st0 n st (sym_type k s)" "simk k st0 n st (item_tri_value k i)"
    "simk k st0 n st (sym_to_num k s)" "simk k st0 n st (str_relation r s t)"
  using assms unfolding choice_type_def sym_type_def item_tri_value_def sym_to_num_def str_relation_def Let_def
  by (auto intro!: keeps_intro split: item.splits)

lemma sim_expr_value [keeps_intro]: "sim k st0 n st \<Longrightarrow> simk k st0 n st (expr_value k e)"
  by (induction e) (auto intro!: keeps_intro split: option.splits)

lemma sim_prompts [keeps_intro]:
  assumes "sim k st0 n st"
  shows "simk k st0 n st (prompt_vis k ns)" "simk k st0 n st ty \<Longrightarrow> simk k st0 n st (promote_vis ty v)"
    "simk k st0 n st (default_val k s)" "simk k st0 n st (default_str k s)" "simk k st0 n st (active_range k s b)"
  using assms unfolding prompt_vis_def promote_vis_def default_val_def default_str_def active_range_def
  by (auto intro!: keeps_intro split: option.splits expr.splits item.splits)

lemma sim_values [keeps_intro]:
  assumes "sim k st0 n st"
  shows "simk k st0 n st (sym_visibility k s)" "simk k st0 n st (choice_visibility k c)"
    "simk k st0 n st (reverse_deps k s v w)" "simk k st0 n st (num_default k s b rng w)"
    "simk k st0 n st (selection_from_defaults k c)"
  using assms
  unfolding sym_visibility_def choice_visibility_def reverse_deps_def num_default_def selection_from_defaults_def Let_def
  by (auto intro!: keeps_intro split: option.splits expr.splits item.splits prod.splits)

end
