(* ===== verification/Kc_Same.thy ===== *)
theory Kc_Same
  imports Kc_Reload
begin

text \<open>
  The values after a file is read again: one step of the evaluation for each kind of query, and
  the induction over its depth.
\<close>

subsection \<open>One step\<close>

text \<open>The user values of \<open>st\<close> are the values that are written in \<open>st0\<close>.\<close>

definition reloaded :: "kconf \<Rightarrow> kstate \<Rightarrow> kstate \<Rightarrow> bool" where
  "reloaded k st0 st \<longleftrightarrow>
     (\<forall>s \<in> set (k_defined k). \<forall>u. ks_user st s = Some u \<longleftrightarrow> (\<exists>v. written k st0 s v \<and> accepted k s v = Some u))
     \<and> (\<forall>c \<in> set (k_choices k). \<forall>s. ks_csel st c = Some s \<longleftrightarrow> sy_choice (k_sym k s) = Some c \<and> written k st0 s ''y'')"

text \<open>Symbols that are never written have no prompt.\<close>

definition hidden_ok :: "kconf \<Rightarrow> bool" where
  "hidden_ok k \<longleftrightarrow>
     (\<forall>s. sy_env_var (k_sym k s) \<noteq> None \<or> k_defconfig_list k = Some s \<longrightarrow>
        (\<forall>n \<in> set (sy_nodes (k_sym k s)). nd_prompt (k_node k n) = None))"

lemma evalD: "eval (kbody k) (kinp st) n q = Some a \<Longrightarrow> hask k st q a"
  by (auto simp: has_def)

lemma interpD: "interp (eval (kbody k) (kinp st) n) c = Some r \<Longrightarrow> semk k st c r"
  by (auto simp: sem_def)

lemma simD:
  assumes "sim k st0 n st"
  shows "wf_conf k" "bool_conf k" "users_ok k st0" "users_ok k st"
    "valueq q \<Longrightarrow> eval (kbody k) (kinp st0) n q = Some a \<Longrightarrow> hask k st q a"
  using assms by (auto simp: sim_def agrees_def)

lemma interp_ask_vis_iff: "interp g (ask_vis i) = Some x \<longleftrightarrow> g (QVis i) = Some (AVis x)"
  by (auto simp: ask_vis_def split: option.splits ans.splits)

lemma interp_ask_sel: "interp g (ask_sel i) = Some x \<longleftrightarrow> g (QSel i) = Some (ASel x)"
  by (auto simp: ask_sel_def split: option.splits ans.splits)

lemma same_vis:
  assumes "sim k st0 n st" "interp (eval (kbody k) (kinp st0) n) (kbody k (QVis i)) = Some a"
  shows "hask k st (QVis i) a"
proof -
  have "simk k st0 n st (kbody k (QVis i))"
    using assms(1) by (cases i) (auto simp: kbody_def intro!: keeps_intro)
  from keepsD [OF this assms(2)] show ?thesis by (simp add: has_body)
qed

lemma plain_reverse:
  assumes "interp g (plain_tri_value k s x) = Some r" "x \<noteq> 0"
  shows "\<exists>v. interp g (reverse_deps k s v True) = Some r"
proof -
  from assms obtain u where u: "interp g (case u of
      None \<Rightarrow> cbind (default_val k s) (\<lambda>d. case d of
          None \<Rightarrow> cbind (expr_value k (sy_weak_rev_dep (k_sym k s))) (\<lambda>dep_val.
            if dep_val = 0 then reverse_deps k s 0 True
            else cbind (expr_value k (sy_direct_dep (k_sym k s))) (\<lambda>dd.
              if dd = 0 then reverse_deps k s 0 True else reverse_deps k s (max dep_val 0) True))
        | Some v \<Rightarrow> cbind (expr_value k (sy_weak_rev_dep (k_sym k s))) (\<lambda>dep_val.
            if dep_val = 0 then reverse_deps k s v True
            else cbind (expr_value k (sy_direct_dep (k_sym k s))) (\<lambda>dd.
              if dd = 0 then reverse_deps k s v True else reverse_deps k s (max dep_val v) True)))
    | Some (UTri v) \<Rightarrow> reverse_deps k s (min v x) True
    | Some (UStr _) \<Rightarrow> Fail) = Some r"
    by (auto simp: plain_tri_value_def Let_def interp_cbind bind_eq_Some_conv)
  show ?thesis
  proof (cases u)
    case None
    with u show ?thesis by (auto simp: interp_cbind bind_eq_Some_conv split: option.splits if_splits)
  next
    case (Some y)
    with u show ?thesis by (cases y) auto
  qed
qed

lemma reverse_again:
  assumes sim: "sim k st0 n st" and ty: "sy_type (k_sym k s) = BOOL"
    and run: "interp (eval (kbody k) (kinp st0) n) (reverse_deps k s v0 True) = Some (v, w)"
  shows "w \<and> semk k st (reverse_deps k s v True) (v, True)"
proof -
  let ?g = "eval (kbody k) (kinp st0) n" and ?y = "k_sym k s"
  define after where "after v0 d = cbind (if d = 0 then Ret (v0, True)
       else cbind (expr_value k (sy_direct_dep ?y)) (\<lambda>dd.
         if dd < d then Note (QUnsat s) (Ret (max d v0, True)) else Ret (max d v0, True)))
       (\<lambda>(v, w). if v = 1 then Ret (2, w) else Ret (v, w))" for v0 d
  have eq: "reverse_deps k s v0 True = cbind (expr_value k (sy_rev_dep ?y)) (after v0)" for v0
    unfolding reverse_deps_def Let_def after_def by (simp add: sym_type_def ty cong del: prod.case_cong_weak if_weak_cong)
  from run obtain d where d: "interp ?g (expr_value k (sy_rev_dep ?y)) = Some d"
    and rest: "interp ?g (after v0 d) = Some (v, w)"
    unfolding eq interp_cbind bind_eq_Some_conv by blast
  have v: "w" "d \<le> v \<or> d = 0" "v \<noteq> 1" and dd: "d \<noteq> 0 \<Longrightarrow> \<exists>e. interp ?g (expr_value k (sy_direct_dep ?y)) = Some e"
    using rest unfolding after_def
    by (cases "d = 0"; auto simp: interp_cbind bind_eq_Some_conv max_def split: if_splits)+
  have "semk k st (expr_value k (sy_rev_dep ?y)) d" by (rule keepsD [OF sim_expr_value [OF sim] d])
  moreover have "\<exists>e. semk k st (expr_value k (sy_direct_dep ?y)) e" if "d \<noteq> 0"
    using dd [OF that] keepsD [OF sim_expr_value [OF sim]] by blast
  then have "semk k st (after v d) (v, True)"
    using v(2,3) unfolding after_def by (cases "d = 0") (auto simp: sem_cbind max_def)
  ultimately show ?thesis unfolding eq sem_cbind using v(1) by blast
qed

lemma body_value:
  assumes "kinp st q = None" "interp (eval (kbody k) (kinp st) n) (kbody k q) = Some a"
  shows "hask k st q a"
  using assms by (intro evalD [where n = "Suc n"]) simp

lemma accepted_bool:
  "sy_type (k_sym k s) = BOOL \<Longrightarrow> v = 0 \<or> v = 2 \<Longrightarrow> accepted k s (TRI_TO_STR v) = Some (UTri v)"
  by (auto simp: accepted_def norm_value_def valid_value_def bool_tristate_def STR_TO_TRI_def TRI_TO_STR_def)

lemma defined_bool:
  assumes "wf_conf k" "bool_conf k" "bool_tristate (sy_type (k_sym k s))" "sym_y < s"
  shows "s \<in> set (k_defined k)" "sy_type (k_sym k s) = BOOL"
proof -
  show s: "s \<in> set (k_defined k)"
    by (rule ccontr) (use wf_confD(6) [OF assms(1), of s] assms(3,4) in \<open>auto simp: bool_tristate_def\<close>)
  with assms(2,3) show "sy_type (k_sym k s) = BOOL" by (auto simp: bool_conf_def bool_tristate_def)
qed

lemma bool_vis:
  assumes "users_ok k st" "hask k st (QVis (Sym s)) (AVis x)" "sy_type (k_sym k s) \<noteq> TRISTATE"
  shows "x = 0 \<or> x = 2"
  using value_typed [OF assms(1,2)] assms(3) by (auto simp: kgood_def item_type_def tri_def)

lemma same_tri:
  assumes sim: "sim k st0 n st" and re: "reloaded k st0 st"
    and run: "interp (eval (kbody k) (kinp st0) n) (kbody k (QTri s)) = Some a"
  shows "hask k st (QTri s) a"
proof -
  let ?g = "eval (kbody k) (kinp st0) n"
  from run obtain v w where r: "interp ?g (sym_tri_value k s) = Some (v, w)" "a = ATri v w"
    by (auto simp: kbody_def interp_cbind bind_eq_Some_conv)
  have "semk k st (sym_tri_value k s) (v, w)"
  proof (cases "sym_y < s \<and> bool_tristate (sy_type (k_sym k s))")
    case False
    then have "simk k st0 n st (sym_tri_value k s)"
      by (auto simp: sym_tri_value_def Let_def intro!: keeps_intro)
    from keepsD [OF this r(1)] show ?thesis .
  next
    case True
    then have s: "s \<in> set (k_defined k)" "sy_type (k_sym k s) = BOOL" "sym_y < s" "bool_tristate (sy_type (k_sym k s))"
      using defined_bool [OF simD(1,2) [OF sim]] by auto
    let ?rest = "\<lambda>x. case sy_choice (k_sym k s) of None \<Rightarrow> plain_tri_value k s x | Some c \<Rightarrow> choice_sym_tri_value s c x"
    have eq: "sym_tri_value k s = cbind (ask_vis (Sym s)) ?rest"
      using True by (simp add: sym_tri_value_def Let_def)
    from r(1) obtain x where x: "?g (QVis (Sym s)) = Some (AVis x)" and rest: "interp ?g (?rest x) = Some (v, w)"
      unfolding eq interp_cbind bind_eq_Some_conv interp_ask_vis_iff by blast
    have x02: "x = 0 \<or> x = 2" using bool_vis [OF simD(3) [OF sim] evalD [OF x]] s True by auto
    have vis: "hask k st (QVis (Sym s)) (AVis x)" by (rule simD(5) [OF sim _ x]) simp
    have "semk k st (?rest x) (v, w)"
    proof (cases "sy_choice (k_sym k s) = None \<and> x = 2")
      case True
      with plain_reverse [of ?g k s x] rest obtain v0 where "interp ?g (reverse_deps k s v0 True) = Some (v, w)" by auto
      from reverse_again [OF sim _ this] s have w: "w" "semk k st (reverse_deps k s v True) (v, True)" by auto
      have h: "hask k st0 (QTri s) (ATri v True)" using body_value [OF _ run] r(2) w by simp
      then have v02: "v = 0 \<or> v = 2"
        using value_typed [OF simD(3) [OF sim] h] s by (auto simp: kgood_def tri_def)
      have "written k st0 s (TRI_TO_STR v)" using h s written_bool [OF simD(3) [OF sim]] by auto
      with re s accepted_bool [OF _ v02] have "ks_user st s = Some (UTri v)" by (auto simp: reloaded_def)
      with True w v02 show ?thesis
        by (auto simp: plain_tri_value_def Let_def sem_cbind sem_ask)
    next
      case False
      with x02 sim have "simk k st0 n st (?rest x)"
        by (auto simp: plain_tri_value_def choice_sym_tri_value_def Let_def intro!: keeps_intro split: option.splits)
      from keepsD [OF this rest] show ?thesis .
    qed
    with vis show ?thesis unfolding eq sem_cbind sem_ask_value by blast
  qed
  with r(2) show ?thesis by (auto simp: has_body kbody_def sem_cbind)
qed

lemma interp_first_c:
  "interp g (first_c f xs) = Some (Some r) \<Longrightarrow> \<exists>x \<in> set xs. interp g (f x) = Some (Some r)"
  by (induction xs) (auto simp: interp_cbind bind_eq_Some_conv split: option.splits)

definition visible_sym :: "kconf \<Rightarrow> (query \<Rightarrow> ans option) \<Rightarrow> nat \<Rightarrow> nat \<Rightarrow> bool" where
  "visible_sym k g c s \<longleftrightarrow> s \<in> set (ch_syms (k_chc k c)) \<and> (\<exists>x. g (QVis (Sym s)) = Some (AVis x) \<and> x \<noteq> 0)"

lemma defaults_visible:
  assumes wf: "wf_conf k" and sel: "interp g (selection_from_defaults k c) = Some (Some s)"
  shows "visible_sym k g c s"
proof -
  let ?by_default = "\<lambda>(sym, cond). cbind (expr_value k cond) (\<lambda>v.
      if v = 0 then Ret None else case sym of
        EItem (Sym d) \<Rightarrow> cbind (ask_vis (Sym d)) (\<lambda>v. Ret (if v \<noteq> 0 then Some d else None)) | _ \<Rightarrow> Fail)"
  let ?first = "\<lambda>y. cbind (ask_vis (Sym y)) (\<lambda>v. Ret (if v \<noteq> 0 then Some y else None))"
  from sel obtain r where r: "interp g (first_c ?by_default (ch_defaults (k_chc k c))) = Some r"
    and rest: "interp g (case r of Some s \<Rightarrow> Ret (Some s) | None \<Rightarrow> first_c ?first (ch_syms (k_chc k c))) = Some (Some s)"
    unfolding selection_from_defaults_def interp_cbind bind_eq_Some_conv by blast
  show ?thesis
  proof (cases r)
    case None
    with rest interp_first_c [of g ?first "ch_syms (k_chc k c)" s] show ?thesis
      by (auto simp: visible_sym_def interp_cbind bind_eq_Some_conv interp_ask_vis_iff split: if_splits)
  next
    case (Some s')
    with rest r interp_first_c [of g ?by_default "ch_defaults (k_chc k c)" s] obtain sym cond where
      y: "(sym, cond) \<in> set (ch_defaults (k_chc k c))" "interp g (?by_default (sym, cond)) = Some (Some s)" by auto
    from wf_confD(11) [OF wf y(1)] obtain d where "d \<in> set (ch_syms (k_chc k c))" "sym = EItem (Sym d)" by blast
    with y(2) show ?thesis
      by (auto simp: visible_sym_def interp_cbind bind_eq_Some_conv interp_ask_vis_iff split: if_splits)
  qed
qed

lemma choice_known: "wf_conf k \<Longrightarrow> s \<in> set (ch_syms (k_chc k c)) \<Longrightarrow> c \<in> set (k_choices k)"
  by (rule ccontr) (simp add: wf_confD(7) Choice_def)

lemma selected_written:
  assumes sim: "sim k st0 n st" and sel: "hask k st0 (QSel c) (ASel (Some s))"
    and vis: "visible_sym k (eval (kbody k) (kinp st0) n) c s"
  shows "sy_choice (k_sym k s) = Some c \<and> c \<in> set (k_choices k) \<and> written k st0 s ''y''
    \<and> (\<exists>x. hask k st (QVis (Sym s)) (AVis x) \<and> x \<noteq> 0)"
proof -
  note wf = simD(1,2,3) [OF sim]
  from vis obtain x where s: "s \<in> set (ch_syms (k_chc k c))" and x: "x \<noteq> 0"
    "eval (kbody k) (kinp st0) n (QVis (Sym s)) = Some (AVis x)" by (auto simp: visible_sym_def)
  have "c \<in> set (k_choices k)" by (rule choice_known [OF wf(1) s])
  with s wf(2) have c: "sy_choice (k_sym k s) = Some c" "c \<in> set (k_choices k)" by (auto simp: bool_conf_def)
  note ty = choice_sym_type [OF wf(1,2) c(1)]
  have "hask k st0 (QVis (Sym s)) (AVis 2)"
    using bool_vis [OF wf(3) evalD [OF x(2)]] evalD [OF x(2)] ty(1) x(1) by auto
  with sel have "hask k st0 (QTri s) (ATri 2 True)" using choice_sym_value [OF wf(3) ty(1,3) c(1)] by auto
  then have "written k st0 s (TRI_TO_STR 2)"
    using written_bool [OF wf(3), of s] ty(1) by (auto simp: bool_tristate_def)
  then have "written k st0 s ''y''" by (simp add: TRI_TO_STR_def)
  moreover have "hask k st (QVis (Sym s)) (AVis x)" by (rule simD(5) [OF sim _ x(2)]) simp
  ultimately show ?thesis using c x(1) by blast
qed

lemma same_sel:
  assumes sim: "sim k st0 n st" and re: "reloaded k st0 st"
    and run: "interp (eval (kbody k) (kinp st0) n) (kbody k (QSel c)) = Some a"
  shows "hask k st (QSel c) a"
proof -
  let ?g = "eval (kbody k) (kinp st0) n"
  note wf = simD(1,2,3,4) [OF sim]
  let ?sel = "\<lambda>u. case u of
      None \<Rightarrow> selection_from_defaults k c
    | Some s \<Rightarrow> cbind (ask_vis (Sym s)) (\<lambda>v. if v \<noteq> 0 then Ret (Some s) else selection_from_defaults k c)"
  have eq: "choice_selection k c = cbind (choice_tri_value k c) (\<lambda>mode. if mode \<noteq> 2 then Ret None else cbind (ask_csel c) ?sel)"
    by (simp add: choice_selection_def)
  from run obtain r where r: "interp ?g (choice_selection k c) = Some r" "a = ASel r"
    by (auto simp: kbody_def interp_cbind bind_eq_Some_conv)
  have h: "hask k st0 (QSel c) (ASel r)" using body_value [OF _ run] r(2) by simp
  from r(1) obtain m where m: "interp ?g (choice_tri_value k c) = Some m"
    and rest: "interp ?g (if m \<noteq> 2 then Ret None else cbind (ask_csel c) ?sel) = Some r"
    unfolding eq interp_cbind bind_eq_Some_conv by blast
  have mode: "semk k st (choice_tri_value k c) m" by (rule keepsD [OF sim_choice_tri_value [OF sim] m])
  have "semk k st (if m \<noteq> 2 then Ret None else cbind (ask_csel c) ?sel) r"
  proof (cases "m = 2")
    case True
    define u where "u = ks_csel st0 c"
    have user: "u = Some s \<Longrightarrow> s \<in> set (ch_syms (k_chc k c))" for s using wf(3) by (simp add: u_def users_ok_def)
    have "interp ?g (ask_csel c) = Some u" by (simp add: ask_csel_def kinp_def u_def)
    with rest True have u: "interp ?g (?sel u) = Some r" by (simp add: interp_cbind)
    have "semk k st (?sel (ks_csel st c)) r"
    proof (cases r)
      case (Some s)
      have "visible_sym k ?g c s"
        using u Some defaults_visible [OF wf(1), of ?g c s] user
        by (auto simp: visible_sym_def interp_cbind bind_eq_Some_conv interp_ask_vis_iff split: option.splits if_splits)
      from selected_written [OF sim _ this] h Some obtain x where
        "sy_choice (k_sym k s) = Some c" "c \<in> set (k_choices k)" "written k st0 s ''y''"
        and x: "hask k st (QVis (Sym s)) (AVis x)" "x \<noteq> 0" by blast
      with re have "ks_csel st c = Some s" by (auto simp: reloaded_def)
      with x Some show ?thesis by (auto simp: sem_cbind sem_ask_value)
    next
      case None
      then have d: "interp ?g (selection_from_defaults k c) = Some None"
        using u by (auto simp: interp_cbind bind_eq_Some_conv split: option.splits if_splits)
      have "ks_csel st c = None"
      proof (rule ccontr)
        assume "ks_csel st c \<noteq> None"
        then obtain s where s: "ks_csel st c = Some s" by auto
        then have "s \<in> set (ch_syms (k_chc k c))" using wf(4) by (simp add: users_ok_def)
        then have "c \<in> set (k_choices k)" by (rule choice_known [OF wf(1)])
        with s re have "written k st0 s ''y''" "sy_choice (k_sym k s) = Some c" by (auto simp: reloaded_def)
        from has_unique [OF written_exclusive [OF wf(1-3) this] h] None show False by simp
      qed
      with keepsD [OF sim_values(5) [OF sim] d] None show ?thesis by simp
    qed
    with True show ?thesis by (auto simp: sem_cbind sem_ask)
  qed (use rest in auto)
  with mode have "semk k st (choice_selection k c) r" unfolding eq sem_cbind by blast
  with r(2) show ?thesis by (auto simp: has_body kbody_def sem_cbind)
qed

lemma hidden_vis:
  assumes "hidden_ok k" "sy_env_var (k_sym k s) \<noteq> None \<or> k_defconfig_list k = Some s"
    and "hask k st (QVis (Sym s)) (AVis x)"
  shows "x = 0"
proof -
  have none: "\<forall>n \<in> set (sy_nodes (k_sym k s)). nd_prompt (k_node k n) = None"
    using assms(1,2) by (auto simp: hidden_ok_def)
  have "semk k st (fold_c (\<lambda>vis n. case nd_prompt (k_node k n) of
      None \<Rightarrow> Ret vis | Some (_, cond) \<Rightarrow> cbind (expr_value k cond) (\<lambda>v. Ret (max vis v))) 0 ns) v \<Longrightarrow> v = 0"
    if "set ns \<subseteq> set (sy_nodes (k_sym k s))" for v ns
    using that none by (induction ns) (auto simp: sem_cbind)
  then have "semk k st (prompt_vis k (sy_nodes (k_sym k s))) v \<Longrightarrow> v = 0" for v
    unfolding prompt_vis_def by blast
  moreover define rest where "rest vis = (let ty = sy_type (k_sym k s); done = promote_vis (sym_type k s) vis
     in case sy_choice (k_sym k s) of
          None \<Rightarrow> done
        | Some c \<Rightarrow>
            if ch_type (k_chc k c) = TRISTATE \<and> ty \<noteq> TRISTATE
            then cbind (choice_tri_value k c) (\<lambda>v. if v \<noteq> 2 then Ret 0 else done)
            else if ty = TRISTATE \<and> vis = 1
            then cbind (choice_tri_value k c) (\<lambda>v. if v = 2 then Ret 0 else done)
            else done)" for vis
  have "sym_visibility k s = cbind (prompt_vis k (sy_nodes (k_sym k s))) rest"
    unfolding sym_visibility_def rest_def ..
  with assms(3) have "semk k st (cbind (prompt_vis k (sy_nodes (k_sym k s))) rest) x"
    by (auto simp: has_body kbody_def sem_cbind)
  ultimately have "semk k st (rest 0) x" unfolding sem_cbind by blast
  then show ?thesis
    by (cases "sy_choice (k_sym k s)") (auto simp: rest_def sem_cbind Let_def promote_vis_def split: if_splits)
qed

lemma num_default_written: "interp g (num_default k s b rng True) = Some (v, w) \<Longrightarrow> w"
  by (auto simp: num_default_def interp_cbind bind_eq_Some_conv Let_def split: option.splits prod.splits if_splits)

definition in_range :: "(int \<times> int) option \<Rightarrow> int \<Rightarrow> bool" where
  "in_range rng z \<longleftrightarrow> (case rng of None \<Rightarrow> True | Some (low, high) \<Rightarrow> low \<le> z \<and> z \<le> high)"

text \<open>A visible number is its user value, if that is in the active range, or its default.\<close>

lemma num_value:
  assumes us: "users_ok k st" and x: "x \<noteq> 0" and ih: "int_hex (sy_type (k_sym k s))"
  defines "b \<equiv> TYPE_TO_BASE (sy_type (k_sym k s))"
  shows "semk k st (num_str_value k s b x) (v, w) \<longleftrightarrow>
    (\<exists>rng. semk k st (active_range k s b) rng \<and>
      (case ks_user st s of
         Some (UStr t) \<Rightarrow>
           if t \<noteq> [] \<and> (\<exists>z. int_base b t = Some z \<and> in_range rng z) then v = t \<and> w
           else semk k st (num_default k s b rng True) (v, w)
       | _ \<Rightarrow> semk k st (num_default k s b rng True) (v, w)))"
proof -
  have "int_base b t \<noteq> None" if "ks_user st s = Some (UStr t)" for t
    using us that ih valid_numD(2) [of "sy_type (k_sym k s)" t] by (auto simp: users_ok_def b_def)
  moreover have "ks_user st s \<noteq> Some (UTri z)" for z
    using us ih valid_numD(1) [of "sy_type (k_sym k s)" z] by (auto simp: users_ok_def)
  ultimately have "semk k st (case ks_user st s of
        None \<Rightarrow> num_default k s b rng True
      | Some (UTri _) \<Rightarrow> Fail
      | Some (UStr t) \<Rightarrow>
          if t = [] then num_default k s b rng True
          else (case int_base b t of
                  None \<Rightarrow> Fail
                | Some z \<Rightarrow>
                    (case rng of
                       None \<Rightarrow> Ret (t, True)
                     | Some (low, high) \<Rightarrow>
                         if low \<le> z \<and> z \<le> high then Ret (t, True)
                         else Warn (msg z low high) (num_default k s b rng True)))) (v, w) \<longleftrightarrow>
      (case ks_user st s of
         Some (UStr t) \<Rightarrow>
           if t \<noteq> [] \<and> (\<exists>z. int_base b t = Some z \<and> in_range rng z) then v = t \<and> w
           else semk k st (num_default k s b rng True) (v, w)
       | _ \<Rightarrow> semk k st (num_default k s b rng True) (v, w))" for rng msg
    by (auto simp: in_range_def split: option.splits uval.splits prod.splits)
  then show ?thesis using x by (simp add: num_str_value_def Let_def sem_cbind sem_ask)
qed

lemma interp_ask_user: "interp g (ask_user s) = Some u \<longleftrightarrow> g (QUser s) = Some (AUser u)"
  by (auto simp: ask_user_def split: option.splits ans.splits)

lemma num_value_source:
  assumes run: "interp g (num_str_value k s b x) = Some (v, w)" and x: "x \<noteq> 0"
  shows "\<exists>rng. interp g (active_range k s b) = Some rng
    \<and> (interp g (num_default k s b rng True) = Some (v, w)
       \<or> g (QUser s) = Some (AUser (Some (UStr v))) \<and> v \<noteq> [] \<and> w \<and> (\<exists>z. int_base b v = Some z \<and> in_range rng z))"
proof -
  define by_user where "by_user rng u = (case u of
      None \<Rightarrow> num_default k s b rng (x \<noteq> 0)
    | Some (UTri _) \<Rightarrow> Fail
    | Some (UStr t) \<Rightarrow>
        if t = [] then num_default k s b rng (x \<noteq> 0)
        else (case int_base b t of
                None \<Rightarrow> Fail
              | Some z \<Rightarrow>
                  (case rng of
                     None \<Rightarrow> Ret (t, x \<noteq> 0)
                   | Some (low, high) \<Rightarrow>
                       if low \<le> z \<and> z \<le> high then Ret (t, x \<noteq> 0)
                       else Warn (''user value '' @ num2str b z @ '' on the ''
                              @ TYPE_TO_STR (sy_type (k_sym k s)) @ '' symbol '' @ name_and_loc k (Sym s)
                              @ '' ignored due to being outside the active range (['' @ num2str b low
                              @ '', '' @ num2str b high @ '']) -- falling back on defaults'')
                            (num_default k s b rng (x \<noteq> 0)))))" for rng u
  have "num_str_value k s b x = cbind (active_range k s b) (\<lambda>rng. cbind (ask_user s) (by_user rng))"
    using x unfolding num_str_value_def by_user_def Let_def by simp
  with run obtain rng u where rng: "interp g (active_range k s b) = Some rng" and u: "g (QUser s) = Some (AUser u)"
    and rest: "interp g (by_user rng u) = Some (v, w)"
    by (auto simp: interp_cbind bind_eq_Some_conv interp_ask_user)
  from rest have "interp g (num_default k s b rng True) = Some (v, w)
    \<or> u = Some (UStr v) \<and> v \<noteq> [] \<and> w \<and> (\<exists>z. int_base b v = Some z \<and> in_range rng z)"
    unfolding by_user_def in_range_def using x
    by (cases u) (auto split: uval.splits option.splits prod.splits if_splits)
  with rng u show ?thesis by blast
qed

lemma accepted_text: "\<not> bool_tristate (sy_type (k_sym k s)) \<Longrightarrow>
    accepted k s v = (if valid_value (sy_type (k_sym k s)) (UStr v) then Some (UStr v) else None)"
  by (simp add: accepted_def norm_value_def Let_def)

lemma reloaded_user:
  assumes "reloaded k st0 st" "s \<in> set (k_defined k)" "written k st0 s v"
  shows "ks_user st s = accepted k s v"
proof -
  have "ks_user st s = Some u \<longleftrightarrow> accepted k s v = Some u" for u
    using assms by (auto simp: reloaded_def dest: written_unique)
  then show ?thesis by (metis option.exhaust)
qed

lemma same_num:
  assumes sim: "sim k st0 n st" and re: "reloaded k st0 st" and s: "s \<in> set (k_defined k)" "int_hex (sy_type (k_sym k s))"
    and x: "x \<noteq> 0" and b: "b = TYPE_TO_BASE (sy_type (k_sym k s))"
    and run: "interp (eval (kbody k) (kinp st0) n) (num_str_value k s b x) = Some (v, w)"
    and wr: "written k st0 s v"
  shows "semk k st (num_str_value k s b x) (v, w)"
proof -
  let ?g = "eval (kbody k) (kinp st0) n"
  from num_value_source [OF run x] obtain rng where rng: "interp ?g (active_range k s b) = Some rng"
    and src: "interp ?g (num_default k s b rng True) = Some (v, w)
      \<or> ks_user st0 s = Some (UStr v) \<and> v \<noteq> [] \<and> w \<and> (\<exists>z. int_base b v = Some z \<and> in_range rng z)"
    by (auto simp: kinp_def)
  have nb: "\<not> bool_tristate (sy_type (k_sym k s))" using s(2) by (auto simp: int_hex_def bool_tristate_def)
  have user: "ks_user st s = (if valid_value (sy_type (k_sym k s)) (UStr v) then Some (UStr v) else None)"
    using reloaded_user [OF re s(1) wr] unfolding accepted_text [OF nb] .
  have valid: "valid_value (sy_type (k_sym k s)) (UStr v)" if "ks_user st0 s = Some (UStr v)"
    using simD(3) [OF sim] that by (simp add: users_ok_def)
  have dflt: "semk k st (num_default k s b rng True) (v, w)" if "interp ?g (num_default k s b rng True) = Some (v, w)"
    by (rule keepsD [OF sim_values(4) [OF sim] that])
  have "semk k st (active_range k s b) rng" by (rule keepsD [OF sim_prompts(5) [OF sim] rng])
  moreover have "case ks_user st s of
         Some (UStr t) \<Rightarrow>
           if t \<noteq> [] \<and> (\<exists>z. int_base b t = Some z \<and> in_range rng z) then v = t \<and> w
           else semk k st (num_default k s b rng True) (v, w)
       | _ \<Rightarrow> semk k st (num_default k s b rng True) (v, w)"
    using src user valid dflt num_default_written [of ?g k s b rng v w] by auto
  ultimately show ?thesis unfolding b using num_value [OF simD(4) [OF sim] x s(2)] by blast
qed

lemma string_value_written:
  assumes "interp g (string_str_value k s x) = Some (v, w)" "x \<noteq> 0"
  shows "w"
proof -
  from assms obtain u where u: "interp g (case u of
      None \<Rightarrow> cbind (default_str k s) (\<lambda>d. Ret (case d of None \<Rightarrow> ([], x \<noteq> 0) | Some t \<Rightarrow> (t, True)))
    | Some (UStr t) \<Rightarrow> Ret (t, True)
    | Some (UTri _) \<Rightarrow> Fail) = Some (v, w)"
    by (auto simp: string_str_value_def Let_def interp_cbind bind_eq_Some_conv)
  show ?thesis
  proof (cases u)
    case None
    with u assms(2) show ?thesis by (auto simp: interp_cbind bind_eq_Some_conv split: option.splits)
  next
    case (Some y)
    with u show ?thesis by (cases y) auto
  qed
qed

lemma same_str:
  assumes sim: "sim k st0 n st" and re: "reloaded k st0 st" and hid: "hidden_ok k"
    and run: "interp (eval (kbody k) (kinp st0) n) (kbody k (QStr s)) = Some a"
  shows "hask k st (QStr s) a"
proof -
  let ?g = "eval (kbody k) (kinp st0) n" and ?ty = "sy_type (k_sym k s)"
  let ?shown = "sy_env_var (k_sym k s) = None \<and> k_defconfig_list k \<noteq> Some s"
  from run obtain v w where r: "interp ?g (sym_str_value k s) = Some (v, w)" "a = AStr v w"
    by (auto simp: kbody_def interp_cbind bind_eq_Some_conv)
  have "semk k st (sym_str_value k s) (v, w)"
  proof (cases "bool_tristate ?ty \<or> ?ty = UNKNOWN")
    case True
    have "agrees k st ?g" using sim by (simp add: sim_def)
    with True have "simk k st0 n st (sym_str_value k s)"
      by (auto simp: sym_str_value_def Let_def intro!: keeps_intro keeps_Ask split: ans.splits)
    from keepsD [OF this r(1)] show ?thesis .
  next
    case False
    then have s: "s \<in> set (k_defined k)"
      using wf_confD(6) [OF simD(1) [OF sim], of s] by (auto simp: bool_tristate_def)
    let ?val = "\<lambda>x. if int_hex ?ty then num_str_value k s (TYPE_TO_BASE ?ty) x else string_str_value k s x"
    have eq: "sym_str_value k s = cbind (ask_vis (Sym s)) (\<lambda>x. cbind (?val x) (\<lambda>(val, w). Ret (val, w \<and> ?shown)))"
      using False by (simp add: sym_str_value_def Let_def)
    from r(1) obtain x w0 where x: "?g (QVis (Sym s)) = Some (AVis x)" and val: "interp ?g (?val x) = Some (v, w0)"
      and w: "w = (w0 \<and> ?shown)"
      unfolding eq by (auto simp only: interp_cbind bind_eq_Some_conv interp_ask_vis_iff split: prod.splits) auto
    have vis: "hask k st (QVis (Sym s)) (AVis x)" by (rule simD(5) [OF sim _ x]) simp
    have "semk k st (?val x) (v, w0)"
    proof (cases "x = 0")
      case True
      with sim have "simk k st0 n st (?val x)"
        by (auto simp: num_str_value_def string_str_value_def Let_def intro!: keeps_intro)
      from keepsD [OF this val] show ?thesis .
    next
      case x0: False
      have shown: ?shown using hidden_vis [OF hid _ evalD [OF x]] x0 by blast
      have w0: "w0"
      proof (cases "int_hex ?ty")
        case True
        with val num_value_source [of ?g k s "TYPE_TO_BASE ?ty" x v w0] x0 show ?thesis
          by (auto dest: num_default_written)
      next
        case False
        with val string_value_written [OF _ x0] show ?thesis by simp
      qed
      with w shown body_value [OF _ run] r(2) have wr: "written k st0 s v" by (simp add: written_def)
      show ?thesis
      proof (cases "int_hex ?ty")
        case True
        with same_num [OF sim re s True x0 refl _ wr] val show ?thesis by simp
      next
        case nh: False
        then have st: "?ty = STRING" using False by (cases ?ty) (auto simp: int_hex_def bool_tristate_def)
        then have "ks_user st s = Some (UStr v)"
          using reloaded_user [OF re s wr] accepted_text [of k s v] by (simp add: bool_tristate_def valid_value_def)
        with nh x0 w0 show ?thesis by (simp add: string_str_value_def Let_def sem_cbind sem_ask)
      qed
    qed
    with vis w show ?thesis unfolding eq sem_cbind sem_ask_value by fastforce
  qed
  with r(2) show ?thesis by (auto simp: has_body kbody_def sem_cbind)
qed

subsection \<open>Every depth\<close>

lemma reload_agrees:
  assumes wf: "wf_conf k" "bool_conf k" "users_ok k st0" "users_ok k st" "hidden_ok k" and re: "reloaded k st0 st"
  shows "agrees k st (eval (kbody k) (kinp st0) n)"
proof (induction n)
  case 0
  have "kinp st0 q = None" if "valueq q" for q using that by (cases q) auto
  then show ?case by (simp add: agrees_def)
next
  case (Suc n)
  then have sim: "sim k st0 n st" using wf by (simp add: sim_def)
  show ?case
    unfolding agrees_def
  proof (intro allI impI)
    fix q a assume q: "valueq q" "eval (kbody k) (kinp st0) (Suc n) q = Some a"
    have "kinp st0 q = None" using q(1) by (cases q) auto
    with q(2) have "interp (eval (kbody k) (kinp st0) n) (kbody k q) = Some a" by simp
    then show "hask k st q a"
      using q(1) same_tri [OF sim re] same_str [OF sim re wf(5)] same_vis [OF sim] same_sel [OF sim re] by (cases q) auto
  qed
qed

lemma reload_values:
  assumes "wf_conf k" "bool_conf k" "users_ok k st0" "users_ok k st" "hidden_ok k" "reloaded k st0 st"
    and "valueq q" "hask k st0 q a"
  shows "hask k st q a"
  using assms(7,8) reload_agrees [OF assms(1-6)] by (auto simp: has_def [of _ "kinp st0"] agrees_def)

subsection \<open>Writing and reading a file\<close>

lemma looks_config_contents: "looks_at (\<lambda>_ _. True) UNIV UNIV (config_contents d f k h)"
proof -
  have prompt: "looks_at (\<lambda>_ _. True) UNIV UNIV (prompt_text k n)" for n
    by (simp add: prompt_text_def split: option.splits)
  have conf: "looks_at (\<lambda>_ _. True) UNIV UNIV (config_string k s)" for s
    by (simp add: config_string_def split: ans.splits)
  have menu: "looks_at (\<lambda>_ _. True) UNIV UNIV (menu_comment k x n)" for x n
    by (auto simp: menu_comment_def intro!: asks_cbind prompt split: prod.splits)
  have "looks_at (\<lambda>_ _. True) UNIV UNIV (config_event k x e)" for x e
    by (auto simp: config_event_def leave_node_def visit_node_def
        intro!: asks_cbind looks prompt conf menu split: event.splits nitem.splits item.splits prod.splits)
  then show ?thesis
    unfolding config_contents_def by (auto intro!: asks_cbind asks_fold_c split: option.splits)
qed

lemma visited_walk:
  assumes "tree_of k ts" "height ts < d" "length (preorder ts) < f" "walk d f k (k_top k) = Some es"
  shows "{n. Visit n \<in> set es} = set (preorder ts)"
proof -
  have es: "es = events ts @ (if ts = [] then [] else [Leave (k_top k)])" using walk_tree [OF assms(1-3)] assms(4) by simp
  have "set (visited es) = {n. Visit n \<in> set es}"
  proof (induction es)
    case (Cons e es)
    then show ?case by (cases e) auto
  qed simp
  moreover have "visited es = preorder ts" by (simp add: es visited_events)
  ultimately show ?thesis by simp
qed

definition clean_values :: "kconf \<Rightarrow> kstate \<Rightarrow> bool" where
  "clean_values k st \<longleftrightarrow> (\<forall>s v. written k st s v \<longrightarrow> clean_value (sy_type (k_sym k s)) v)"

lemma written_type: "written k st s v \<Longrightarrow> sy_type (k_sym k s) \<noteq> UNKNOWN"
  by (auto simp: written_def has_body kbody_def sem_cbind sym_str_value_def Let_def bool_tristate_def)

lemma sym_line_chars:
  assumes "text_conf k" "s \<in> set (k_defined k)" "clean_value (sy_type (k_sym k s)) v"
  shows "newline \<notin> set (sym_line k s v) \<and> cr \<notin> set (sym_line k s v)"
proof -
  have name: "newline \<notin> set (sy_name (k_sym k s))" "cr \<notin> set (sy_name (k_sym k s))"
    and p: "k_prefix k = ''CONFIG_''"
    using assms(1,2) name_okD(3,4) by (auto simp: text_conf_def)
  have "c \<in> set (escape v) \<Longrightarrow> c \<in> set v \<or> c = bslash" for c by (induction v) (auto split: if_splits)
  then show ?thesis
    using name p assms(3) by (auto simp: sym_line_def Let_def clean_value_def)
qed

lemma load_written:
  assumes wf: "wf_conf k" "bool_conf k" "text_conf k" and tree: "tree_of k ts" "covers k ts"
    and bound: "height ts < d" "length (preorder ts) < f"
    and us: "users_ok k st0" and st: "kst_ok k st" "users_ok k st"
    and sem: "semk k st0 (config_contents d f k None) txt" and clean: "clean_values k st0"
  shows "univ_nl txt = txt"
    and "\<exists>st'. load_text k name txt True st = Inr st' \<and> kst_ok k st' \<and> users_ok k st' \<and> reloaded k st0 st'"
proof -
  have "prompts_ok k" "k_config_header k = []" using wf(3) by (auto simp: text_conf_def)
  from config_contents_out [OF this sem] obtain es vis ls where es: "walk d f k (k_top k) = Some es"
    and out: "out_inv k st0 vis txt ls"
    and vis: "set vis = {s. \<exists>n. Visit n \<in> set es \<and> nd_item (k_node k n) = NItem (Sym s)}" by blast
  have "Visit n \<in> set es \<longleftrightarrow> n \<in> set (preorder ts)" for n using visited_walk [OF tree(1) bound es] by blast
  with vis tree(2) have vis: "set vis = set (k_defined k)" unfolding covers_def Bex_def by simp
  from out vis have tx: "txt = unlines (map (render k) ls)" and comments: "\<And>t. OComment t \<in> set ls \<Longrightarrow> harmless t"
    and syms: "\<And>s v. OSym s v \<in> set ls \<longleftrightarrow> s \<in> set (k_defined k) \<and> written k st0 s v"
    and dist: "distinct (line_syms ls)" by (auto simp: out_inv_def)
  have chars: "newline \<notin> set (render k l) \<and> cr \<notin> set (render k l)" if "l \<in> set ls" for l
  proof (cases l)
    case (OComment t)
    with that comments [of t] show ?thesis by (simp add: render_def harmless_def)
  next
    case (OSym s v)
    with that syms [of s v] clean sym_line_chars [OF wf(3), of s v] show ?thesis
      by (simp add: render_def clean_values_def)
  qed
  have fr: "fresh_lines k Map.empty ls"
    by (rule written_fresh [OF wf(1,2) us])
      (use syms comments dist clean in \<open>auto simp: clean_values_def dest: written_type\<close>)
  have "cr \<notin> set (unlines (map (render k) ls))" using chars by (auto simp: unlines_def)
  then show "univ_nl txt = txt" by (simp add: tx univ_nl_id)
  from load_text_out [OF wf st fr, of name] chars obtain st' where st':
    "load_text k name txt True st = Inr st'" "kst_ok k st'" "users_ok k st'"
    and asg: "holds_asg k (fold (add_asg k) ls Map.empty) st'" unfolding tx by blast
  have A: "fold (add_asg k) ls Map.empty s = Some u \<longleftrightarrow>
      s \<in> set (k_defined k) \<and> (\<exists>v. written k st0 s v \<and> accepted k s v = Some u)" for s u
    using fold_add_asg [OF dist, of Map.empty k s u] syms by auto
  have yes: "accepted k s v = Some (UTri 2) \<longleftrightarrow> v = ''y''" if "sy_choice (k_sym k s) = Some c" for s v c
    using accepted_yes [of k s v] accepted_bool [OF choice_sym_type(1) [OF wf(1,2) that], of 2]
    by (auto simp: TRI_TO_STR_def)
  have user: "ks_user st' s = fold (add_asg k) ls Map.empty s" if "s \<in> set (k_defined k)" for s
    using asg that by (simp add: holds_asg_def)
  have sel: "ks_csel st' c = Some s \<longleftrightarrow> sy_choice (k_sym k s) = Some c \<and> fold (add_asg k) ls Map.empty s = Some (UTri 2)"
    if "c \<in> set (k_choices k)" for c s using asg that by (simp add: holds_asg_def)
  have "reloaded k st0 st'"
    unfolding reloaded_def
  proof (intro conjI ballI allI)
    fix s u assume "s \<in> set (k_defined k)"
    then show "ks_user st' s = Some u \<longleftrightarrow> (\<exists>v. written k st0 s v \<and> accepted k s v = Some u)" using user A by simp
  next
    fix c s assume c: "c \<in> set (k_choices k)"
    have "fold (add_asg k) ls Map.empty s = Some (UTri 2) \<longleftrightarrow> written k st0 s ''y''" if "sy_choice (k_sym k s) = Some c"
      unfolding A yes [OF that] using choice_sym_type(2) [OF wf(1,2) that] by simp
    then show "ks_csel st' c = Some s \<longleftrightarrow> sy_choice (k_sym k s) = Some c \<and> written k st0 s ''y''"
      unfolding sel [OF c] by (rule conj_cong [OF refl])
  qed
  with st' show "\<exists>st'. load_text k name txt True st = Inr st' \<and> kst_ok k st' \<and> users_ok k st' \<and> reloaded k st0 st'" by blast
qed

lemma sim_config_contents: "sim k st0 n st \<Longrightarrow> simk k st0 n st (config_contents d f k h)"
proof -
  assume sim: "sim k st0 n st"
  have prompt: "simk k st0 n st (prompt_text k m)" for m
    by (auto simp: prompt_text_def intro!: keeps_intro)
  have conf: "simk k st0 n st (config_string k s)" for s
    using sim by (auto simp: config_string_def sim_def intro!: keeps_intro keeps_Ask split: ans.splits)
  have menu: "simk k st0 n st (menu_comment k x m)" for x m
    by (auto simp: menu_comment_def intro!: keeps_intro prompt split: prod.splits)
  have "simk k st0 n st (config_event k x e)" for x e
    using sim by (auto simp: config_event_def leave_node_def visit_node_def
        intro!: keeps_intro prompt conf menu split: event.splits nitem.splits item.splits prod.splits)
  then show ?thesis
    unfolding config_contents_def by (auto intro!: keeps_intro split: option.splits prod.splits)
qed

lemma rewritten:
  assumes "wf_conf k" "bool_conf k" "users_ok k st0" "users_ok k st" "hidden_ok k" "reloaded k st0 st"
    and "semk k st0 (config_contents d f k h) txt"
  shows "semk k st (config_contents d f k h) txt"
proof -
  from assms(7) obtain n where n: "interp (eval (kbody k) (kinp st0) n) (config_contents d f k h) = Some txt"
    unfolding sem_def by blast
  have "sim k st0 n st" using reload_agrees [OF assms(1-6)] assms(1-4) by (simp add: sim_def)
  from keepsD [OF sim_config_contents [OF this] n] show ?thesis .
qed

lemma read_str:
  assumes "wf_conf k" "ranked k rr" "kst_ok k st" "users_ok k st" "s \<in> set (k_defined k)" "qrank k rr (QStr s) < m"
  shows "\<exists>v w st'. kread m k (ask_str s) st = Inr (v, st') \<and> hask k st (QStr s) (AStr v w)"
proof -
  have asks: "asks_only (\<lambda>q. kstored q \<or> kinp st q \<noteq> None) (ask_str s)"
    by (simp add: ask_str_def split: ans.splits)
  have "kruns False (below k rr st m) k (\<lambda>_. True) (ask_str s)"
    by (rule kruns_ask_str) (use assms(5,6) in \<open>simp add: below_def qdom_def\<close>)
  from kask_returns [OF assms(1,2,4,3) this asks] obtain v st' where v: "kask m k (ask_str s) st = Some (v, st')" by auto
  with kask_ok(2) [OF assms(3) asks v] show ?thesis by (auto simp: kread_def sem_ask_value)
qed

lemma written_file:
  assumes "kst_ok k st" "write_config n d f k (Some name) h keep_old st fs = Inr (msg, st1, fs1)"
  shows "\<exists>tx t. semk k st (config_contents d f k h) tx \<and> fs_file fs1 name = Some t \<and> (univ_nl tx = tx \<longrightarrow> univ_nl t = tx)
     \<and> kread n k (config_contents d f k h) st = Inr (tx, st1)"
proof -
  from assms(2) obtain tx where run: "kread n k (config_contents d f k h) st = Inr (tx, st1)"
    and saved: "(if contents_eq fs name tx then Inr (''No change to configuration in '' @ quoted name, st1, fs)
      else rbind (write_file name tx (if keep_old then save_old name fs else fs)) (\<lambda>fs.
           Inr (''Configuration saved to '' @ quoted name, st1, fs))) = Inr (msg, st1, fs1)"
    by (auto simp: write_config_def Let_def rbind_def split: sum.splits if_splits)
  have asks: "asks_only (\<lambda>q. kstored q \<or> kinp st q \<noteq> None) (config_contents d f k h)"
    by (rule asks_mono [OF looks_config_contents asked_of_stored])
  have "semk k st (config_contents d f k h) tx"
    using run kask_ok(2) [OF assms(1) asks, of n tx st1] by (simp add: kread_def split: option.splits)
  moreover have "\<exists>t. fs_file fs1 name = Some t \<and> (univ_nl tx = tx \<longrightarrow> univ_nl t = tx)"
  proof (cases "contents_eq fs name tx")
    case True
    then obtain t where t: "fs_file fs name = Some t" "take (length tx + 1) (univ_nl t) = tx"
      by (auto simp: contents_eq_def open_r_def split: option.splits sum.splits)
    then have "length (univ_nl t) \<le> length tx"
      by (metis add_diff_cancel_left' le_add1 length_take min_def nat_le_linear not_less_eq_eq plus_1_eq_Suc add.commute)
    with t True saved show ?thesis by auto
  next
    case False
    with saved show ?thesis by (auto simp: write_file_def split: if_splits)
  qed
  ultimately show ?thesis using run by blast
qed

end
