(* ===== verification/Kc_File_Example.thy ===== *)
theory Kc_File_Example
  imports Kc_Same Kc_Example
begin

text \<open>
  A small configuration with a menu tree: a menu with the bool symbol \<open>A\<close> and the bool symbol \<open>B\<close>
  that depends on it, an int symbol \<open>N\<close> with a range, a choice of \<open>X\<close> and \<open>Y\<close>, and a string
  symbol \<open>S\<close>.
\<close>

definition link :: "nat option \<Rightarrow> nat option \<Rightarrow> nat option \<Rightarrow> mnode \<Rightarrow> mnode" where
  "link ls nx p nd = nd\<lparr>nd_list := ls, nd_next := nx, nd_parent := p\<rparr>"

definition menu_node :: "string \<Rightarrow> mnode" where
  "menu_node p = (MenuNode MENU (Some 0) ''Kconfig'' 1)\<lparr>nd_prompt := Some (p, e_y)\<rparr>"

definition demo_f :: kconf where
  "demo_f = mk_conf
     [(4, mk_sym ''A'' BOOL 3 e_y),
      (5, (mk_sym ''B'' BOOL 4 (EItem (Sym 4)))\<lparr>sy_defaults := [(e_y, EItem (Sym 4))]\<rparr>),
      (6, (mk_sym ''N'' KINT 5 e_y)\<lparr>sy_defaults := [(EItem (Sym 10), e_y)], sy_ranges := [(11, 12, e_y)]\<rparr>),
      (7, (mk_sym ''X'' BOOL 7 e_y)\<lparr>sy_choice := Some 0\<rparr>),
      (8, (mk_sym ''Y'' BOOL 8 e_y)\<lparr>sy_choice := Some 0\<rparr>),
      (9, (mk_sym ''S'' STRING 9 e_y)\<lparr>sy_defaults := [(EItem (Sym 13), e_y)]\<rparr>),
      (10, Symbol ''64'' True), (11, Symbol ''16'' True), (12, Symbol ''128'' True), (13, Symbol ''ab'' True)]
     [(0, (Choice None)\<lparr>ch_type := BOOL, ch_nodes := [6], ch_syms := [7, 8]\<rparr>)]
     [(0, link (Some 2) None None (menu_node ''Main menu'')),
      (2, link (Some 3) (Some 5) (Some 0) (menu_node ''Features'')),
      (3, link None (Some 4) (Some 2) (mk_node (Sym 4) ''a'' e_y)),
      (4, link None None (Some 2) (mk_node (Sym 5) ''b'' (EItem (Sym 4)))),
      (5, link None (Some 6) (Some 0) (mk_node (Sym 6) ''n'' e_y)),
      (6, link (Some 7) (Some 9) (Some 0) (mk_node (Chc 0) ''c'' e_y)),
      (7, link None (Some 8) (Some 6) (mk_node (Sym 7) ''x'' (EItem (Chc 0)))),
      (8, link None None (Some 6) (mk_node (Sym 8) ''y'' (EItem (Chc 0)))),
      (9, link None None (Some 0) (mk_node (Sym 9) ''s'' e_y))]"

definition demo_tree :: "mtree list" where
  "demo_tree = [MT 2 [MT 3 [], MT 4 []], MT 5 [], MT 6 [MT 7 [], MT 8 []], MT 9 []]"

lemma wf_demo_f: "wf_conf demo_f"
  unfolding demo_f_def mk_conf_def
  by (rule wf_finish) (auto simp: conf_simps link_def menu_node_def split: if_splits)

definition demo_f_rank :: "item \<Rightarrow> nat" where
  "demo_f_rank i = (case i of Sym s \<Rightarrow> if s \<in> {4, 6, 9} then 1 else if s = 5 then 2 else 0 | Chc c \<Rightarrow> 1)"

lemma ranked_demo_f: "ranked demo_f demo_f_rank"
  unfolding ranked_def demo_f_def mk_conf_def
  by (auto simp: conf_simps link_def menu_node_def finish_conf_def kitems_def needs_def rep_def item_type_def
      demo_f_rank_def sane_sym_def bool_tristate_def split: if_splits)

lemmas demo_f_simps = demo_f_def mk_conf_def finish_conf_def conf_simps link_def menu_node_def

lemma demo_f_defined: "k_defined demo_f = [4, 5, 6, 7, 8, 9]" "k_choices demo_f = [0]"
  by (simp_all add: demo_f_simps)

lemma tree_demo_f: "tree_of demo_f demo_tree" "height demo_tree = 2" "length (preorder demo_tree) = 8"
  by (simp_all add: tree_of_def demo_tree_def demo_f_simps)

lemma covers_demo_f: "covers demo_f demo_tree"
  unfolding covers_def demo_f_defined by (auto simp: demo_tree_def demo_f_simps)

lemma bool_demo_f: "bool_conf demo_f" "hidden_ok demo_f"
  by (simp_all add: bool_conf_def hidden_ok_def demo_f_simps)

lemma text_demo_f: "text_conf demo_f"
  by (simp add: text_conf_def prompts_ok_def demo_f_simps name_ok_def py_isspace_def startswith_def)

definition demo_f_ops :: "kop list" where
  "demo_f_ops = [OSet 4 (UStr ''y''), OSet 6 (UStr ''100''), OSet 8 (UTri 2)]"

definition demo_fs :: fsys where
  "demo_fs = \<lparr>fs_file = (\<lambda>_. None), fs_writable = (\<lambda>_. True), fs_isdir = (\<lambda>_. False), fs_env = (\<lambda>_. None), fs_srctree = []\<rparr>"

lemma demo_f_saved:
  "map_option (\<lambda>st. map (\<lambda>s. eval (kbody demo_f) (kinp st) 12 (QStr s)) (k_defined demo_f)) (kops 40 demo_f demo_f_ops kstate_init) =
     Some (map (\<lambda>v. Some (AStr v True)) [''y'', ''y'', ''100'', ''n'', ''y'', ''ab''])"
  by code_simp

lemma demo_f_written:
  "map_option (\<lambda>st. map_sum id (\<lambda>(msg, _, fs). fs_file fs ''c'') (write_config 40 3 9 demo_f (Some ''c'') None False st demo_fs))
     (kops 40 demo_f demo_f_ops kstate_init) =
   Some (Inr (Some (unlines
     [[], ''#'', ''# Features'', ''#'', ''CONFIG_A=y'', ''CONFIG_B=y'', ''# end of Features'', [],
      ''CONFIG_N=100'', ''# CONFIG_X is not set'', ''CONFIG_Y=y'', ''CONFIG_S='' @ [dquote] @ ''ab'' @ [dquote]])))"
  by code_simp

lemma written_defined:
  assumes "wf_conf k" "written k st s v"
  shows "s \<in> set (k_defined k)"
proof (rule ccontr)
  assume "s \<notin> set (k_defined k)"
  with wf_confD(6) [OF assms(1)] written_type [OF assms(2)] have "s \<le> sym_y" "sy_type (k_sym k s) = TRISTATE" by auto
  then have "hask k st (QTri s) (ATri (int s) False)"
    by (simp add: has_body kbody_def sem_cbind sym_tri_value_def)
  then have "hask k st (QStr s) (AStr (TRI_TO_STR (int s)) False)"
    using \<open>sy_type (k_sym k s) = TRISTATE\<close>
    by (auto simp: has_body [of _ "QStr s"] kbody_def sem_cbind sym_str_value_def Let_def bool_tristate_def sem_Ask
        intro!: exI [of _ "ATri (int s) False"])
  with assms(2) show False unfolding written_def by (auto dest: has_unique)
qed

lemma clean_demo_f:
  assumes "kops 40 demo_f demo_f_ops kstate_init = Some st"
  shows "clean_values demo_f st"
proof -
  have ev: "map (\<lambda>s. eval (kbody demo_f) (kinp st) 12 (QStr s)) (k_defined demo_f) =
      map (\<lambda>v. Some (AStr v True)) [''y'', ''y'', ''100'', ''n'', ''y'', ''ab'']"
    using demo_f_saved assms by simp
  have val: "written demo_f st 4 ''y''" "written demo_f st 5 ''y''" "written demo_f st 6 ''100''"
    "written demo_f st 7 ''n''" "written demo_f st 8 ''y''" "written demo_f st 9 ''ab''"
    using ev unfolding demo_f_defined written_def by (auto intro: evalD [where n = 12])
  have ty: "sy_type (k_sym demo_f 4) = BOOL" "sy_type (k_sym demo_f 5) = BOOL" "sy_type (k_sym demo_f 6) = KINT"
    "sy_type (k_sym demo_f 7) = BOOL" "sy_type (k_sym demo_f 8) = BOOL" "sy_type (k_sym demo_f 9) = STRING"
    by (simp_all add: demo_f_simps)
  have "clean_value (sy_type (k_sym demo_f s)) v" if w: "written demo_f st s v" for s v
  proof -
    have "s \<in> set (k_defined demo_f)" by (rule written_defined [OF wf_demo_f w])
    then consider "s = 4" | "s = 5" | "s = 6" | "s = 7" | "s = 8" | "s = 9" unfolding demo_f_defined by auto
    then show ?thesis
      using w by cases (auto simp: ty clean_value_def int_hex_def py_isspace_def dest!: val [THEN written_unique])
  qed
  then show ?thesis by (simp add: clean_values_def)
qed

end
