(* ===== verification/Kc_File_Claims.thy ===== *)
theory Kc_File_Claims
  imports Kc_File_Example
begin

text \<open>
  The properties of the menu tree and of configuration files.
\<close>



text \<open>
  C30. The iterative walk of \<open>node_iter\<close> over nodes whose links form a tree gives the nodes of
  the tree in preorder; with \<open>unique_syms\<close> it gives a subsequence of them that has every node
  that is not of a symbol and exactly one node for every symbol.
\<close>

theorem node_iter_correct:
  assumes "tree_of k ts" "height ts < d" "length (preorder ts) < f"
  shows "node_iter d f k False = Some (preorder ts)
    \<and> (\<exists>ns. node_iter d f k True = Some ns \<and> subseq ns (preorder ts)
      \<and> distinct (List.map_filter (node_sym k) ns)
      \<and> set (List.map_filter (node_sym k) ns) = set (List.map_filter (node_sym k) (preorder ts))
      \<and> filter (\<lambda>n. node_sym k n = None) ns = filter (\<lambda>n. node_sym k n = None) (preorder ts))"
proof (rule conjI)
  define es where "es = events ts @ (if ts = [] then [] else [Leave (k_top k)])"
  have w: "walk d f k (k_top k) = Some es" using walk_tree [OF assms] by (simp add: es_def)
  have v: "visited es = preorder ts" by (simp add: es_def visited_events)
  show "node_iter d f k False = Some (preorder ts)"
    using w yields_all [of k "[]" ts] by (simp add: node_iter_def es_def)
  show "\<exists>ns. node_iter d f k True = Some ns \<and> subseq ns (preorder ts)
      \<and> distinct (List.map_filter (node_sym k) ns)
      \<and> set (List.map_filter (node_sym k) ns) = set (List.map_filter (node_sym k) (preorder ts))
      \<and> filter (\<lambda>n. node_sym k n = None) ns = filter (\<lambda>n. node_sym k n = None) (preorder ts)"
    using yields_unique [of k "[]" es] by (simp add: node_iter_def w v)
qed

theorem node_iter_correct_witness:
  "node_iter 3 9 demo_f False = Some (preorder demo_tree)"
  using node_iter_correct [OF tree_demo_f(1), of 3 9] by (simp add: tree_demo_f)



end
