(* ===== verification/S6_Load.thy ===== *)
theory S6_Load
  imports Py_Text
begin

text \<open>
  \<^verbatim>\<open>spartan6/tools/s6load.py\<close>, which uploads a program over a serial port, and the bootloader
  \<^verbatim>\<open>spartan6/sw/boot.c\<close> at the other end. A port is a value of \<open>port_ops\<close>: what \<open>load\<close>, \<open>send\<close> and
  \<open>terminal\<close> do is defined over any port. The bootloader is a machine that takes one byte at a
  time; a board with it is one such port. The memory of the board is a function on 32-bit
  addresses, since the program stores through a pointer. Progress messages and the pauses
  between bursts are not modelled.
\<close>

unbundle bit_operations_syntax

subsection \<open>Ports\<close>

record 'd port_ops =
  p_write :: "'d \<Rightarrow> byte list \<Rightarrow> 'd"
  p_read :: "'d \<Rightarrow> nat \<Rightarrow> byte list \<times> 'd"
  p_reset_input :: "'d \<Rightarrow> 'd"

definition str_bytes :: "string \<Rightarrow> byte list" where
  "str_bytes s = map (\<lambda>c. of_nat (of_char c)) s"

definition MAGIC :: "byte list" where
  "MAGIC = str_bytes ''S6LD''"

definition CHUNK :: int where "CHUNK = 8"

subsection \<open>\<open>send\<close>\<close>

text \<open>
  The slices \<open>data[off:off + step]\<close> for \<open>off\<close> in \<open>range(0, len(data), step)\<close>; a negative step
  gives none, and a step of 0 raises \<open>ValueError\<close>, which the callers exclude.
\<close>

function slices :: "int \<Rightarrow> 'a list \<Rightarrow> 'a list list" where
  "slices c xs = (if c \<le> 0 \<or> xs = [] then [] else take (nat c) xs # slices c (drop (nat c) xs))"
  by auto
termination
  by (relation "measure (\<lambda>(c, xs). length xs)") auto

declare slices.simps [simp del]

definition send :: "'d port_ops \<Rightarrow> 'd \<Rightarrow> byte list \<Rightarrow> int \<Rightarrow> 'd" where
  "send P port data chunk =
     (if chunk = 0 then p_write P port data
      else foldl (p_write P) port (slices chunk data))"

subsection \<open>\<open>load\<close>\<close>

text \<open>\<open>struct.pack("<I", v)\<close>, which raises \<open>struct.error\<close> out of range.\<close>

definition pack_u32 :: "int \<Rightarrow> byte list res" where
  "pack_u32 v = (if 0 \<le> v \<and> v < 2 ^ 32 then Inr (to_bytes_le 4 v) else Inl StructError)"

definition bytes_sum :: "byte list \<Rightarrow> int" where
  "bytes_sum bs = sum_list (map uint bs)"

text \<open>\<open>repr\<close> of a bytes object.\<close>

definition byte_esc :: "char \<Rightarrow> byte \<Rightarrow> string" where
  "byte_esc q b =
     (let c = char_of (unat b); bs = CHR 0x5C in
      if c = q \<or> c = bs then [bs, c]
      else if b = 9 then [bs, CHR ''t''] else if b = 10 then [bs, CHR ''n''] else if b = 13 then [bs, CHR ''r'']
      else if unat b < 32 \<or> 127 \<le> unat b then [bs, CHR ''x''] @ fmt_0x 2 (unat b)
      else [c])"

definition bytes_repr :: "byte list \<Rightarrow> string" where
  "bytes_repr bs =
     (let q = (if 0x27 \<in> set bs \<and> 0x22 \<notin> set bs then CHR 0x22 else CHR 0x27)
      in ''b'' @ [q] @ concat (map (byte_esc q) bs) @ [q])"

definition load :: "'d port_ops \<Rightarrow> 'd \<Rightarrow> string \<Rightarrow> byte list \<Rightarrow> int \<Rightarrow> int \<Rightarrow> (bool \<times> 'd) res" where
  "load P port img payload entry chunk =
     (if payload = [] then Inl (SystemExit (img @ '' is empty'')) else
      let checksum = py_mask 32 (bytes_sum payload);
          port = p_write P (p_reset_input P port) MAGIC;
          (r, port) = p_read P port 1
      in if r \<noteq> str_bytes ''R''
         then Inl (SystemExit (''[s6load] no '' @ [CHR 0x27] @ ''R'' @ [CHR 0x27] @ '' from the bootloader (got ''
           @ bytes_repr r @ '').'' @ [CHR 0x0A] @ ''         Is the board sitting in s6boot? Press the reset button and try again.''))
         else
      rbind (pack_u32 (int (length payload))) (\<lambda>len_b. rbind (pack_u32 entry) (\<lambda>entry_b.
      let port = send P port (len_b @ entry_b) chunk;
          port = foldl (\<lambda>port part. send P port part chunk) port (slices (max chunk 1 * 32) payload)
      in rbind (pack_u32 checksum) (\<lambda>sum_b.
      let port = send P port sum_b chunk;
          (r, port) = p_read P port 1
      in if r = str_bytes ''K'' then Inr (True, port)
         else if r = str_bytes ''E'' then Inl (SystemExit ''[s6load] checksum mismatch -- the board rejected the image'')
         else if r = str_bytes ''B''
         then Inl (SystemExit (''[s6load] the board refused 0x'' @ fmt_0x 8 (nat entry)
           @ '': the image would overrun the bootloader'' @ [CHR 0x27] @ ''s stack or fall outside block RAM''))
         else Inl (SystemExit (''[s6load] unexpected reply '' @ bytes_repr r))))))"

subsection \<open>The console\<close>

text \<open>What \<open>terminal\<close> does with the keys that have arrived; \<open>None\<close> leaves the loop.\<close>

fun crlf_to_cr :: "byte list \<Rightarrow> byte list" where
  "crlf_to_cr (a # b # bs) = (if a = 13 \<and> b = 10 then 13 # crlf_to_cr bs else a # crlf_to_cr (b # bs))"
| "crlf_to_cr bs = bs"

definition cook_keys :: "byte list \<Rightarrow> byte list option" where
  "cook_keys keys = (if 3 \<in> set keys then None else Some (map (\<lambda>b. if b = 10 then 13 else b) (crlf_to_cr keys)))"

text \<open>\<open>_trace\<close>: rows of 16 bytes in hexadecimal and as text.\<close>

definition trace_row :: "string \<Rightarrow> byte list \<Rightarrow> string" where
  "trace_row tag row =
     (let hexs = py_join '' '' (map (\<lambda>b. fmt_0x 2 (unat b)) row);
          shown = map (\<lambda>b. if 32 \<le> unat b \<and> unat b < 127 then char_of (unat b) else CHR ''.'') row
      in tag @ '' '' @ hexs @ replicate (47 - length hexs) (CHR '' '') @ '' |'' @ shown @ ''|'' @ [CHR 0x0A])"

definition trace :: "string \<Rightarrow> byte list \<Rightarrow> string" where
  "trace tag data = concat (map (trace_row tag) (slices 16 data))"

text \<open>
  The loop of \<open>terminal\<close>, without tracing: an element of the list is one turn, the number of bytes
  that wait at the port and the chunks of keys that are in the queue. The bytes that go to the
  screen are collected.
\<close>

fun terminal :: "'d port_ops \<Rightarrow> 'd \<Rightarrow> int \<Rightarrow> (nat \<times> byte list list) list \<Rightarrow> byte list \<times> 'd" where
  "terminal P port chunk [] = ([], port)"
| "terminal P port chunk ((n, ks) # turns) =
     (let (data, port) = p_read P port (if n = 0 then 1 else n); keys = concat ks
      in if keys = [] then (let (out, port) = terminal P port chunk turns in (data @ out, port))
         else case cook_keys keys of
                None \<Rightarrow> (data, port)
              | Some keys \<Rightarrow>
                  (let (out, port) = terminal P (send P port keys chunk) chunk turns in (data @ out, port)))"

subsection \<open>The bootloader\<close>

text \<open>
  Where \<open>main\<close> of \<^verbatim>\<open>boot.c\<close> waits in \<open>uart_getc\<close>: for the next character of the magic, for a byte of
  the length, the entry, the payload or the checksum. \<open>Running\<close> is the program that was started;
  the bytes it gets are kept.
\<close>

datatype boot_pc =
    WMagic nat
  | WLen "byte list"
  | WEntry "32 word" "byte list"
  | WData "32 word" "32 word" "32 word" "32 word"
  | WSum "32 word" "32 word" "byte list"
  | Running "32 word" "byte list"

record board =
  bd_pc :: boot_pc
  bd_mem :: "32 word \<Rightarrow> byte"
  bd_ram :: "32 word"
  bd_out :: "byte list"

definition get_u32 :: "byte list \<Rightarrow> 32 word" where
  "get_u32 bs = foldl (\<lambda>v (i, b). v OR push_bit (8 * i) (ucast b)) 0 (zip [0..<4] bs)"

definition BOOT_STACK_HEADROOM :: "32 word" where "BOOT_STACK_HEADROOM = 1024"

definition putc :: "char \<Rightarrow> board \<Rightarrow> board" where
  "putc c bd = bd\<lparr>bd_out := bd_out bd @ str_bytes [c]\<rparr>"

text \<open>The head of the loop over the payload: \<open>i < len\<close>.\<close>

definition enter_data :: "32 word \<Rightarrow> 32 word \<Rightarrow> 32 word \<Rightarrow> 32 word \<Rightarrow> boot_pc" where
  "enter_data len entry i got = (if i < len then WData len entry i got else WSum entry got [])"

definition boot_step :: "board \<Rightarrow> byte \<Rightarrow> board" where
  "boot_step bd b =
     (case bd_pc bd of
        WMagic n \<Rightarrow>
          if b \<noteq> MAGIC ! n then bd\<lparr>bd_pc := WMagic 0\<rparr>
          else if n < 3 then bd\<lparr>bd_pc := WMagic (Suc n)\<rparr>
          else (putc (CHR ''R'') bd)\<lparr>bd_pc := WLen []\<rparr>
      | WLen bs \<Rightarrow>
          if length bs < 3 then bd\<lparr>bd_pc := WLen (bs @ [b])\<rparr>
          else bd\<lparr>bd_pc := WEntry (get_u32 (bs @ [b])) []\<rparr>
      | WEntry len bs \<Rightarrow>
          if length bs < 3 then bd\<lparr>bd_pc := WEntry len (bs @ [b])\<rparr>
          else let entry = get_u32 (bs @ [b])
               in if entry < 0x100 \<or> bd_ram bd - BOOT_STACK_HEADROOM < entry + len
                  then (putc (CHR ''B'') bd)\<lparr>bd_pc := WMagic 0\<rparr>
                  else bd\<lparr>bd_pc := enter_data len entry 0 0\<rparr>
      | WData len entry i got \<Rightarrow>
          bd\<lparr>bd_mem := (bd_mem bd)(entry + i := b), bd_pc := enter_data len entry (i + 1) (got + ucast b)\<rparr>
      | WSum entry got bs \<Rightarrow>
          if length bs < 3 then bd\<lparr>bd_pc := WSum entry got (bs @ [b])\<rparr>
          else if got \<noteq> get_u32 (bs @ [b]) then (putc (CHR ''E'') bd)\<lparr>bd_pc := WMagic 0\<rparr>
          else (putc (CHR ''K'') bd)\<lparr>bd_pc := Running entry []\<rparr>
      | Running entry bs \<Rightarrow> bd\<lparr>bd_pc := Running entry (bs @ [b])\<rparr>)"

text \<open>A board on the other end of the port; a read that times out returns fewer bytes.\<close>

definition board_write :: "board \<Rightarrow> byte list \<Rightarrow> board" where
  "board_write = foldl boot_step"

definition board_ops :: "board port_ops" where
  "board_ops =
     \<lparr> p_write = board_write,
       p_read = (\<lambda>bd n. (take n (bd_out bd), bd\<lparr>bd_out := drop n (bd_out bd)\<rparr>)),
       p_reset_input = (\<lambda>bd. bd\<lparr>bd_out := []\<rparr>) \<rparr>"

definition board_reset :: "32 word \<Rightarrow> (32 word \<Rightarrow> byte) \<Rightarrow> board" where
  "board_reset ram m =
     \<lparr> bd_pc = WMagic 0, bd_mem = m, bd_ram = ram,
       bd_out = str_bytes ([CHR 0x0D, CHR 0x0A] @ ''s6boot: waiting for an image (S6LD)'' @ [CHR 0x0D, CHR 0x0A]) \<rparr>"

subsection \<open>Bursts\<close>

text \<open>A port that does not care how a message is cut into writes.\<close>

locale stream_port =
  fixes P :: "'d port_ops"
  assumes write_Nil: "p_write P d [] = d"
    and write_append: "p_write P d (xs @ ys) = p_write P (p_write P d xs) ys"
begin

lemma write_slices: "0 < c \<Longrightarrow> foldl (p_write P) d (slices c xs) = p_write P d xs"
proof (induction c xs arbitrary: d rule: slices.induct)
  case (1 c xs)
  show ?case
  proof (cases "xs = []")
    case False
    with 1 show ?thesis
      by (subst slices.simps) (simp flip: write_append)
  qed (simp add: slices.simps write_Nil)
qed

lemma send_all: "0 \<le> c \<Longrightarrow> send P d xs c = p_write P d xs"
  by (simp add: send_def write_slices)

lemma send_parts:
  assumes "0 \<le> c" "0 < s"
  shows "foldl (\<lambda>d part. send P d part c) d (slices s xs) = p_write P d xs"
  using write_slices [OF assms(2)] assms(1) by (simp add: send_all)

end

lemma board_stream: "stream_port board_ops"
  by unfold_locales (simp_all add: board_ops_def board_write_def)

interpretation bd: stream_port board_ops
  by (rule board_stream)

end
