(* ===== verification/S6_Claims.thy ===== *)
theory S6_Claims
  imports S6_Load
begin

text \<open>
  An upload against a board that sits in the bootloader: what arrives in its memory, and what the
  check of the address lets through.
\<close>

subsection \<open>Words from bytes\<close>

lemma or_disjoint:
  fixes v w :: int
  assumes "0 \<le> v" "v < 2 ^ n"
  shows "v OR push_bit n w = v + 2 ^ n * w"
proof -
  have "take_bit n v = v" using assms by (simp add: take_bit_int_eq_self_iff)
  then have "bit v m \<Longrightarrow> m < n" for m by (metis bit_take_bit_iff)
  then have "v + push_bit n w = v OR push_bit n w"
    by (intro disjunctive_add) (auto simp: bit_push_bit_iff not_less [symmetric])
  then show ?thesis by (simp add: push_bit_eq_mult mult.commute)
qed

lemma or_byte:
  fixes v :: "32 word" and b :: byte
  assumes "uint v < 2 ^ n" "n \<le> 24"
  shows "uint (v OR push_bit n (ucast b)) = uint v + 2 ^ n * uint b" "uint v + 2 ^ n * uint b < 2 ^ (n + 8)"
proof -
  have b: "0 \<le> uint b" "uint b < 256" using uint_byte_bounds .
  have "(2::int) ^ n * uint b \<le> 2 ^ n * 255" using b by simp
  then have "uint v + 2 ^ n * uint b < 2 ^ n + 2 ^ n * 255" using assms(1) by linarith
  then show "uint v + 2 ^ n * uint b < 2 ^ (n + 8)" by (simp add: power_add)
  have "(2::int) ^ (n + 8) \<le> 2 ^ 32" using assms(2) by (intro power_increasing) auto
  with \<open>uint v + 2 ^ n * uint b < 2 ^ (n + 8)\<close> have "2 ^ n * uint b < 2 ^ 32"
    using uint_nonnegative [of v] by linarith
  then have less: "push_bit n (uint b) < 2 ^ 32" by (simp add: push_bit_eq_mult mult.commute)
  have "uint (ucast b :: 32 word) = uint b" using b by (simp add: unsigned_ucast_eq take_bit_int_eq_self)
  then have "uint (push_bit n (ucast b :: 32 word)) = take_bit 32 (push_bit n (uint b))"
    by (simp add: unsigned_push_bit_eq)
  then have "uint (push_bit n (ucast b :: 32 word)) = push_bit n (uint b)"
    using b(1) less by (simp add: take_bit_int_eq_self)
  then show "uint (v OR push_bit n (ucast b)) = uint v + 2 ^ n * uint b"
    using or_disjoint [of "uint v" n "uint b"] assms(1) by (simp add: unsigned_or_eq)
qed

lemma get_u32_bytes: "uint (get_u32 [a, b, c, d]) = from_bytes_le [a, b, c, d]"
proof -
  have 0: "uint (0 :: 32 word) < 2 ^ 0" by simp
  note 1 = or_byte [OF 0, of a] 
  have u1: "uint ((0 :: 32 word) OR push_bit 0 (ucast a)) < 2 ^ 8" using 1 by simp
  note 2 = or_byte [OF u1, of b]
  have u2: "uint ((0 OR push_bit 0 (ucast a)) OR push_bit 8 (ucast b) :: 32 word) < 2 ^ 16" using 2 by simp
  note 3 = or_byte [OF u2, of c]
  have u3: "uint (((0 OR push_bit 0 (ucast a)) OR push_bit 8 (ucast b)) OR push_bit 16 (ucast c) :: 32 word) < 2 ^ 24"
    using 3 by simp
  note 4 = or_byte [OF u3, of d]
  have "get_u32 [a, b, c, d] =
      (((0 OR push_bit 0 (ucast a)) OR push_bit 8 (ucast b)) OR push_bit 16 (ucast c)) OR push_bit 24 (ucast d)"
    by (simp add: get_u32_def upt_rec)
  then show ?thesis using 1(1) 2(1) 3(1) 4(1) by (simp add: algebra_simps)
qed

lemma get_u32_pack:
  assumes "0 \<le> v" "v < 2 ^ 32"
  shows "get_u32 (to_bytes_le 4 v) = word_of_int v"
proof -
  obtain a b c d where bs: "to_bytes_le 4 v = [a, b, c, d]" by (simp add: eval_nat_numeral)
  have "uint (get_u32 (to_bytes_le 4 v)) = v mod 256 ^ 4"
    unfolding bs get_u32_bytes unfolding bs [symmetric] by (rule from_to_bytes_le)
  with assms have "uint (get_u32 (to_bytes_le 4 v)) = v" by simp
  then show ?thesis by (metis word_of_int_uint)
qed

subsection \<open>The bootloader on a whole message\<close>

lemma board_write_simps:
  "board_write bd [] = bd" "board_write bd (b # bs) = board_write (boot_step bd b) bs"
  "board_write bd (bs @ cs) = board_write (board_write bd bs) cs"
  by (simp_all add: board_write_def)

lemma boot_magic:
  "bd_pc bd = WMagic 0 \<Longrightarrow> board_write bd MAGIC = (putc (CHR ''R'') bd)\<lparr>bd_pc := WLen []\<rparr>"
  by (simp add: board_write_simps boot_step_def MAGIC_def str_bytes_def putc_def eval_nat_numeral)

lemma four_bytes: "length bs = 4 \<Longrightarrow> \<exists>a b c d. bs = [a, b, c, d]"
  by (auto simp: eval_nat_numeral length_Suc_conv)

lemma boot_len:
  assumes "bd_pc bd = WLen []" "length bs = 4"
  shows "board_write bd bs = bd\<lparr>bd_pc := WEntry (get_u32 bs) []\<rparr>"
  using four_bytes [OF assms(2)] assms(1) by (auto simp: board_write_simps boot_step_def putc_def)

lemma boot_entry:
  assumes "bd_pc bd = WEntry len []" "length bs = 4"
  shows "board_write bd bs =
    (let entry = get_u32 bs
     in if entry < 0x100 \<or> bd_ram bd - BOOT_STACK_HEADROOM < entry + len
        then (putc (CHR ''B'') bd)\<lparr>bd_pc := WMagic 0\<rparr>
        else bd\<lparr>bd_pc := enter_data len entry 0 0\<rparr>)"
  using four_bytes [OF assms(2)] assms(1) by (auto simp: board_write_simps boot_step_def Let_def putc_def)

lemma boot_sum:
  assumes "bd_pc bd = WSum entry got []" "length bs = 4"
  shows "board_write bd bs =
    (if got \<noteq> get_u32 bs then (putc (CHR ''E'') bd)\<lparr>bd_pc := WMagic 0\<rparr>
     else (putc (CHR ''K'') bd)\<lparr>bd_pc := Running entry []\<rparr>)"
  using four_bytes [OF assms(2)] assms(1) by (auto simp: board_write_simps boot_step_def putc_def)

text \<open>Storing bytes at consecutive addresses.\<close>

fun store :: "32 word \<Rightarrow> byte list \<Rightarrow> (32 word \<Rightarrow> byte) \<Rightarrow> 32 word \<Rightarrow> byte" where
  "store a [] m = m"
| "store a (b # bs) m = store (a + 1) bs (m(a := b))"

lemma boot_data:
  "i + length bs = n \<Longrightarrow> n < 2 ^ 32 \<Longrightarrow> bd_pc bd = enter_data (of_nat n) entry (of_nat i) got \<Longrightarrow>
   board_write bd bs =
     bd\<lparr>bd_pc := WSum entry (got + word_of_int (bytes_sum bs)) [], bd_mem := store (entry + of_nat i) bs (bd_mem bd)\<rparr>"
proof (induction bs arbitrary: i bd got)
  case Nil
  then show ?case by (simp add: board_write_simps enter_data_def bytes_sum_def)
next
  case (Cons b bs)
  have "(of_nat i :: 32 word) < of_nat n"
    using Cons.prems(1,2) by (simp add: word_less_nat_alt unsigned_of_nat take_bit_nat_eq_self)
  with Cons.prems(3) have pc: "bd_pc bd = WData (of_nat n) entry (of_nat i) got" by (simp add: enter_data_def)
  let ?bd = "bd\<lparr>bd_mem := (bd_mem bd)(entry + of_nat i := b),
      bd_pc := enter_data (of_nat n) entry (of_nat (Suc i)) (got + ucast b)\<rparr>"
  have step: "boot_step bd b = ?bd" by (simp add: boot_step_def pc add.commute)
  have "board_write ?bd bs = ?bd\<lparr>bd_pc := WSum entry (got + ucast b + word_of_int (bytes_sum bs)) [],
      bd_mem := store (entry + of_nat (Suc i)) bs (bd_mem ?bd)\<rparr>"
    by (rule Cons.IH) (use Cons.prems in simp_all)
  moreover have "got + ucast b + word_of_int (bytes_sum bs) = got + word_of_int (bytes_sum (b # bs))"
    unfolding ucast_eq [of b] by (simp add: bytes_sum_def add.assoc)
  ultimately show ?case unfolding board_write_simps step by (simp add: algebra_simps)
qed

lemma store_nth:
  "length bs \<le> 2 ^ 32 \<Longrightarrow> j < length bs \<Longrightarrow> store a bs m (a + of_nat j) = bs ! j"
  and store_other: "(\<And>j. j < length bs \<Longrightarrow> c \<noteq> a + of_nat j) \<Longrightarrow> store a bs m c = m c"
proof (induction bs arbitrary: a m j c)
  case (Cons b bs)
  {
    case 1
    show ?case
    proof (cases j)
      case 0
      have "a \<noteq> (a + 1) + of_nat i" if "i < length bs" for i
      proof
        assume "a = (a + 1) + of_nat i"
        then have "(of_nat (Suc i) :: 32 word) = 0" by (simp add: algebra_simps)
        then have "2 ^ 32 dvd Suc i" by (simp only: word_of_nat_eq_0_iff) simp
        with 1(1) that show False by (auto dest!: dvd_imp_le)
      qed
      then have "store (a + 1) bs (m(a := b)) a = b" by (subst Cons(2)) auto
      with 0 show ?thesis by simp
    next
      case (Suc i)
      have eq: "a + of_nat j = (a + 1) + of_nat i" by (simp add: Suc)
      show ?thesis unfolding eq using 1 by (simp add: Suc Cons(1))
    qed
  next
    case 2
    have "c \<noteq> a" using 2 [of 0] by simp
    moreover have "c \<noteq> (a + 1) + of_nat j" if "j < length bs" for j using 2 [of "Suc j"] that by (simp add: algebra_simps)
    ultimately show ?case by (simp add: Cons(2))
  }
qed simp_all

definition accepts :: "32 word \<Rightarrow> int \<Rightarrow> nat \<Rightarrow> bool" where
  "accepts ram entry n \<longleftrightarrow>
     0x100 \<le> entry \<and> (entry + int n) mod 2 ^ 32 \<le> uint (ram - BOOT_STACK_HEADROOM)"

lemma board_ops_simps [simp]:
  "p_write board_ops = board_write" "p_reset_input board_ops bd = bd\<lparr>bd_out := []\<rparr>"
  "p_read board_ops bd n = (take n (bd_out bd), bd\<lparr>bd_out := drop n (bd_out bd)\<rparr>)"
  by (simp_all add: board_ops_def)

lemma boot_header:
  assumes "bd_pc bd = WLen []" "n < 2 ^ 32" "0 \<le> entry" "entry < 2 ^ 32"
  shows "board_write bd (to_bytes_le 4 (int n) @ to_bytes_le 4 entry) =
    (if accepts (bd_ram bd) entry n then bd\<lparr>bd_pc := enter_data (of_nat n) (word_of_int entry) 0 0\<rparr>
     else (putc (CHR ''B'') bd)\<lparr>bd_pc := WMagic 0\<rparr>)"
proof -
  let ?e = "word_of_int entry :: 32 word" and ?n = "of_nat n :: 32 word"
  have n: "get_u32 (to_bytes_le 4 (int n)) = ?n" using get_u32_pack [of "int n"] assms(2) by simp
  have e: "get_u32 (to_bytes_le 4 entry) = ?e" by (rule get_u32_pack [OF assms(3,4)])
  have ue: "uint ?e = entry" using assms(3,4) by (simp add: uint_word_of_int)
  have "uint (?e + ?n) = (entry + int n) mod 2 ^ 32"
    using assms(2) by (simp add: uint_word_arith_bintrs ue unsigned_of_nat take_bit_eq_mod)
  then have "accepts (bd_ram bd) entry n \<longleftrightarrow> \<not> (?e < 0x100 \<or> bd_ram bd - BOOT_STACK_HEADROOM < ?e + ?n)"
    by (auto simp: accepts_def word_less_def ue)
  then show ?thesis
    unfolding board_write_simps boot_len [OF assms(1) length_to_bytes_le] n
    by (subst boot_entry) (auto simp: Let_def e putc_def)
qed

lemma board_out_prefix: "\<exists>t. bd_out (board_write bd bs) = bd_out bd @ t"
proof (induction bs arbitrary: bd)
  case (Cons b bs)
  have "\<exists>t. bd_out (boot_step bd b) = bd_out bd @ t"
    by (auto simp: boot_step_def putc_def Let_def split: boot_pc.splits)
  with Cons [of "boot_step bd b"] show ?case by (auto simp: board_write_simps)
qed (simp add: board_write_simps)

lemma word_at: "word_of_int entry + of_nat j = (word_of_int (entry + int j) :: 32 word)"
  by simp

lemma uint_at: "uint (word_of_int entry + of_nat j :: 32 word) = (entry + int j) mod 2 ^ 32"
  unfolding word_at uint_word_of_int by simp

lemma load_result:
  assumes pc: "bd_pc bd = WMagic 0" and p: "payload \<noteq> []" "length payload < 2 ^ 32"
    and e: "0 \<le> entry" "entry < 2 ^ 32" and c: "0 \<le> chunk"
  shows "load board_ops bd img payload entry chunk =
    (if accepts (bd_ram bd) entry (length payload)
     then Inr (True, bd\<lparr>bd_out := [], bd_mem := store (word_of_int entry) payload (bd_mem bd),
            bd_pc := Running (word_of_int entry) []\<rparr>)
     else Inl (SystemExit (''[s6load] the board refused 0x'' @ fmt_0x 8 (nat entry)
           @ '': the image would overrun the bootloader'' @ [CHR 0x27] @ ''s stack or fall outside block RAM'')))"
proof -
  define bd1 where "bd1 = bd\<lparr>bd_pc := WLen [], bd_out := []\<rparr>"
  let ?sum = "py_mask 32 (bytes_sum payload)"
  define bd2 where "bd2 = board_write bd1 (to_bytes_le 4 (int (length payload)) @ to_bytes_le 4 entry)"
  define bd3 where "bd3 = board_write (board_write bd2 payload) (to_bytes_le 4 ?sum)"
  have magic: "board_write (bd\<lparr>bd_out := []\<rparr>) MAGIC = (putc (CHR ''R'') (bd\<lparr>bd_out := []\<rparr>))\<lparr>bd_pc := WLen []\<rparr>"
    by (rule boot_magic) (simp add: pc)
  have pl: "pack_u32 (int (length payload)) = Inr (to_bytes_le 4 (int (length payload)))"
    "pack_u32 entry = Inr (to_bytes_le 4 entry)" "pack_u32 ?sum = Inr (to_bytes_le 4 ?sum)"
    using p(2) e py_mask_bounds [of 32 "bytes_sum payload"] by (simp_all add: pack_u32_def)
  have parts: "foldl board_write d (slices (max chunk 1 * 32) payload) = board_write d payload" for d
    using bd.write_slices [of "max chunk 1 * 32" d payload] by simp
  have run: "load board_ops bd img payload entry chunk =
      (if take 1 (bd_out bd3) = str_bytes ''K'' then Inr (True, bd3\<lparr>bd_out := drop 1 (bd_out bd3)\<rparr>)
       else if take 1 (bd_out bd3) = str_bytes ''E'' then Inl (SystemExit ''[s6load] checksum mismatch -- the board rejected the image'')
       else if take 1 (bd_out bd3) = str_bytes ''B''
       then Inl (SystemExit (''[s6load] the board refused 0x'' @ fmt_0x 8 (nat entry)
           @ '': the image would overrun the bootloader'' @ [CHR 0x27] @ ''s stack or fall outside block RAM''))
       else Inl (SystemExit (''[s6load] unexpected reply '' @ bytes_repr (take 1 (bd_out bd3)))))"
    using p(1) unfolding load_def Let_def
    by (simp add: magic pl putc_def str_bytes_def bd.send_all [OF c] parts bd3_def bd2_def bd1_def)
  have hdr: "bd2 = (if accepts (bd_ram bd) entry (length payload)
      then bd1\<lparr>bd_pc := enter_data (of_nat (length payload)) (word_of_int entry) 0 0\<rparr>
      else (putc (CHR ''B'') bd1)\<lparr>bd_pc := WMagic 0\<rparr>)"
    unfolding bd2_def by (subst boot_header) (use p(2) e in \<open>simp_all add: bd1_def\<close>)
  show ?thesis
  proof (cases "accepts (bd_ram bd) entry (length payload)")
    case True
    have data: "board_write bd2 payload = bd2\<lparr>bd_pc := WSum (word_of_int entry) (word_of_int (bytes_sum payload)) [],
        bd_mem := store (word_of_int entry) payload (bd_mem bd2)\<rparr>"
      using boot_data [of 0 payload "length payload" bd2 "word_of_int entry" 0] p(2) hdr True by simp
    have sum: "get_u32 (to_bytes_le 4 ?sum) = word_of_int (bytes_sum payload)"
      unfolding get_u32_pack [OF py_mask_bounds]
      by (rule word_uint_eqI) (simp add: py_mask_take_bit uint_word_of_int take_bit_eq_mod)
    have "bd3 = (putc (CHR ''K'') (board_write bd2 payload))\<lparr>bd_pc := Running (word_of_int entry) []\<rparr>"
      using boot_sum [of "board_write bd2 payload" "word_of_int entry" "word_of_int (bytes_sum payload)" "to_bytes_le 4 ?sum"]
      by (simp add: bd3_def data sum)
    then have "bd3 = bd\<lparr>bd_out := str_bytes ''K'', bd_mem := store (word_of_int entry) payload (bd_mem bd),
        bd_pc := Running (word_of_int entry) []\<rparr>"
      unfolding data using hdr True by (simp add: putc_def bd1_def str_bytes_def)
    with True run show ?thesis by (simp add: str_bytes_def)
  next
    case False
    obtain t where "bd_out bd3 = bd_out bd2 @ t"
      using board_out_prefix unfolding bd3_def by (metis append.assoc)
    with False hdr have "take 1 (bd_out bd3) = str_bytes ''B''"
      by (simp add: putc_def bd1_def str_bytes_def)
    with False run show ?thesis by (simp add: str_bytes_def)
  qed
qed

subsection \<open>Claims\<close>

text \<open>
  C101. An upload arrives: against a board that sits in the bootloader, an image that fits between
  the address 0x100 and the stack of the bootloader is stored byte for byte at its load address,
  nothing else in the memory changes, and the board runs from there, whatever the size of the
  bursts. An image that starts below 0x100 or, without exceeding the address space, ends above the
  limit is refused.
\<close>

theorem load_delivers:
  assumes "bd_pc bd = WMagic 0" "payload \<noteq> []" "0 \<le> entry" "entry + int (length payload) < 2 ^ 32" "0 \<le> chunk"
    and "1024 \<le> uint (bd_ram bd)"
  shows "if 0x100 \<le> entry \<and> entry + int (length payload) \<le> uint (bd_ram bd) - 1024
    then \<exists>bd'. load board_ops bd img payload entry chunk = Inr (True, bd') \<and> bd_pc bd' = Running (word_of_int entry) []
      \<and> (\<forall>a. bd_mem bd' a = (if entry \<le> uint a \<and> uint a < entry + int (length payload)
            then payload ! nat (uint a - entry) else bd_mem bd a))
    else \<exists>msg. load board_ops bd img payload entry chunk = Inl (SystemExit (''[s6load] the board refused '' @ msg))"
proof -
  let ?e = "word_of_int entry :: 32 word"
  have small: "length payload < 2 ^ 32" "entry < 2 ^ 32" using assms(3,4) by auto
  have ram: "uint (bd_ram bd - BOOT_STACK_HEADROOM) = uint (bd_ram bd) - 1024"
    using assms(6) by (simp add: BOOT_STACK_HEADROOM_def uint_sub_if')
  have acc: "accepts (bd_ram bd) entry (length payload) \<longleftrightarrow>
      0x100 \<le> entry \<and> entry + int (length payload) \<le> uint (bd_ram bd) - 1024"
    using assms(3,4) by (simp add: accepts_def ram)
  note res = load_result [OF assms(1,2) small(1) assms(3) small(2) assms(5), of img]
  have mem: "store ?e payload (bd_mem bd) a = (if entry \<le> uint a \<and> uint a < entry + int (length payload)
      then payload ! nat (uint a - entry) else bd_mem bd a)" for a
  proof (cases "entry \<le> uint a \<and> uint a < entry + int (length payload)")
    case True
    define j where "j = nat (uint a - entry)"
    have "entry + int j = uint a" using True by (simp add: j_def)
    then have a: "?e + of_nat j = a" using word_at [of entry j] by simp
    have "j < length payload" using True by (auto simp: j_def)
    from store_nth [OF less_imp_le [OF small(1)] this, of ?e "bd_mem bd"]
    show ?thesis unfolding a if_P [OF True] j_def [symmetric] .
  next
    case False
    have "a \<noteq> ?e + of_nat j" if "j < length payload" for j
    proof
      assume "a = ?e + of_nat j"
      then have "uint a = (entry + int j) mod 2 ^ 32"
        by (simp only: uint_at)
      also have "\<dots> = entry + int j" using that assms(3,4) by (intro mod_pos_pos_trivial) auto
      finally show False using that False by auto
    qed
    with False store_other [of payload a ?e "bd_mem bd"] show ?thesis by auto
  qed
  show ?thesis using res acc mem by (cases "accepts (bd_ram bd) entry (length payload)") auto
qed

theorem load_delivers_witness:
  "\<exists>bd'. load board_ops (board_reset 65536 (\<lambda>_. 0)) ''a.bin'' [1, 2, 3] 0x800 8 = Inr (True, bd')
     \<and> bd_pc bd' = Running 0x800 [] \<and> bd_mem bd' 0x801 = 2 \<and> bd_mem bd' 0x7ff = 0"
  using load_delivers [where bd = "board_reset 65536 (\<lambda>_. 0)" and payload = "[1, 2, 3]" and entry = "0x800" and chunk = 8 and img = "''a.bin''"]
  by (auto simp: board_reset_def)

text \<open>
  C102. The bootloader's check of the address wraps around: an image whose end exceeds the 32-bit
  address space is accepted although it starts outside the memory, and the part behind address
  \<open>2\<^sup>3\<^sup>2\<close> overwrites the memory from address 0 on, where the bootloader itself is.
\<close>

theorem load_wraps:
  assumes "bd_pc bd = WMagic 0" "0x100 \<le> entry" "entry < 2 ^ 32" "length payload < 2 ^ 32" "0 \<le> chunk"
    and "1024 \<le> uint (bd_ram bd)" "uint (bd_ram bd) \<le> entry"
    and "2 ^ 32 < entry + int (length payload)" "entry + int (length payload) - 2 ^ 32 \<le> uint (bd_ram bd) - 1024"
  shows "\<exists>bd'. load board_ops bd img payload entry chunk = Inr (True, bd')
    \<and> bd_mem bd' 0 = payload ! nat (2 ^ 32 - entry)"
proof -
  have p: "payload \<noteq> []" using assms(3,8) by auto
  have ram: "uint (bd_ram bd - BOOT_STACK_HEADROOM) = uint (bd_ram bd) - 1024"
    using assms(6) by (simp add: BOOT_STACK_HEADROOM_def uint_sub_if')
  have "(entry + int (length payload)) mod 2 ^ 32 = (entry + int (length payload) - 2 ^ 32) mod 2 ^ 32" by simp
  also have "\<dots> = entry + int (length payload) - 2 ^ 32" using assms(3,4,8) by (intro mod_pos_pos_trivial) auto
  finally have acc: "accepts (bd_ram bd) entry (length payload)" using assms(2,9) by (simp add: accepts_def ram)
  have pos: "0 \<le> entry" using assms(2) by simp
  define j where "j = nat (2 ^ 32 - entry)"
  have "word_of_int entry + of_nat j = (0 :: 32 word)"
    using assms(3) word_at [of entry j] by (simp add: j_def)
  moreover have "j < length payload" using assms(3,8) by (auto simp: j_def)
  ultimately have "store (word_of_int entry) payload (bd_mem bd) 0 = payload ! j"
    using store_nth [of payload j "word_of_int entry" "bd_mem bd"] assms(4) by simp
  with load_result [OF assms(1) p assms(4) pos assms(3,5), of img] acc show ?thesis by (simp add: j_def)
qed

theorem load_wraps_witness:
  "\<exists>bd'. load board_ops (board_reset 65536 (\<lambda>_. 0)) ''a.bin'' [1, 2, 3, 4, 5, 6] 0xFFFFFFFC 8 = Inr (True, bd')
     \<and> bd_mem bd' 0 = 5"
  using load_wraps [where bd = "board_reset 65536 (\<lambda>_. 0)" and entry = "0xFFFFFFFC" and payload = "[1, 2, 3, 4, 5, 6]" and chunk = 8 and img = "''a.bin''"]
  by (auto simp: board_reset_def)

end
