(* ===== verification/Spec2Isabelle.thy ===== *)
theory Spec2Isabelle
  imports Vec_Claims Gdb_Claims Kc_Claims Kc_File_Claims S6_Claims
begin

text \<open>
  Verification of the Python tools of riscv-from-scratch.
\<close>

end
